(* ===== verification/Prelude.thy ===== *)
theory Prelude
  imports Main "HOL-Library.Word" "HOL-Library.Char_ord" "HOL-Library.List_Lexorder"
begin

text \<open>
  What every component of the development shares: the types that stand for Go's strings,
  bytes and instants, iteration over Go maps, loops over slices as \<^const>\<open>fold\<close>, and the
  generic lemmas on maps, sets and lists that carry the component proofs.

  \<^item> A Go \<^verbatim>\<open>string\<close> is a byte sequence, as Isabelle's \<^typ>\<open>string\<close> is; \<^verbatim>\<open>cid.Cid\<close> and
    \<^verbatim>\<open>peer.ID\<close> are defined types over \<^verbatim>\<open>string\<close> and are compared as such. The empty string is
    the undefined CID and the empty peer.
  \<^item> A Go map is a partial function. Ranging over it visits each key once in an order the
    language does not fix: operations that range over a map take the order as an argument
    \<open>it\<close> and the theorems hold for every \<open>it\<close> with \<open>iterates it\<close>.
  \<^item> Instants are counted in nanoseconds since Go's zero time, which is \<open>0\<close>; durations are
    nanoseconds.
\<close>

section \<open>Types\<close>

type_synonym cid = string
type_synonym peer = string
type_synonym byte = "8 word"
type_synonym bytes = "byte list"
type_synonym int32 = "32 word"
type_synonym uint64 = "64 word"
type_synonym time = int
type_synonym duration = int

named_theorems inv_intros \<open>preservation of the components' invariants by their operations\<close>
named_theorems op_defs \<open>definitions of small operations that proofs unfold\<close>

abbreviation (input) cid_Undef :: cid where
  "cid_Undef \<equiv> []"

abbreviation (input) no_peer :: peer where
  "no_peer \<equiv> []"

definition cid_Defined :: "cid \<Rightarrow> bool" where
  "cid_Defined c \<longleftrightarrow> c \<noteq> cid_Undef"

section \<open>Iteration over maps and sets\<close>

definition iterates :: "('a set \<Rightarrow> 'a list) \<Rightarrow> bool" where
  "iterates it \<longleftrightarrow> (\<forall>S. finite S \<longrightarrow> set (it S) = S \<and> distinct (it S))"

lemma iterates_set [simp]: "iterates it \<Longrightarrow> finite S \<Longrightarrow> set (it S) = S"
  by (simp add: iterates_def)

lemma iterates_distinct [simp]: "iterates it \<Longrightarrow> finite S \<Longrightarrow> distinct (it S)"
  by (simp add: iterates_def)

lemma iterates_length [simp]: "iterates it \<Longrightarrow> finite S \<Longrightarrow> length (it S) = card S"
  by (metis distinct_card iterates_distinct iterates_set)

lemma iterates_empty [simp]: "iterates it \<Longrightarrow> it {} = []"
  by (metis finite.emptyI iterates_set set_empty)

lemma iterates_Nil_iff [simp]: "iterates it \<Longrightarrow> finite S \<Longrightarrow> it S = [] \<longleftrightarrow> S = {}"
  using iterates_set [of it S] by (metis set_empty)

lemma iterates_sorted_list_of_set [simp]: "iterates sorted_list_of_set"
  by (simp add: iterates_def)

definition map_values :: "('k set \<Rightarrow> 'k list) \<Rightarrow> ('k \<rightharpoonup> 'v) \<Rightarrow> 'v list" where
  "map_values it m = List.map_filter m (it (dom m))"

lemma set_map_filter_eq: "set (List.map_filter m ks) = {v. \<exists>k \<in> set ks. m k = Some v}"
  by (auto simp: List.map_filter_def image_iff) force

lemma set_map_values [simp]:
  "iterates it \<Longrightarrow> finite (dom m) \<Longrightarrow> set (map_values it m) = ran m"
  by (auto simp: map_values_def set_map_filter_eq ran_def)

lemma map_filter_the:
  "set ks \<subseteq> dom m \<Longrightarrow> List.map_filter m ks = map (the \<circ> m) ks"
  by (induction ks) (auto simp: List.map_filter_def)

lemma map_values_eq:
  "iterates it \<Longrightarrow> finite (dom m) \<Longrightarrow> map_values it m = map (the \<circ> m) (it (dom m))"
  by (simp add: map_values_def map_filter_the)

section \<open>Loops over slices\<close>

lemma fold_invariant:
  assumes "P s" and "\<And>x s. x \<in> set xs \<Longrightarrow> P s \<Longrightarrow> P (f x s)"
  shows "P (fold f xs s)"
  using assms by (induction xs arbitrary: s) auto

lemma fold_project:
  assumes "\<And>x s. x \<in> set xs \<Longrightarrow> g (f x s) = h x (g s)"
  shows "g (fold f xs s) = fold h xs (g s)"
  using assms by (induction xs arbitrary: s) auto

lemma fold_field_unchanged:
  assumes "\<And>x s. x \<in> set xs \<Longrightarrow> g (f x s) = g s"
  shows "g (fold f xs s) = g s"
  using assms by (induction xs arbitrary: s) auto

lemma fold_insert_set: "fold insert xs S = set xs \<union> S"
  by (induction xs arbitrary: S) auto

lemma fold_remove_set: "fold (\<lambda>x S. S - {x}) xs S = S - set xs"
  by (induction xs arbitrary: S) auto

lemma fold_append_filter:
  "fold (\<lambda>x acc. if P x then acc @ [x] else acc) xs acc = acc @ filter P xs"
  by (induction xs arbitrary: acc) auto

lemma map_fst_guarded:
  "map fst (concat (map (\<lambda>p. if P p then [(p, f p)] else []) ps)) = filter P ps"
  by (induction ps) auto

lemma fold_union_sets: "fold (\<lambda>x S. S \<union> f x) xs S = S \<union> (\<Union>x \<in> set xs. f x)"
  by (induction xs arbitrary: S) auto

lemma fold_map_upd: "fold (\<lambda>k m. m(k \<mapsto> f k)) ks m k = (if k \<in> set ks then Some (f k) else m k)"
  by (induction ks arbitrary: m) auto

lemma int_card_diff:
  "finite A \<Longrightarrow> B \<subseteq> A \<Longrightarrow> int (card (A - B)) = int (card A) - int (card B)"
  by (simp add: card_Diff_subset card_mono finite_subset of_nat_diff)

lemma fold_map_delete: "fold (\<lambda>k m. m(k := None)) ks m = m |` (- set ks)"
  by (induction ks arbitrary: m) (auto simp: restrict_map_def fun_eq_iff)

section \<open>Maps of sets: a key maps to the set of values filed under it, never to the empty set\<close>

definition lookup_set :: "('k \<rightharpoonup> 'v set) \<Rightarrow> 'k \<Rightarrow> 'v set" where
  "lookup_set m k = (case m k of None \<Rightarrow> {} | Some S \<Rightarrow> S)"

lemma lookup_set_upd [simp]:
  "lookup_set (m(k := None)) k' = (if k' = k then {} else lookup_set m k')"
  "lookup_set (m(k \<mapsto> S)) k' = (if k' = k then S else lookup_set m k')"
  by (simp_all add: lookup_set_def)

lemma lookup_set_empty [simp]: "lookup_set Map.empty k = {}"
  by (simp add: lookup_set_def)

lemma lookup_set_None [simp]: "m k = None \<Longrightarrow> lookup_set m k = {}"
  by (simp add: lookup_set_def)

lemma lookup_set_Some [simp]: "m k = Some S \<Longrightarrow> lookup_set m k = S"
  by (simp add: lookup_set_def)

lemma lookup_set_restrict [simp]:
  "lookup_set (m |` A) k = (if k \<in> A then lookup_set m k else {})"
  by (simp add: lookup_set_def)

section \<open>Instants and durations\<close>

definition time_IsZero :: "time \<Rightarrow> bool" where
  "time_IsZero t \<longleftrightarrow> t = 0"

definition max_duration :: duration where
  "max_duration = 2 ^ 63 - 1"

text \<open>\<^verbatim>\<open>Time.Sub\<close> saturates at the largest and the smallest duration.\<close>

definition time_Sub :: "time \<Rightarrow> time \<Rightarrow> duration" where
  "time_Sub t u = max (- max_duration - 1) (min max_duration (t - u))"

abbreviation second :: duration where
  "second \<equiv> 1000000000"

abbreviation millisecond :: duration where
  "millisecond \<equiv> 1000000"

lemma time_Sub_exact:
  "0 \<le> t - u \<Longrightarrow> t - u \<le> max_duration \<Longrightarrow> time_Sub t u = t - u"
  by (simp add: time_Sub_def max_duration_def)

text \<open>A timer: stopped, running until an instant, or fired with the tick still in its channel.\<close>

datatype timer = Stopped | Armed time | Fired

end
