(* ===== verification/Auth.thy ===== *)
theory Auth
  imports Prelude
begin

text \<open>
  Package \<^verbatim>\<open>auth\<close> (\<^verbatim>\<open>auth/types.go\<close>, \<^verbatim>\<open>auth/set.go\<close>, \<^verbatim>\<open>auth/blockstore.go\<close>): a want is a CID
  together with the authorisation string presented for it; blocks carry the want they answer; the
  authorising blockstore hands out a block only when the \<open>allow\<close> callback accepts the requester.
  The underlying blockstore (\<^verbatim>\<open>go-ipfs-blockstore\<close>) and the codec of a CID (\<^verbatim>\<open>go-cid\<close>) are
  parameters.
\<close>

section \<open>Wants\<close>

datatype Want = Want (want_Cid: cid) (want_Auth: string)

definition Undef :: Want where
  "Undef = Want cid_Undef []"

definition NewWant :: "cid \<Rightarrow> string \<Rightarrow> Want" where
  "NewWant c a = Want c a"

lemma NewWant_eq [simp]: "NewWant c a = NewWant c' a' \<longleftrightarrow> c = c' \<and> a = a'"
  by (simp add: NewWant_def)

lemma NewWant_sel [simp]: "want_Cid (NewWant c a) = c" "want_Auth (NewWant c a) = a"
  by (simp_all add: NewWant_def)

definition Want_Defined :: "Want \<Rightarrow> bool" where
  "Want_Defined w = cid_Defined (want_Cid w)"

definition Want_Equals :: "Want \<Rightarrow> Want \<Rightarrow> bool" where
  "Want_Equals w b \<longleftrightarrow> want_Cid w = want_Cid b \<and> want_Auth w = want_Auth b"

text \<open>Wants are ordered by CID and then by authorisation; this gives one concrete order in which
  a map keyed by wants can be visited.\<close>

instantiation Want :: linorder
begin

definition less_eq_Want :: "Want \<Rightarrow> Want \<Rightarrow> bool" where
  "less_eq_Want v w \<longleftrightarrow>
     want_Cid v < want_Cid w \<or> want_Cid v = want_Cid w \<and> want_Auth v \<le> want_Auth w"

definition less_Want :: "Want \<Rightarrow> Want \<Rightarrow> bool" where
  "less_Want v w \<longleftrightarrow>
     want_Cid v < want_Cid w \<or> want_Cid v = want_Cid w \<and> want_Auth v < want_Auth w"

instance
  by standard (auto simp: less_eq_Want_def less_Want_def Want.expand)

end

lemma Want_Equals_eq [simp]: "Want_Equals v w \<longleftrightarrow> v = w"
  by (cases v; cases w) (simp add: Want_Equals_def)

lemma not_Want_Defined_Undef [simp]: "\<not> Want_Defined Undef"
  by (simp add: Want_Defined_def Undef_def cid_Defined_def)

section \<open>Sets of wants\<close>

type_synonym wset = "Want set"

definition NewSet :: wset where
  [simp]: "NewSet = {}"

definition Set_Add :: "Want \<Rightarrow> wset \<Rightarrow> wset" where
  [simp]: "Set_Add w s = insert w s"

definition Set_Has :: "wset \<Rightarrow> Want \<Rightarrow> bool" where
  [simp]: "Set_Has s w \<longleftrightarrow> w \<in> s"

definition Set_Remove :: "Want \<Rightarrow> wset \<Rightarrow> wset" where
  [simp]: "Set_Remove w s = s - {w}"

definition Set_Len :: "wset \<Rightarrow> nat" where
  [simp]: "Set_Len s = card s"

definition Set_Keys :: "(Want set \<Rightarrow> Want list) \<Rightarrow> wset \<Rightarrow> Want list" where
  [simp]: "Set_Keys it s = it s"

definition Set_Visit :: "Want \<Rightarrow> wset \<Rightarrow> bool \<times> wset" where
  "Set_Visit w s = (if \<not> Set_Has s w then (True, Set_Add w s) else (False, s))"

lemma Set_Has_abs: "Set_Has s = (\<lambda>w. w \<in> s)"
  by (simp add: fun_eq_iff)

lemma Set_Remove_abs: "Set_Remove = (\<lambda>w s. s - {w})"
  by (simp add: fun_eq_iff)

text \<open>\<^verbatim>\<open>ForEach\<close> stops at the first error; the callback updates a state \<open>st\<close>.\<close>

fun ForEach_loop :: "(Want \<Rightarrow> 's \<Rightarrow> 'e option \<times> 's) \<Rightarrow> Want list \<Rightarrow> 's \<Rightarrow> 'e option \<times> 's" where
  "ForEach_loop f [] st = (None, st)"
| "ForEach_loop f (w # ws) st =
     (case f w st of
        (Some e, st') \<Rightarrow> (Some e, st')
      | (None, st') \<Rightarrow> ForEach_loop f ws st')"

definition Set_ForEach ::
  "(Want set \<Rightarrow> Want list) \<Rightarrow> (Want \<Rightarrow> 's \<Rightarrow> 'e option \<times> 's) \<Rightarrow> wset \<Rightarrow> 's \<Rightarrow> 'e option \<times> 's" where
  "Set_ForEach it f s st = ForEach_loop f (it s) st"

lemma ForEach_loop_total:
  "(\<And>w st. fst (f w st) = None) \<Longrightarrow>
     ForEach_loop f ws st = (None, fold (\<lambda>w st. snd (f w st)) ws st)"
proof (induction ws arbitrary: st)
  case (Cons w ws)
  then show ?case by (cases "f w st") (use Cons.prems [of w st] in auto)
qed simp

section \<open>Blocks and the wants they answer\<close>

record block =
  block_Cid :: cid
  block_RawData :: bytes

record AuthBlockImpl =
  ab_want :: Want
  ab_block :: block

definition NewBlock :: "block \<Rightarrow> string \<Rightarrow> AuthBlockImpl" where
  "NewBlock b a = \<lparr>ab_want = NewWant (block_Cid b) a, ab_block = b\<rparr>"

definition AuthBlock_Cid :: "AuthBlockImpl \<Rightarrow> cid" where
  "AuthBlock_Cid a = block_Cid (ab_block a)"

definition AuthBlock_Want :: "AuthBlockImpl \<Rightarrow> Want" where
  "AuthBlock_Want a = ab_want a"

definition AuthBlock_Size :: "AuthBlockImpl \<Rightarrow> int" where
  "AuthBlock_Size a = int (length (block_RawData (ab_block a)))"

definition AuthBlock_GetAuthedData :: "AuthBlockImpl \<Rightarrow> bytes" where
  "AuthBlock_GetAuthedData a = block_RawData (ab_block a)"

lemma NewBlock_want [simp]:
  "AuthBlock_Want (NewBlock b a) = Want (block_Cid b) a"
  "AuthBlock_Cid (NewBlock b a) = block_Cid b"
  "AuthBlock_Size (NewBlock b a) = int (length (block_RawData b))"
  "AuthBlock_GetAuthedData (NewBlock b a) = block_RawData b"
  by (simp_all add: NewBlock_def AuthBlock_Want_def AuthBlock_Cid_def AuthBlock_Size_def
      AuthBlock_GetAuthedData_def NewWant_def)

section \<open>The authorising blockstore\<close>

datatype bs_error = ErrNotFound | ErrUnauthorised | ErrStore string

text \<open>The blockstore it wraps, over a store of type \<open>'s\<close>.\<close>

record 's blockstore =
  src_Has :: "cid \<Rightarrow> 's \<Rightarrow> bs_error + bool"
  src_Get :: "cid \<Rightarrow> 's \<Rightarrow> bs_error + block"
  src_GetSize :: "cid \<Rightarrow> 's \<Rightarrow> bs_error + int"
  src_Put :: "block \<Rightarrow> 's \<Rightarrow> bs_error option \<times> 's"
  src_PutMany :: "block list \<Rightarrow> 's \<Rightarrow> bs_error option \<times> 's"
  src_DeleteBlock :: "cid \<Rightarrow> 's \<Rightarrow> bs_error option \<times> 's"
  src_BloomAdd :: "cid \<Rightarrow> 's \<Rightarrow> bs_error option \<times> 's"
  src_AllKeys :: "'s \<Rightarrow> bs_error + cid list"
  src_HashOnRead :: "bool \<Rightarrow> 's \<Rightarrow> 's"

record 's AuthedBlockstore =
  bs_source :: "'s blockstore"
  bs_allow :: "cid \<Rightarrow> bytes \<Rightarrow> peer \<Rightarrow> string \<Rightarrow> bool"

definition NewAuthBlockstore ::
  "'s blockstore \<Rightarrow> (cid \<Rightarrow> bytes \<Rightarrow> peer \<Rightarrow> string \<Rightarrow> bool) \<Rightarrow> 's AuthedBlockstore" where
  "NewAuthBlockstore bstore allow = \<lparr>bs_source = bstore, bs_allow = allow\<rparr>"

definition AuthedBlockstore_Get ::
  "'s AuthedBlockstore \<Rightarrow> cid \<Rightarrow> peer \<Rightarrow> string \<Rightarrow> 's \<Rightarrow> bs_error + block" where
  "AuthedBlockstore_Get bs c remote auth s =
     (case src_Has (bs_source bs) c s of
        Inl e \<Rightarrow> Inl e
      | Inr local \<Rightarrow>
          if \<not> local then Inl ErrNotFound
          else case src_Get (bs_source bs) c s of
                 Inl e \<Rightarrow> Inl ErrUnauthorised
               | Inr b \<Rightarrow>
                   if bs_allow bs c (block_RawData b) remote auth then Inr b
                   else Inl ErrUnauthorised)"

definition AuthedBlockstore_DeleteBlock ::
  "'s AuthedBlockstore \<Rightarrow> cid \<Rightarrow> 's \<Rightarrow> bs_error option \<times> 's" where
  "AuthedBlockstore_DeleteBlock bs c s = src_DeleteBlock (bs_source bs) c s"

definition AuthedBlockstore_BloomAdd ::
  "'s AuthedBlockstore \<Rightarrow> cid \<Rightarrow> 's \<Rightarrow> bs_error option \<times> 's" where
  "AuthedBlockstore_BloomAdd bs c s = src_BloomAdd (bs_source bs) c s"

text \<open>The codec numbers are those of the multicodec table: \<^verbatim>\<open>raw\<close> is 0x55, \<^verbatim>\<open>dag-cbor\<close> 0x71.\<close>

definition codec_Raw :: nat where "codec_Raw = 85"
definition codec_DagCBOR :: nat where "codec_DagCBOR = 113"

definition AuthedBlockstore_Has ::
  "(cid \<Rightarrow> nat) \<Rightarrow> 's AuthedBlockstore \<Rightarrow> cid \<Rightarrow> 's \<Rightarrow> bs_error + bool" where
  "AuthedBlockstore_Has cid_Type bs c s =
     (let codec = cid_Type c
      in if codec \<noteq> codec_Raw \<and> codec \<noteq> codec_DagCBOR then Inr False
         else src_Has (bs_source bs) c s)"

definition AuthedBlockstore_GetSize :: "'s AuthedBlockstore \<Rightarrow> cid \<Rightarrow> 's \<Rightarrow> bs_error + int" where
  "AuthedBlockstore_GetSize bs c s = src_GetSize (bs_source bs) c s"

definition AuthedBlockstore_Put ::
  "'s AuthedBlockstore \<Rightarrow> AuthBlockImpl \<Rightarrow> 's \<Rightarrow> bs_error option \<times> 's" where
  "AuthedBlockstore_Put bs b s = src_Put (bs_source bs) (ab_block b) s"

definition AuthedBlockstore_PutMany ::
  "'s AuthedBlockstore \<Rightarrow> AuthBlockImpl list \<Rightarrow> 's \<Rightarrow> bs_error option \<times> 's" where
  "AuthedBlockstore_PutMany bs bls s = src_PutMany (bs_source bs) (map ab_block bls) s"

definition AuthedBlockstore_AllKeysChan :: "'s AuthedBlockstore \<Rightarrow> 's \<Rightarrow> bs_error + cid list" where
  "AuthedBlockstore_AllKeysChan bs s = src_AllKeys (bs_source bs) s"

definition AuthedBlockstore_HashOnRead :: "'s AuthedBlockstore \<Rightarrow> bool \<Rightarrow> 's \<Rightarrow> 's" where
  "AuthedBlockstore_HashOnRead bs enabled s = src_HashOnRead (bs_source bs) enabled s"

section \<open>The contract of an authorising blockstore\<close>

text \<open>What the decision engine relies on: a block is returned to a peer only if the peer's
  authorisation is accepted for that block's data, and it is the block that is stored.\<close>

locale auth_blockstore =
  fixes Get :: "cid \<Rightarrow> peer \<Rightarrow> string \<Rightarrow> 's \<Rightarrow> bs_error + block"
    and allowed :: "cid \<Rightarrow> bytes \<Rightarrow> peer \<Rightarrow> string \<Rightarrow> bool"
    and stored :: "'s \<Rightarrow> cid \<Rightarrow> block \<Rightarrow> bool"
  assumes Get_allowed: "Get c p a s = Inr b \<Longrightarrow> allowed c (block_RawData b) p a"
    and Get_stored: "Get c p a s = Inr b \<Longrightarrow> stored s c b"

lemma AuthedBlockstore_Get_Inr:
  "AuthedBlockstore_Get bs c p a s = Inr b \<longleftrightarrow>
     src_Has (bs_source bs) c s = Inr True \<and> src_Get (bs_source bs) c s = Inr b \<and>
     bs_allow bs c (block_RawData b) p a"
  by (auto simp: AuthedBlockstore_Get_def split: sum.splits if_splits)

definition src_stored :: "'s AuthedBlockstore \<Rightarrow> 's \<Rightarrow> cid \<Rightarrow> block \<Rightarrow> bool" where
  "src_stored bs s c b \<longleftrightarrow>
     src_Has (bs_source bs) c s = Inr True \<and> src_Get (bs_source bs) c s = Inr b"

interpretation authed: auth_blockstore "AuthedBlockstore_Get bs" "bs_allow bs" "src_stored bs"
  for bs :: "'s AuthedBlockstore"
  by unfold_locales (auto simp: AuthedBlockstore_Get_Inr src_stored_def)

end
