(* ===== verification/Wantlist.thy ===== *)
theory Wantlist
  imports Auth "HOL-Library.Multiset"
begin

text \<open>
  Package \<^verbatim>\<open>wantlist\<close> (\<^verbatim>\<open>wantlist/wantlist.go\<close>): the wants of one peer with their priorities and
  types. A want-block is stronger than a want-have: adding never weakens an entry and removing by
  type never drops a want-block on behalf of a want-have. The contract other components rely on is
  the locale \<open>want_store\<close>.
\<close>

section \<open>Data\<close>

text \<open>A protobuf enum is an \<^verbatim>\<open>int32\<close>: a received message may carry a number that is neither constant.\<close>

type_synonym WantType = int32

abbreviation (input) Message_Wantlist_Block :: WantType where
  "Message_Wantlist_Block \<equiv> 0"

abbreviation (input) Message_Wantlist_Have :: WantType where
  "Message_Wantlist_Have \<equiv> 1"

record Entry =
  e_Want :: Want
  e_Priority :: int32
  e_WantType :: WantType

type_synonym wantlist = "Want \<rightharpoonup> Entry"

definition NewRefEntry :: "Want \<Rightarrow> int32 \<Rightarrow> Entry" where
  "NewRefEntry c p = \<lparr>e_Want = c, e_Priority = p, e_WantType = Message_Wantlist_Block\<rparr>"

text \<open>\<^verbatim>\<open>entrySlice.Less\<close>: priorities are signed.\<close>

definition entry_Less :: "Entry \<Rightarrow> Entry \<Rightarrow> bool" where
  "entry_Less e f \<longleftrightarrow> sint (e_Priority e) > sint (e_Priority f)"

section \<open>Operations\<close>

definition Wantlist_New :: wantlist where
  "Wantlist_New = Map.empty"

definition Wantlist_Len :: "wantlist \<Rightarrow> nat" where
  "Wantlist_Len w = card (dom w)"

definition Wantlist_Add :: "Want \<Rightarrow> int32 \<Rightarrow> WantType \<Rightarrow> wantlist \<Rightarrow> bool \<times> wantlist" where
  "Wantlist_Add c priority wantType w =
     (let new = w(c \<mapsto> \<lparr>e_Want = c, e_Priority = priority, e_WantType = wantType\<rparr>)
      in case w c of
           Some e \<Rightarrow>
             if e_WantType e = Message_Wantlist_Block \<or> wantType = Message_Wantlist_Have
             then (False, w) else (True, new)
         | None \<Rightarrow> (True, new))"

definition Wantlist_Remove :: "Want \<Rightarrow> wantlist \<Rightarrow> bool \<times> wantlist" where
  "Wantlist_Remove c w = (case w c of None \<Rightarrow> (False, w) | Some _ \<Rightarrow> (True, w(c := None)))"

definition Wantlist_RemoveType :: "Want \<Rightarrow> WantType \<Rightarrow> wantlist \<Rightarrow> bool \<times> wantlist" where
  "Wantlist_RemoveType c wantType w =
     (case w c of
        None \<Rightarrow> (False, w)
      | Some e \<Rightarrow>
          if e_WantType e = Message_Wantlist_Block \<and> wantType = Message_Wantlist_Have
          then (False, w) else (True, w(c := None)))"

definition Wantlist_Contains :: "wantlist \<Rightarrow> Want \<Rightarrow> Entry option" where
  "Wantlist_Contains w c = w c"

definition Wantlist_Entries :: "(Want set \<Rightarrow> Want list) \<Rightarrow> wantlist \<Rightarrow> Entry list" where
  "Wantlist_Entries it w = map_values it w"

definition Wantlist_Absorb ::
  "(Want set \<Rightarrow> Want list) \<Rightarrow> wantlist \<Rightarrow> wantlist \<Rightarrow> wantlist" where
  "Wantlist_Absorb it other w =
     fold (\<lambda>e w. snd (Wantlist_Add (e_Want e) (e_Priority e) (e_WantType e) w))
       (Wantlist_Entries it other) w"

text \<open>\<^verbatim>\<open>sort.Sort\<close> orders by \<open>entry_Less\<close> and does not fix the order of equal entries. The slices
  sorted are enumerations of a map in an arbitrary order, so the stable sort of that enumeration
  stands for every outcome.\<close>

definition SortEntries :: "Entry list \<Rightarrow> Entry list" where
  "SortEntries es = sort_key (\<lambda>e. - sint (e_Priority e)) es"

section \<open>Well-formedness\<close>

text \<open>A wantlist is finite and files each entry under its own want.\<close>

definition Wantlist_wf :: "wantlist \<Rightarrow> bool" where
  "Wantlist_wf w \<longleftrightarrow> finite (dom w) \<and> (\<forall>c e. w c = Some e \<longrightarrow> e_Want e = c)"

lemmas wantlist_ops =
  Wantlist_New_def Wantlist_Add_def Wantlist_Remove_def Wantlist_RemoveType_def
  Wantlist_Contains_def

lemma Wantlist_wf_New [inv_intros]: "Wantlist_wf Wantlist_New"
  by (simp add: Wantlist_wf_def Wantlist_New_def)

lemma Wantlist_wf_Add [inv_intros]: "Wantlist_wf w \<Longrightarrow> Wantlist_wf (snd (Wantlist_Add c p t w))"
  by (auto simp: Wantlist_wf_def Wantlist_Add_def Let_def split: option.splits)

lemma Wantlist_wf_Remove [inv_intros]: "Wantlist_wf w \<Longrightarrow> Wantlist_wf (snd (Wantlist_Remove c w))"
  by (auto simp: Wantlist_wf_def Wantlist_Remove_def split: option.splits)

lemma Wantlist_wf_RemoveType [inv_intros]:
  "Wantlist_wf w \<Longrightarrow> Wantlist_wf (snd (Wantlist_RemoveType c t w))"
  by (auto simp: Wantlist_wf_def Wantlist_RemoveType_def split: option.splits)

lemma Wantlist_wf_Absorb [inv_intros]: "Wantlist_wf w \<Longrightarrow> Wantlist_wf (Wantlist_Absorb it other w)"
  unfolding Wantlist_Absorb_def by (rule fold_invariant [where P = Wantlist_wf]) (auto intro: Wantlist_wf_Add)

section \<open>The contract: a store of wants in which a want-block wins\<close>

locale want_store =
  fixes add :: "Want \<Rightarrow> int32 \<Rightarrow> WantType \<Rightarrow> 'l \<Rightarrow> bool \<times> 'l"
    and remove :: "Want \<Rightarrow> 'l \<Rightarrow> bool \<times> 'l"
    and remove_type :: "Want \<Rightarrow> WantType \<Rightarrow> 'l \<Rightarrow> bool \<times> 'l"
    and contains :: "'l \<Rightarrow> Want \<Rightarrow> Entry option"
  assumes add_result:
      "fst (add c p t l) \<longleftrightarrow>
         (case contains l c of
            None \<Rightarrow> True
          | Some e \<Rightarrow> \<not> (e_WantType e = Message_Wantlist_Block \<or> t = Message_Wantlist_Have))"
    and contains_add:
      "contains (snd (add c p t l)) d =
         (if d = c \<and> fst (add c p t l)
          then Some \<lparr>e_Want = c, e_Priority = p, e_WantType = t\<rparr> else contains l d)"
    and remove_result: "fst (remove c l) \<longleftrightarrow> contains l c \<noteq> None"
    and contains_remove: "contains (snd (remove c l)) d = (if d = c then None else contains l d)"
    and remove_type_result:
      "fst (remove_type c t l) \<longleftrightarrow>
         (case contains l c of
            None \<Rightarrow> False
          | Some e \<Rightarrow> \<not> (e_WantType e = Message_Wantlist_Block \<and> t = Message_Wantlist_Have))"
    and contains_remove_type:
      "contains (snd (remove_type c t l)) d =
         (if d = c \<and> fst (remove_type c t l) then None else contains l d)"
begin

definition members :: "'l \<Rightarrow> Want set" where
  "members l = {c. contains l c \<noteq> None}"

definition blocks :: "'l \<Rightarrow> Want set" where
  "blocks l = {c. \<exists>e. contains l c = Some e \<and> e_WantType e = Message_Wantlist_Block}"

lemma members_add [simp]: "members (snd (add c p t l)) = insert c (members l)"
  by (auto simp: members_def contains_add add_result split: option.splits if_splits)

lemma members_remove [simp]: "members (snd (remove c l)) = members l - {c}"
  by (auto simp: members_def contains_remove)

lemma blocks_subset: "blocks l \<subseteq> members l"
  by (auto simp: blocks_def members_def)

lemma blocks_add:
  "blocks (snd (add c p t l)) =
     (if t = Message_Wantlist_Block then insert c (blocks l) else blocks l)"
  by (auto simp: blocks_def contains_add add_result split: option.splits)

lemma blocks_remove [simp]: "blocks (snd (remove c l)) = blocks l - {c}"
  by (auto simp: blocks_def contains_remove)

lemma blocks_remove_have: "blocks (snd (remove_type c Message_Wantlist_Have l)) = blocks l"
  by (auto simp: blocks_def contains_remove_type remove_type_result split: option.splits if_splits)

lemma remove_type_block:
  "contains (snd (remove_type c Message_Wantlist_Block l)) d = (if d = c then None else contains l d)"
  by (auto simp: contains_remove_type remove_type_result split: option.splits if_splits)

lemma members_remove_type_subset: "members (snd (remove_type c t l)) \<subseteq> members l"
  by (auto simp: members_def contains_remove_type split: if_splits)

lemma add_idempotent:
  "contains (snd (add c p t (snd (add c p t l)))) d = contains (snd (add c p t l)) d"
  by (auto simp: contains_add add_result split: option.splits if_splits)

lemma members_add_list:
  "members (fold (\<lambda>c l. snd (add c (p c) t l)) cs l) = set cs \<union> members l"
  by (induction cs arbitrary: l) auto

lemma blocks_add_list:
  "blocks (fold (\<lambda>c l. snd (add c (p c) Message_Wantlist_Block l)) cs l) = set cs \<union> blocks l"
  by (induction cs arbitrary: l) (auto simp: blocks_add)

end

interpretation wl: want_store Wantlist_Add Wantlist_Remove Wantlist_RemoveType Wantlist_Contains
  by unfold_locales (auto simp: wantlist_ops Let_def split: option.splits)

lemma members_Wantlist: "wl.members w = dom w"
  by (auto simp: wl.members_def Wantlist_Contains_def)

section \<open>Absorbing another wantlist\<close>

text \<open>The entry that survives when a want is in both lists.\<close>

definition stronger :: "Entry option \<Rightarrow> Entry option \<Rightarrow> Entry option" where
  "stronger old new =
     (case (old, new) of
        (None, _) \<Rightarrow> new
      | (Some e, None) \<Rightarrow> Some e
      | (Some e, Some f) \<Rightarrow>
          if e_WantType e = Message_Wantlist_Block \<or> e_WantType f = Message_Wantlist_Have
          then Some e else Some f)"

lemma Add_stronger:
  "snd (Wantlist_Add (e_Want e) (e_Priority e) (e_WantType e) w) d =
     (if d = e_Want e then stronger (w d) (Some e) else w d)"
  by (cases e) (auto simp: Wantlist_Add_def stronger_def Let_def split: option.splits)

lemma Absorb_step:
  assumes "distinct (map e_Want es)"
  shows "fold (\<lambda>e w. snd (Wantlist_Add (e_Want e) (e_Priority e) (e_WantType e) w)) es w d =
    stronger (w d) (map_of (map (\<lambda>e. (e_Want e, e)) es) d)"
  using assms
proof (induction es arbitrary: w)
  case Nil
  then show ?case by (simp add: stronger_def split: option.splits)
next
  case (Cons e es)
  then have "map_of (map (\<lambda>e. (e_Want e, e)) es) (e_Want e) = None"
    by (auto simp: map_of_eq_None_iff)
  with Cons show ?case
    by (auto simp: Add_stronger stronger_def split: option.splits)
qed

lemma Entries_keys:
  assumes "iterates it" and "Wantlist_wf w"
  shows "map e_Want (Wantlist_Entries it w) = it (dom w)"
proof -
  have "map (e_Want \<circ> (the \<circ> w)) (it (dom w)) = it (dom w)"
    by (rule map_idI) (use assms in \<open>auto simp: Wantlist_wf_def\<close>)
  with assms show ?thesis by (simp add: Wantlist_Entries_def map_values_eq Wantlist_wf_def)
qed

lemma map_of_Entries:
  assumes "iterates it" and "Wantlist_wf w"
  shows "map_of (map (\<lambda>e. (e_Want e, e)) (Wantlist_Entries it w)) = w"
proof
  fix c
  have d: "distinct (map fst (map (\<lambda>e. (e_Want e, e)) (Wantlist_Entries it w)))"
    using assms Entries_keys [OF assms] by (simp add: comp_def Wantlist_wf_def)
  have s: "set (Wantlist_Entries it w) = ran w"
    using assms by (simp add: Wantlist_Entries_def Wantlist_wf_def)
  show "map_of (map (\<lambda>e. (e_Want e, e)) (Wantlist_Entries it w)) c = w c"
  proof (cases "w c")
    case None
    with assms s show ?thesis by (auto simp: map_of_eq_None_iff Wantlist_wf_def ran_def)
  next
    case (Some e)
    with assms s have "(c, e) \<in> set (map (\<lambda>e. (e_Want e, e)) (Wantlist_Entries it w))"
      by (auto simp: Wantlist_wf_def image_iff intro: ranI)
    with d Some show ?thesis by simp
  qed
qed

lemma Absorb_pointwise:
  assumes "iterates it" and "Wantlist_wf other"
  shows "Wantlist_Absorb it other w c = stronger (w c) (other c)"
proof -
  have "distinct (map e_Want (Wantlist_Entries it other))"
    using assms by (simp add: Entries_keys Wantlist_wf_def)
  then show ?thesis
    by (simp add: Wantlist_Absorb_def Absorb_step map_of_Entries [OF assms])
qed

section \<open>Sorting\<close>

lemma set_SortEntries [simp]: "set (SortEntries es) = set es"
  by (simp add: SortEntries_def)

lemma mset_SortEntries [simp]: "mset (SortEntries es) = mset es"
  by (simp add: SortEntries_def)

lemma sorted_SortEntries: "sorted_wrt (\<lambda>e f. \<not> entry_Less f e) (SortEntries es)"
proof -
  have "sorted (map (\<lambda>e. - sint (e_Priority e)) (SortEntries es))"
    by (simp add: SortEntries_def)
  then show ?thesis
    by (auto simp: sorted_map entry_Less_def elim!: sorted_wrt_mono_rel [rotated])
qed

end
