(* ===== verification/MultiIndex.thy ===== *)
theory MultiIndex
  imports Prelude
begin

text \<open>
  The contract of a reverse index: keys map to the set of members filed under them, and a key is
  known exactly while it has a member. The peer want manager's \<^verbatim>\<open>wantPeers\<close>, the engine's
  \<^verbatim>\<open>peerLedger\<close> and the peer manager's \<^verbatim>\<open>peerSessions\<close> are such indexes; each is an interpretation
  of \<open>multi_index\<close> in the theory of its component.
\<close>

locale multi_index =
  fixes add :: "'k \<Rightarrow> 'p \<Rightarrow> 'i \<Rightarrow> 'i"
    and remove :: "'k \<Rightarrow> 'p \<Rightarrow> 'i \<Rightarrow> 'i"
    and members :: "'i \<Rightarrow> 'k \<Rightarrow> 'p set"
    and known :: "'i \<Rightarrow> 'k \<Rightarrow> bool"
    and invar :: "'i \<Rightarrow> bool"
  assumes members_add:
      "members (add k p i) j = (if j = k then insert p (members i j) else members i j)"
    and members_remove:
      "members (remove k p i) j = (if j = k then members i j - {p} else members i j)"
    and known_iff: "invar i \<Longrightarrow> known i k \<longleftrightarrow> members i k \<noteq> {}"
    and invar_add: "invar i \<Longrightarrow> invar (add k p i)"
    and invar_remove: "invar i \<Longrightarrow> invar (remove k p i)"
begin

lemma members_add_list:
  "members (fold (\<lambda>k. add k p) ks i) j = (if j \<in> set ks then insert p (members i j) else members i j)"
  by (induction ks arbitrary: i) (auto simp: members_add)

lemma members_remove_list:
  "members (fold (\<lambda>k. remove k p) ks i) j = (if j \<in> set ks then members i j - {p} else members i j)"
  by (induction ks arbitrary: i) (auto simp: members_remove)

lemma invar_add_list: "invar i \<Longrightarrow> invar (fold (\<lambda>k. add k p) ks i)"
  by (induction ks arbitrary: i) (auto intro: invar_add)

lemma invar_remove_list: "invar i \<Longrightarrow> invar (fold (\<lambda>k. remove k p) ks i)"
  by (induction ks arbitrary: i) (auto intro: invar_remove)

lemma known_add: "invar i \<Longrightarrow> known (add k p i) j \<longleftrightarrow> j = k \<or> known i j"
  by (auto simp: known_iff invar_add members_add)

lemma known_remove:
  "invar i \<Longrightarrow> known (remove k p i) j \<longleftrightarrow> known i j \<and> (j = k \<longrightarrow> \<not> members i k \<subseteq> {p})"
  by (auto simp: known_iff invar_remove members_remove)

lemma remove_add: "p \<notin> members i k \<Longrightarrow> members (remove k p (add k p i)) j = members i j"
  by (auto simp: members_add members_remove)

end

end
