(* ===== verification/PeerWantManager.thy ===== *)
theory PeerWantManager
  imports Wantlist MultiIndex
begin

text \<open>
  \<^verbatim>\<open>internal/peermanager/peerwantmanager.go\<close>: which want-haves and want-blocks have been sent to
  each peer, the reverse index from wants to peers, the broadcast wants, and the two gauges. The
  calls the manager makes on a peer's \<^verbatim>\<open>PeerQueue\<close> are returned, in order, as values of
  \<open>pq_call\<close> addressed to the peer whose queue was registered by \<open>addPeer\<close>.
\<close>

section \<open>State\<close>

datatype pq_call =
    AddBroadcastWantHaves "Want list"
  | AddWants "Want list" "Want list"
  | AddCancels "Want list"

record peerWant =
  wantBlocks :: wset
  wantHaves :: wset

record peerWantManager =
  peerWants :: "peer \<rightharpoonup> peerWant"
  wantPeers :: "Want \<rightharpoonup> peer set"
  broadcastWants :: wset
  wantGauge :: int
  wantBlockGauge :: int

record wantPeerCnts =
  cnt_wantBlock :: nat
  cnt_wantHave :: nat
  cnt_isBroadcast :: bool

definition newPeerWantManager :: peerWantManager where
  "newPeerWantManager =
     \<lparr>peerWants = Map.empty, wantPeers = Map.empty, broadcastWants = NewSet,
      wantGauge = 0, wantBlockGauge = 0\<rparr>"

section \<open>Operations\<close>

definition cnts_wanted :: "wantPeerCnts \<Rightarrow> bool" where
  "cnts_wanted c \<longleftrightarrow> cnt_wantBlock c > 0 \<or> cnt_wantHave c > 0 \<or> cnt_isBroadcast c"

definition count_peer :: "Want \<Rightarrow> peerWantManager \<Rightarrow> peer \<Rightarrow> nat \<times> nat \<Rightarrow> nat \<times> nat" where
  "count_peer w pwm p cnt =
     (case peerWants pwm p of
        None \<Rightarrow> cnt
      | Some pws \<Rightarrow>
          if Set_Has (wantBlocks pws) w then (fst cnt + 1, snd cnt)
          else if Set_Has (wantHaves pws) w then (fst cnt, snd cnt + 1)
          else cnt)"

definition wantPeerCounts ::
  "(peer set \<Rightarrow> peer list) \<Rightarrow> Want \<Rightarrow> peerWantManager \<Rightarrow> wantPeerCnts" where
  "wantPeerCounts itp w pwm =
     (let cnt = fold (count_peer w pwm) (itp (lookup_set (wantPeers pwm) w)) (0, 0)
      in \<lparr>cnt_wantBlock = fst cnt, cnt_wantHave = snd cnt,
          cnt_isBroadcast = Set_Has (broadcastWants pwm) w\<rparr>)"

definition reverseIndexAdd :: "Want \<Rightarrow> peer \<Rightarrow> peerWantManager \<Rightarrow> bool \<times> peerWantManager" where
  "reverseIndexAdd w p pwm =
     (case wantPeers pwm w of
        None \<Rightarrow> (True, pwm\<lparr>wantPeers := (wantPeers pwm)(w \<mapsto> {p})\<rparr>)
      | Some ps \<Rightarrow> (False, pwm\<lparr>wantPeers := (wantPeers pwm)(w \<mapsto> insert p ps)\<rparr>))"

definition reverseIndexRemove :: "Want \<Rightarrow> peer \<Rightarrow> peerWantManager \<Rightarrow> peerWantManager" where
  "reverseIndexRemove w p pwm =
     (case wantPeers pwm w of
        None \<Rightarrow> pwm
      | Some ps \<Rightarrow>
          if ps - {p} = {} then pwm\<lparr>wantPeers := (wantPeers pwm)(w := None)\<rparr>
          else pwm\<lparr>wantPeers := (wantPeers pwm)(w \<mapsto> ps - {p})\<rparr>)"

definition addPeer ::
  "(Want set \<Rightarrow> Want list) \<Rightarrow> peer \<Rightarrow> peerWantManager \<Rightarrow> peerWantManager \<times> (peer \<times> pq_call) list" where
  "addPeer itw p pwm =
     (case peerWants pwm p of
        Some _ \<Rightarrow> (pwm, [])
      | None \<Rightarrow>
          (pwm\<lparr>peerWants := (peerWants pwm)(p \<mapsto> \<lparr>wantBlocks = NewSet, wantHaves = NewSet\<rparr>)\<rparr>,
           if Set_Len (broadcastWants pwm) > 0
           then [(p, AddBroadcastWantHaves (Set_Keys itw (broadcastWants pwm)))] else []))"

text \<open>The two clean-up loops of \<^verbatim>\<open>removePeer\<close>: bodies of the \<^verbatim>\<open>ForEach\<close> callbacks.\<close>

definition removePeer_block ::
  "(peer set \<Rightarrow> peer list) \<Rightarrow> peer \<Rightarrow> Want \<Rightarrow> peerWantManager \<Rightarrow> peerWantManager" where
  "removePeer_block itp p w pwm =
     (let pwm1 = reverseIndexRemove w p pwm;
          cnts = wantPeerCounts itp w pwm1;
          pwm2 = (if cnt_wantBlock cnts = 0
                  then pwm1\<lparr>wantBlockGauge := wantBlockGauge pwm1 - 1\<rparr> else pwm1)
      in if \<not> cnts_wanted cnts then pwm2\<lparr>wantGauge := wantGauge pwm2 - 1\<rparr> else pwm2)"

definition removePeer_have ::
  "(peer set \<Rightarrow> peer list) \<Rightarrow> peer \<Rightarrow> Want \<Rightarrow> peerWantManager \<Rightarrow> peerWantManager" where
  "removePeer_have itp p w pwm =
     (let pwm1 = reverseIndexRemove w p pwm;
          cnts = wantPeerCounts itp w pwm1
      in if \<not> cnts_wanted cnts then pwm1\<lparr>wantGauge := wantGauge pwm1 - 1\<rparr> else pwm1)"

definition removePeer ::
  "(Want set \<Rightarrow> Want list) \<Rightarrow> (peer set \<Rightarrow> peer list) \<Rightarrow> peer \<Rightarrow> peerWantManager \<Rightarrow> peerWantManager" where
  "removePeer itw itp p pwm =
     (case peerWants pwm p of
        None \<Rightarrow> pwm
      | Some pws \<Rightarrow>
          let pwm1 = snd (Set_ForEach itw (\<lambda>w s. (None :: unit option, removePeer_block itp p w s))
                            (wantBlocks pws) pwm);
              pwm2 = snd (Set_ForEach itw (\<lambda>w s. (None :: unit option, removePeer_have itp p w s))
                            (wantHaves pws) pwm1)
          in pwm2\<lparr>peerWants := (peerWants pwm2)(p := None)\<rparr>)"

definition broadcast_want ::
  "Want \<Rightarrow> peerWantManager \<times> Want list \<Rightarrow> peerWantManager \<times> Want list" where
  "broadcast_want w st =
     (case st of (pwm, unsent) \<Rightarrow>
        if Set_Has (broadcastWants pwm) w then (pwm, unsent)
        else let pwm1 = pwm\<lparr>broadcastWants := Set_Add w (broadcastWants pwm)\<rparr>
             in (if wantPeers pwm1 w = None then pwm1\<lparr>wantGauge := wantGauge pwm1 + 1\<rparr> else pwm1,
                 unsent @ [w]))"

definition broadcast_unsent :: "peerWantManager \<Rightarrow> Want list \<Rightarrow> peer \<Rightarrow> Want list" where
  "broadcast_unsent pwm unsent p =
     (case peerWants pwm p of
        None \<Rightarrow> []
      | Some pws \<Rightarrow>
          filter (\<lambda>w. \<not> Set_Has (wantBlocks pws) w \<and> \<not> Set_Has (wantHaves pws) w) unsent)"

definition broadcastWantHaves ::
  "(peer set \<Rightarrow> peer list) \<Rightarrow> Want list \<Rightarrow> peerWantManager
     \<Rightarrow> peerWantManager \<times> (peer \<times> pq_call) list" where
  "broadcastWantHaves itp whs pwm =
     (case fold broadcast_want whs (pwm, []) of (pwm1, unsent) \<Rightarrow>
        if unsent = [] then (pwm1, [])
        else (pwm1,
              [(p, AddBroadcastWantHaves (broadcast_unsent pwm1 unsent p)).
                 p \<leftarrow> itp (dom (peerWants pwm1)), broadcast_unsent pwm1 unsent p \<noteq> []]))"

text \<open>Bodies of the two loops of \<^verbatim>\<open>sendWants\<close>; the pointer \<^verbatim>\<open>pws\<close> is the entry of \<open>p\<close>.\<close>

definition sendWants_block ::
  "(peer set \<Rightarrow> peer list) \<Rightarrow> peer \<Rightarrow> Want \<Rightarrow> peerWantManager \<times> Want list \<Rightarrow> peerWantManager \<times> Want list" where
  "sendWants_block itp p c st =
     (case st of (pwm, flt) \<Rightarrow>
        case peerWants pwm p of
          None \<Rightarrow> st
        | Some pws \<Rightarrow>
            if Set_Has (wantBlocks pws) c then st
            else
              let cnts = wantPeerCounts itp c pwm;
                  pwm1 = (if cnt_wantBlock cnts = 0
                          then pwm\<lparr>wantBlockGauge := wantBlockGauge pwm + 1\<rparr> else pwm);
                  pwm2 = (if \<not> cnts_wanted cnts
                          then pwm1\<lparr>wantGauge := wantGauge pwm1 + 1\<rparr> else pwm1);
                  pws1 = pws\<lparr>wantHaves := Set_Remove c (wantHaves pws)\<rparr>;
                  pws2 = pws1\<lparr>wantBlocks := Set_Add c (wantBlocks pws1)\<rparr>;
                  pwm3 = pwm2\<lparr>peerWants := (peerWants pwm2)(p \<mapsto> pws2)\<rparr>
              in (snd (reverseIndexAdd c p pwm3), flt @ [c]))"

definition sendWants_have ::
  "(peer set \<Rightarrow> peer list) \<Rightarrow> peer \<Rightarrow> Want \<Rightarrow> peerWantManager \<times> Want list \<Rightarrow> peerWantManager \<times> Want list" where
  "sendWants_have itp p c st =
     (case st of (pwm, flt) \<Rightarrow>
        if Set_Has (broadcastWants pwm) c then st
        else
        case peerWants pwm p of
          None \<Rightarrow> st
        | Some pws \<Rightarrow>
            if \<not> Set_Has (wantBlocks pws) c \<and> \<not> Set_Has (wantHaves pws) c
            then
              let cnts = wantPeerCounts itp c pwm;
                  pwm1 = (if \<not> cnts_wanted cnts
                          then pwm\<lparr>wantGauge := wantGauge pwm + 1\<rparr> else pwm);
                  pws1 = pws\<lparr>wantHaves := Set_Add c (wantHaves pws)\<rparr>;
                  pwm2 = pwm1\<lparr>peerWants := (peerWants pwm1)(p \<mapsto> pws1)\<rparr>
              in (snd (reverseIndexAdd c p pwm2), flt @ [c])
            else st)"

definition sendWants ::
  "(peer set \<Rightarrow> peer list) \<Rightarrow> peer \<Rightarrow> Want list \<Rightarrow> Want list \<Rightarrow> peerWantManager
     \<Rightarrow> peerWantManager \<times> (peer \<times> pq_call) list" where
  "sendWants itp p wbs whs pwm =
     (case peerWants pwm p of
        None \<Rightarrow> (pwm, [])
      | Some _ \<Rightarrow>
          let (pwm1, fltWantBlks) = fold (sendWants_block itp p) wbs (pwm, []);
              (pwm2, fltWantHvs) = fold (sendWants_have itp p) whs (pwm1, [])
          in (pwm2, [(p, AddWants fltWantBlks fltWantHvs)]))"

text \<open>The closure \<^verbatim>\<open>send\<close> of \<^verbatim>\<open>sendCancels\<close>: its inner loop and its body.\<close>

definition cancel_want ::
  "wset \<Rightarrow> Want \<Rightarrow> peerWant \<times> Want list \<Rightarrow> peerWant \<times> Want list" where
  "cancel_want bcst c st =
     (case st of (pws, toCancel) \<Rightarrow>
        if \<not> Set_Has (wantBlocks pws) c \<and> \<not> Set_Has (wantHaves pws) c then st
        else (pws\<lparr>wantBlocks := Set_Remove c (wantBlocks pws),
                  wantHaves := Set_Remove c (wantHaves pws)\<rparr>,
              if \<not> Set_Has bcst c then toCancel @ [c] else toCancel))"

definition cancel_send ::
  "Want list \<Rightarrow> Want list \<Rightarrow> peer
     \<Rightarrow> peerWantManager \<times> (peer \<times> pq_call) list \<Rightarrow> peerWantManager \<times> (peer \<times> pq_call) list" where
  "cancel_send cancelKs broadcastCancels p st =
     (case st of (pwm, calls) \<Rightarrow>
        case peerWants pwm p of
          None \<Rightarrow> st
        | Some pws \<Rightarrow>
            let (pws1, toCancel) =
                  fold (cancel_want (broadcastWants pwm)) cancelKs (pws, broadcastCancels)
            in (pwm\<lparr>peerWants := (peerWants pwm)(p \<mapsto> pws1)\<rparr>,
                if toCancel \<noteq> [] then calls @ [(p, AddCancels toCancel)] else calls))"

definition cancel_gauges ::
  "(Want \<rightharpoonup> wantPeerCnts) \<Rightarrow> Want \<Rightarrow> peerWantManager \<Rightarrow> peerWantManager" where
  "cancel_gauges peerCounts c pwm =
     (case peerCounts c of
        None \<Rightarrow> pwm
      | Some cnts \<Rightarrow>
          let pwm1 = (if cnt_wantBlock cnts > 0
                      then pwm\<lparr>wantBlockGauge := wantBlockGauge pwm - 1\<rparr> else pwm)
          in if cnts_wanted cnts then pwm1\<lparr>wantGauge := wantGauge pwm1 - 1\<rparr> else pwm1)"

definition sendCancels ::
  "(peer set \<Rightarrow> peer list) \<Rightarrow> Want list \<Rightarrow> peerWantManager
     \<Rightarrow> peerWantManager \<times> (peer \<times> pq_call) list" where
  "sendCancels itp cancelKs pwm =
     (if cancelKs = [] then (pwm, [])
      else
        let peerCounts = fold (\<lambda>c m. m(c \<mapsto> wantPeerCounts itp c pwm)) cancelKs Map.empty;
            broadcastCancels = filter (Set_Has (broadcastWants pwm)) cancelKs;
            targets = (if broadcastCancels \<noteq> [] then itp (dom (peerWants pwm))
                       else itp (\<Union>c \<in> set cancelKs. lookup_set (wantPeers pwm) c));
            (pwm1, calls) = fold (cancel_send cancelKs broadcastCancels) targets (pwm, []);
            pwm2 = fold (cancel_gauges peerCounts) cancelKs pwm1;
            pwm3 = pwm2\<lparr>broadcastWants := fold Set_Remove broadcastCancels (broadcastWants pwm2)\<rparr>;
            pwm4 = pwm3\<lparr>wantPeers := fold (\<lambda>c m. m(c := None)) cancelKs (wantPeers pwm3)\<rparr>
        in (pwm4, calls))"

text \<open>The queries.\<close>

definition getWantBlocks ::
  "(Want set \<Rightarrow> Want list) \<Rightarrow> (peer set \<Rightarrow> peer list) \<Rightarrow> peerWantManager \<Rightarrow> Want list" where
  "getWantBlocks itw itp pwm =
     Set_Keys itw (fold (\<lambda>pws res. snd (Set_ForEach itw (\<lambda>w res. (None :: unit option, Set_Add w res))
                                          (wantBlocks pws) res))
                     (map_values itp (peerWants pwm)) NewSet)"

definition getWantHaves ::
  "(Want set \<Rightarrow> Want list) \<Rightarrow> (peer set \<Rightarrow> peer list) \<Rightarrow> peerWantManager \<Rightarrow> Want list" where
  "getWantHaves itw itp pwm =
     (let add = (\<lambda>s res. snd (Set_ForEach itw (\<lambda>w res. (None :: unit option, Set_Add w res)) s res));
          res = fold (\<lambda>pws res. add (wantHaves pws) res) (map_values itp (peerWants pwm)) NewSet
      in Set_Keys itw (add (broadcastWants pwm) res))"

definition getWants ::
  "(Want set \<Rightarrow> Want list) \<Rightarrow> peerWantManager \<Rightarrow> Want list" where
  "getWants itw pwm =
     Set_Keys itw (broadcastWants pwm) @
     filter (\<lambda>w. \<not> Set_Has (broadcastWants pwm) w) (itw (dom (wantPeers pwm)))"

section \<open>What has been sent to whom\<close>

definition blocks_to :: "peerWantManager \<Rightarrow> peer \<Rightarrow> Want set" where
  "blocks_to pwm p = (case peerWants pwm p of None \<Rightarrow> {} | Some pws \<Rightarrow> wantBlocks pws)"

definition haves_to :: "peerWantManager \<Rightarrow> peer \<Rightarrow> Want set" where
  "haves_to pwm p = (case peerWants pwm p of None \<Rightarrow> {} | Some pws \<Rightarrow> wantHaves pws)"

abbreviation sent_to :: "peerWantManager \<Rightarrow> peer \<Rightarrow> Want set" where
  "sent_to pwm p \<equiv> blocks_to pwm p \<union> haves_to pwm p"

definition all_blocks :: "peerWantManager \<Rightarrow> Want set" where
  "all_blocks pwm = {w. \<exists>p. w \<in> blocks_to pwm p}"

definition all_wants :: "peerWantManager \<Rightarrow> Want set" where
  "all_wants pwm = broadcastWants pwm \<union> {w. \<exists>p. w \<in> sent_to pwm p}"

lemma to_upd [simp]:
  "blocks_to (pwm\<lparr>peerWants := m(p \<mapsto> pws)\<rparr>) q =
     (if q = p then wantBlocks pws else blocks_to (pwm\<lparr>peerWants := m\<rparr>) q)"
  "haves_to (pwm\<lparr>peerWants := m(p \<mapsto> pws)\<rparr>) q =
     (if q = p then wantHaves pws else haves_to (pwm\<lparr>peerWants := m\<rparr>) q)"
  "blocks_to (pwm\<lparr>peerWants := m(p := None)\<rparr>) q =
     (if q = p then {} else blocks_to (pwm\<lparr>peerWants := m\<rparr>) q)"
  "haves_to (pwm\<lparr>peerWants := m(p := None)\<rparr>) q =
     (if q = p then {} else haves_to (pwm\<lparr>peerWants := m\<rparr>) q)"
  by (simp_all add: blocks_to_def haves_to_def)

lemma to_frame [simp]:
  "blocks_to (pwm\<lparr>wantPeers := x\<rparr>) = blocks_to pwm"
  "blocks_to (pwm\<lparr>broadcastWants := b\<rparr>) = blocks_to pwm"
  "blocks_to (pwm\<lparr>wantGauge := g\<rparr>) = blocks_to pwm"
  "blocks_to (pwm\<lparr>wantBlockGauge := g\<rparr>) = blocks_to pwm"
  "haves_to (pwm\<lparr>wantPeers := x\<rparr>) = haves_to pwm"
  "haves_to (pwm\<lparr>broadcastWants := b\<rparr>) = haves_to pwm"
  "haves_to (pwm\<lparr>wantGauge := g\<rparr>) = haves_to pwm"
  "haves_to (pwm\<lparr>wantBlockGauge := g\<rparr>) = haves_to pwm"
  by (auto simp: blocks_to_def haves_to_def fun_eq_iff)

lemma to_same [simp]:
  "blocks_to (pwm\<lparr>peerWants := peerWants pwm\<rparr>) = blocks_to pwm"
  "haves_to (pwm\<lparr>peerWants := peerWants pwm\<rparr>) = haves_to pwm"
  by simp_all

lemma to_cong:
  "peerWants s = peerWants t \<Longrightarrow> blocks_to s = blocks_to t"
  "peerWants s = peerWants t \<Longrightarrow> haves_to s = haves_to t"
  by (auto simp: blocks_to_def haves_to_def fun_eq_iff)

lemma to_Some:
  "peerWants pwm p = Some pws \<Longrightarrow> blocks_to pwm p = wantBlocks pws"
  "peerWants pwm p = Some pws \<Longrightarrow> haves_to pwm p = wantHaves pws"
  by (simp_all add: blocks_to_def haves_to_def)

lemma to_None:
  "peerWants pwm p = None \<Longrightarrow> blocks_to pwm p = {}"
  "peerWants pwm p = None \<Longrightarrow> haves_to pwm p = {}"
  by (simp_all add: blocks_to_def haves_to_def)

section \<open>The reverse index\<close>

definition index_ok :: "peerWantManager \<Rightarrow> bool" where
  "index_ok pwm \<longleftrightarrow> (\<forall>w. wantPeers pwm w \<noteq> Some {})"

lemma reverseIndex_frame [simp]:
  "peerWants (snd (reverseIndexAdd w p pwm)) = peerWants pwm"
  "broadcastWants (snd (reverseIndexAdd w p pwm)) = broadcastWants pwm"
  "wantGauge (snd (reverseIndexAdd w p pwm)) = wantGauge pwm"
  "wantBlockGauge (snd (reverseIndexAdd w p pwm)) = wantBlockGauge pwm"
  "peerWants (reverseIndexRemove w p pwm) = peerWants pwm"
  "broadcastWants (reverseIndexRemove w p pwm) = broadcastWants pwm"
  "wantGauge (reverseIndexRemove w p pwm) = wantGauge pwm"
  "wantBlockGauge (reverseIndexRemove w p pwm) = wantBlockGauge pwm"
  by (auto simp: reverseIndexAdd_def reverseIndexRemove_def split: option.splits)

lemma reverseIndex_to [simp]:
  "blocks_to (snd (reverseIndexAdd w p pwm)) = blocks_to pwm"
  "haves_to (snd (reverseIndexAdd w p pwm)) = haves_to pwm"
  "blocks_to (reverseIndexRemove w p pwm) = blocks_to pwm"
  "haves_to (reverseIndexRemove w p pwm) = haves_to pwm"
  by (rule to_cong; simp)+

interpretation pwx: multi_index "\<lambda>w p pwm. snd (reverseIndexAdd w p pwm)" reverseIndexRemove
  "\<lambda>pwm. lookup_set (wantPeers pwm)" "\<lambda>pwm w. wantPeers pwm w \<noteq> None" index_ok
proof unfold_locales
  fix k i
  show "index_ok i \<Longrightarrow> (wantPeers i k \<noteq> None) = (lookup_set (wantPeers i) k \<noteq> {})"
    by (auto simp: index_ok_def lookup_set_def split: option.splits)
qed (auto simp: reverseIndexAdd_def reverseIndexRemove_def index_ok_def lookup_set_def
       split: option.splits if_splits)

lemmas index_simps [simp] = pwx.members_add pwx.members_remove
lemmas index_invs [inv_intros] = pwx.invar_add pwx.invar_remove

section \<open>Counting\<close>

lemma count_fold:
  "fold (count_peer w pwm) ps (a, b) =
     (a + length (filter (\<lambda>p. w \<in> blocks_to pwm p) ps),
      b + length (filter (\<lambda>p. w \<in> haves_to pwm p - blocks_to pwm p) ps))"
  by (induction ps arbitrary: a b)
    (auto simp: count_peer_def blocks_to_def haves_to_def split: option.splits)

lemma cnt_wantBlock_0:
  assumes "iterates itp" and "finite (lookup_set (wantPeers pwm) w)"
  shows "cnt_wantBlock (wantPeerCounts itp w pwm) = 0 \<longleftrightarrow>
    (\<forall>p \<in> lookup_set (wantPeers pwm) w. w \<notin> blocks_to pwm p)"
  using assms by (simp add: wantPeerCounts_def count_fold filter_empty_conv Let_def)

lemma cnts_wanted_iff:
  assumes "iterates itp" and "finite (lookup_set (wantPeers pwm) w)"
  shows "cnts_wanted (wantPeerCounts itp w pwm) \<longleftrightarrow>
    (\<exists>p \<in> lookup_set (wantPeers pwm) w. w \<in> sent_to pwm p) \<or> w \<in> broadcastWants pwm"
  using assms
  by (auto simp: wantPeerCounts_def cnts_wanted_def count_fold filter_empty_conv Let_def)

section \<open>The invariant\<close>

text \<open>Structure: everything is finite, a want is a want-block or a want-have of a peer but not both,
  and the reverse index is exactly the transpose of what was sent.\<close>

definition pwm_wf :: "peerWantManager \<Rightarrow> bool" where
  "pwm_wf pwm \<longleftrightarrow>
     finite (dom (peerWants pwm)) \<and> finite (broadcastWants pwm) \<and>
     (\<forall>p. finite (sent_to pwm p) \<and> blocks_to pwm p \<inter> haves_to pwm p = {}) \<and>
     index_ok pwm \<and> (\<forall>w. lookup_set (wantPeers pwm) w = {p. w \<in> sent_to pwm p})"

text \<open>The gauges count the distinct wants, respectively the distinct want-blocks, in flight.\<close>

definition pwm_gauges :: "peerWantManager \<Rightarrow> bool" where
  "pwm_gauges pwm \<longleftrightarrow>
     wantGauge pwm = int (card (all_wants pwm)) \<and> wantBlockGauge pwm = int (card (all_blocks pwm))"

definition pwm_inv :: "peerWantManager \<Rightarrow> bool" where
  "pwm_inv pwm \<longleftrightarrow> pwm_wf pwm \<and> pwm_gauges pwm"

lemma pwm_wf_finite_sent: "pwm_wf pwm \<Longrightarrow> finite (\<Union>p. sent_to pwm p)"
proof -
  assume wf: "pwm_wf pwm"
  have "(\<Union>p. sent_to pwm p) = (\<Union>p \<in> dom (peerWants pwm). sent_to pwm p)"
    by (fastforce simp: blocks_to_def haves_to_def split: option.splits)
  with wf show ?thesis by (simp add: pwm_wf_def)
qed

lemma pwm_wf_finite [simp]:
  assumes "pwm_wf pwm"
  shows "finite (all_blocks pwm)" and "finite (all_wants pwm)"
    and "finite (lookup_set (wantPeers pwm) w)"
proof -
  have eq: "{w. \<exists>p. w \<in> sent_to pwm p} = (\<Union>p. sent_to pwm p)" by auto
  have fin: "finite (\<Union>p. sent_to pwm p)" by (rule pwm_wf_finite_sent [OF assms])
  show "finite (all_wants pwm)"
    using assms fin unfolding all_wants_def eq by (simp add: pwm_wf_def)
  show "finite (all_blocks pwm)"
    by (rule finite_subset [OF _ fin]) (auto simp: all_blocks_def)
  have "lookup_set (wantPeers pwm) w \<subseteq> dom (peerWants pwm)"
    using assms by (auto simp: pwm_wf_def blocks_to_def haves_to_def split: option.splits)
  then show "finite (lookup_set (wantPeers pwm) w)"
    using assms by (auto simp: pwm_wf_def intro: finite_subset)
qed

lemma pwm_wf_cnts:
  assumes "iterates itp" and "pwm_wf pwm"
  shows "cnt_wantBlock (wantPeerCounts itp w pwm) = 0 \<longleftrightarrow> w \<notin> all_blocks pwm"
    and "cnts_wanted (wantPeerCounts itp w pwm) \<longleftrightarrow> w \<in> all_wants pwm"
proof -
  have fin: "finite (lookup_set (wantPeers pwm) w)" using assms by simp
  have mem: "lookup_set (wantPeers pwm) w = {p. w \<in> sent_to pwm p}"
    using assms by (simp add: pwm_wf_def)
  show "cnt_wantBlock (wantPeerCounts itp w pwm) = 0 \<longleftrightarrow> w \<notin> all_blocks pwm"
    unfolding cnt_wantBlock_0 [OF assms(1) fin] mem by (auto simp: all_blocks_def)
  show "cnts_wanted (wantPeerCounts itp w pwm) \<longleftrightarrow> w \<in> all_wants pwm"
    unfolding cnts_wanted_iff [OF assms(1) fin] mem by (auto simp: all_wants_def)
qed

lemma pwm_wf_known: "pwm_wf pwm \<Longrightarrow> wantPeers pwm w = None \<longleftrightarrow> (\<forall>p. w \<notin> sent_to pwm p)"
  using pwx.known_iff [of pwm w] by (auto simp: pwm_wf_def)

lemma pwm_inv_new: "pwm_inv newPeerWantManager"
  by (auto simp: pwm_inv_def pwm_wf_def pwm_gauges_def newPeerWantManager_def blocks_to_def
      haves_to_def all_wants_def all_blocks_def index_ok_def)

section \<open>Connecting a peer\<close>

lemma addPeer_to [simp]:
  "blocks_to (fst (addPeer itw p pwm)) = blocks_to pwm"
  "haves_to (fst (addPeer itw p pwm)) = haves_to pwm"
  by (auto simp: addPeer_def fun_eq_iff to_None split: option.splits)

lemma addPeer_frame [simp]:
  "broadcastWants (fst (addPeer itw p pwm)) = broadcastWants pwm"
  "wantPeers (fst (addPeer itw p pwm)) = wantPeers pwm"
  "wantGauge (fst (addPeer itw p pwm)) = wantGauge pwm"
  "wantBlockGauge (fst (addPeer itw p pwm)) = wantBlockGauge pwm"
  "dom (peerWants (fst (addPeer itw p pwm))) = insert p (dom (peerWants pwm))"
  by (auto simp: addPeer_def split: option.splits)

lemma addPeer_inv [inv_intros]: "pwm_inv pwm \<Longrightarrow> pwm_inv (fst (addPeer itw p pwm))"
  by (simp add: pwm_inv_def pwm_wf_def pwm_gauges_def all_wants_def all_blocks_def index_ok_def)

section \<open>Sending wants\<close>

text \<open>What one new want-block changes.\<close>

lemma sendWants_block_effect:
  assumes it: "iterates itp" and wf: "pwm_wf pwm" and p: "peerWants pwm p \<noteq> None"
    and new: "c \<notin> blocks_to pwm p"
    and s: "s = fst (sendWants_block itp p c (pwm, flt))"
  shows "blocks_to s = (blocks_to pwm)(p := insert c (blocks_to pwm p))"
    and "haves_to s = (haves_to pwm)(p := haves_to pwm p - {c})"
    and "broadcastWants s = broadcastWants pwm"
    and "dom (peerWants s) = dom (peerWants pwm)"
    and "lookup_set (wantPeers s) w =
           (if w = c then insert p (lookup_set (wantPeers pwm) w) else lookup_set (wantPeers pwm) w)"
    and "index_ok s"
    and "wantGauge s = wantGauge pwm + (if c \<in> all_wants pwm then 0 else 1)"
    and "wantBlockGauge s = wantBlockGauge pwm + (if c \<in> all_blocks pwm then 0 else 1)"
proof -
  note cnts = pwm_wf_cnts [OF it wf, of c]
  have ok: "index_ok pwm" using wf by (simp add: pwm_wf_def)
  from p obtain pws where pws: "peerWants pwm p = Some pws" by auto
  note unf = s sendWants_block_def
  show "blocks_to s = (blocks_to pwm)(p := insert c (blocks_to pwm p))"
    "haves_to s = (haves_to pwm)(p := haves_to pwm p - {c})"
    "broadcastWants s = broadcastWants pwm"
    "dom (peerWants s) = dom (peerWants pwm)"
    "lookup_set (wantPeers s) w =
       (if w = c then insert p (lookup_set (wantPeers pwm) w) else lookup_set (wantPeers pwm) w)"
    "wantGauge s = wantGauge pwm + (if c \<in> all_wants pwm then 0 else 1)"
    "wantBlockGauge s = wantBlockGauge pwm + (if c \<in> all_blocks pwm then 0 else 1)"
    using pws new by (auto simp: unf Let_def to_Some cnts fun_eq_iff)
  show "index_ok s"
    using pws new ok by (auto simp: unf Let_def to_Some intro!: pwx.invar_add) (auto simp: index_ok_def)
qed

text \<open>What one new want-have changes.\<close>

lemma sendWants_have_effect:
  assumes it: "iterates itp" and wf: "pwm_wf pwm" and p: "peerWants pwm p \<noteq> None"
    and new: "c \<notin> sent_to pwm p" "c \<notin> broadcastWants pwm"
    and s: "s = fst (sendWants_have itp p c (pwm, flt))"
  shows "blocks_to s = blocks_to pwm"
    and "haves_to s = (haves_to pwm)(p := insert c (haves_to pwm p))"
    and "broadcastWants s = broadcastWants pwm"
    and "dom (peerWants s) = dom (peerWants pwm)"
    and "lookup_set (wantPeers s) w =
           (if w = c then insert p (lookup_set (wantPeers pwm) w) else lookup_set (wantPeers pwm) w)"
    and "index_ok s"
    and "wantGauge s = wantGauge pwm + (if c \<in> all_wants pwm then 0 else 1)"
    and "wantBlockGauge s = wantBlockGauge pwm"
proof -
  note cnts = pwm_wf_cnts [OF it wf, of c]
  have ok: "index_ok pwm" using wf by (simp add: pwm_wf_def)
  from p obtain pws where pws: "peerWants pwm p = Some pws" by auto
  note unf = s sendWants_have_def
  show "blocks_to s = blocks_to pwm"
    "haves_to s = (haves_to pwm)(p := insert c (haves_to pwm p))"
    "broadcastWants s = broadcastWants pwm"
    "dom (peerWants s) = dom (peerWants pwm)"
    "lookup_set (wantPeers s) w =
       (if w = c then insert p (lookup_set (wantPeers pwm) w) else lookup_set (wantPeers pwm) w)"
    "wantGauge s = wantGauge pwm + (if c \<in> all_wants pwm then 0 else 1)"
    "wantBlockGauge s = wantBlockGauge pwm"
    using pws new by (auto simp: unf Let_def to_Some cnts fun_eq_iff)
  show "index_ok s"
    using pws new ok by (auto simp: unf Let_def to_Some intro!: pwx.invar_add) (auto simp: index_ok_def)
qed

lemma card_insert_gauge: "finite A \<Longrightarrow> int (card (insert c A)) = int (card A) + (if c \<in> A then 0 else 1)"
  by (simp add: insert_absorb)

lemma sendWants_block_inv [inv_intros]:
  assumes it: "iterates itp" and inv: "pwm_inv (fst st)"
  shows "pwm_inv (fst (sendWants_block itp p c st))"
proof (cases "peerWants (fst st) p \<noteq> None \<and> c \<notin> blocks_to (fst st) p")
  case False
  then have "sendWants_block itp p c st = st"
    by (cases st) (auto simp: sendWants_block_def blocks_to_def split: option.splits)
  with inv show ?thesis by simp
next
  case True
  obtain pwm flt where st: "st = (pwm, flt)" by (cases st)
  let ?s = "fst (sendWants_block itp p c (pwm, flt))"
  from inv st have wf: "pwm_wf pwm" and g: "pwm_gauges pwm" by (simp_all add: pwm_inv_def)
  from True st have "peerWants pwm p \<noteq> None" and "c \<notin> blocks_to pwm p" by auto
  note eff = sendWants_block_effect [OF it wf this refl, of flt]
  have "all_blocks ?s = insert c (all_blocks pwm)" "all_wants ?s = insert c (all_wants pwm)"
    by (auto simp: all_blocks_def all_wants_def eff(1-3) split: if_splits)
  then have "pwm_gauges ?s"
    using g wf by (simp add: pwm_gauges_def eff(7,8) card_insert_gauge)
  moreover have "pwm_wf ?s"
    using wf by (auto simp: pwm_wf_def eff(1-6))
  ultimately show ?thesis by (simp add: pwm_inv_def st)
qed

lemma sendWants_have_inv [inv_intros]:
  assumes it: "iterates itp" and inv: "pwm_inv (fst st)"
  shows "pwm_inv (fst (sendWants_have itp p c st))"
proof (cases "peerWants (fst st) p \<noteq> None \<and> c \<notin> sent_to (fst st) p \<and> c \<notin> broadcastWants (fst st)")
  case False
  then have "sendWants_have itp p c st = st"
    by (cases st) (auto simp: sendWants_have_def blocks_to_def haves_to_def split: option.splits)
  with inv show ?thesis by simp
next
  case True
  obtain pwm flt where st: "st = (pwm, flt)" by (cases st)
  let ?s = "fst (sendWants_have itp p c (pwm, flt))"
  from inv st have wf: "pwm_wf pwm" and g: "pwm_gauges pwm" by (simp_all add: pwm_inv_def)
  from True st have "peerWants pwm p \<noteq> None" and "c \<notin> sent_to pwm p" and "c \<notin> broadcastWants pwm"
    by auto
  note eff = sendWants_have_effect [OF it wf this refl, of flt]
  have "all_blocks ?s = all_blocks pwm" "all_wants ?s = insert c (all_wants pwm)"
    by (auto simp: all_blocks_def all_wants_def eff(1-3) split: if_splits)
  then have "pwm_gauges ?s"
    using g wf by (simp add: pwm_gauges_def eff(7,8) card_insert_gauge)
  moreover have "pwm_wf ?s"
    using wf True st by (auto simp: pwm_wf_def eff(1-6))
  ultimately show ?thesis by (simp add: pwm_inv_def st)
qed

lemma sendWants_inv [inv_intros]:
  assumes "iterates itp" and "pwm_inv pwm"
  shows "pwm_inv (fst (sendWants itp p wbs whs pwm))"
proof -
  have "pwm_inv (fst (fold (sendWants_block itp p) wbs (pwm, [])))"
    by (rule fold_invariant [where P = "\<lambda>st. pwm_inv (fst st)"])
      (use assms in \<open>auto intro: sendWants_block_inv\<close>)
  then have "pwm_inv (fst (fold (sendWants_have itp p) whs
      (fst (fold (sendWants_block itp p) wbs (pwm, [])), [])))"
    by (intro fold_invariant [where P = "\<lambda>st. pwm_inv (fst st)"])
      (use assms in \<open>auto intro: sendWants_have_inv\<close>)
  then show ?thesis
    using assms by (auto simp: sendWants_def split: option.splits prod.splits)
qed

text \<open>What \<open>sendWants\<close> does to the peer's wants and what it passes to the peer's queue.\<close>

lemma sendWants_block_step:
  assumes it: "iterates itp" and wf: "pwm_wf pwm" and p: "peerWants pwm p \<noteq> None"
    and st: "sendWants_block itp p c (pwm, flt) = (s, flt')"
  shows "blocks_to s = (blocks_to pwm)(p := insert c (blocks_to pwm p))"
    and "haves_to s = (haves_to pwm)(p := haves_to pwm p - {c})"
    and "broadcastWants s = broadcastWants pwm"
    and "dom (peerWants s) = dom (peerWants pwm)"
    and "flt' = (if c \<in> blocks_to pwm p then flt else flt @ [c])"
proof -
  have flt: "flt' = (if c \<in> blocks_to pwm p then flt else flt @ [c])"
    using p st by (auto simp: sendWants_block_def Let_def blocks_to_def split: if_splits)
  then show "flt' = (if c \<in> blocks_to pwm p then flt else flt @ [c])" .
  have "blocks_to s = (blocks_to pwm)(p := insert c (blocks_to pwm p)) \<and>
    haves_to s = (haves_to pwm)(p := haves_to pwm p - {c}) \<and>
    broadcastWants s = broadcastWants pwm \<and> dom (peerWants s) = dom (peerWants pwm)"
  proof (cases "c \<in> blocks_to pwm p")
    case True
    then have "s = pwm"
      using p st by (auto simp: sendWants_block_def blocks_to_def)
    moreover have "c \<notin> haves_to pwm p"
      using True wf by (auto simp: pwm_wf_def)
    ultimately show ?thesis using True by (simp add: insert_absorb)
  next
    case False
    have "s = fst (sendWants_block itp p c (pwm, flt))" by (simp add: st)
    from sendWants_block_effect [OF it wf p False this] show ?thesis by simp
  qed
  then show "blocks_to s = (blocks_to pwm)(p := insert c (blocks_to pwm p))"
    "haves_to s = (haves_to pwm)(p := haves_to pwm p - {c})"
    "broadcastWants s = broadcastWants pwm" "dom (peerWants s) = dom (peerWants pwm)"
    by simp_all
qed

lemma sendWants_have_step:
  assumes it: "iterates itp" and wf: "pwm_wf pwm" and p: "peerWants pwm p \<noteq> None"
    and st: "sendWants_have itp p c (pwm, flt) = (s, flt')"
  shows "blocks_to s = blocks_to pwm"
    and "haves_to s = (haves_to pwm)(p := haves_to pwm p \<union> ({c} - blocks_to pwm p - broadcastWants pwm))"
    and "broadcastWants s = broadcastWants pwm"
    and "dom (peerWants s) = dom (peerWants pwm)"
    and "flt' = (if c \<in> sent_to pwm p \<union> broadcastWants pwm then flt else flt @ [c])"
proof -
  have flt: "flt' = (if c \<in> sent_to pwm p \<union> broadcastWants pwm then flt else flt @ [c])"
    using p st
    by (auto simp: sendWants_have_def Let_def blocks_to_def haves_to_def split: if_splits)
  then show "flt' = (if c \<in> sent_to pwm p \<union> broadcastWants pwm then flt else flt @ [c])" .
  have "blocks_to s = blocks_to pwm \<and>
    haves_to s = (haves_to pwm)(p := haves_to pwm p \<union> ({c} - blocks_to pwm p - broadcastWants pwm)) \<and>
    broadcastWants s = broadcastWants pwm \<and> dom (peerWants s) = dom (peerWants pwm)"
  proof (cases "c \<in> sent_to pwm p \<union> broadcastWants pwm")
    case True
    then have "s = pwm"
      using p st by (auto simp: sendWants_have_def blocks_to_def haves_to_def split: if_splits)
    with True show ?thesis by (auto simp: fun_eq_iff)
  next
    case False
    have "s = fst (sendWants_have itp p c (pwm, flt))" by (simp add: st)
    from sendWants_have_effect [OF it wf p _ _ this] False show ?thesis
      by (auto simp: fun_eq_iff)
  qed
  then show "blocks_to s = blocks_to pwm"
    "haves_to s = (haves_to pwm)(p := haves_to pwm p \<union> ({c} - blocks_to pwm p - broadcastWants pwm))"
    "broadcastWants s = broadcastWants pwm" "dom (peerWants s) = dom (peerWants pwm)"
    by simp_all
qed

lemma sendWants_blocks_loop:
  assumes "iterates itp" and "pwm_inv pwm" and "peerWants pwm p \<noteq> None"
    and "fold (sendWants_block itp p) cs (pwm, flt) = (s, flt')"
  shows "blocks_to s = (blocks_to pwm)(p := blocks_to pwm p \<union> set cs) \<and>
    haves_to s = (haves_to pwm)(p := haves_to pwm p - set cs) \<and>
    broadcastWants s = broadcastWants pwm \<and> dom (peerWants s) = dom (peerWants pwm) \<and>
    set flt' = set flt \<union> (set cs - blocks_to pwm p) \<and>
    (distinct flt \<and> set flt \<subseteq> blocks_to pwm p \<longrightarrow> distinct flt') \<and> pwm_inv s"
  using assms
proof (induction cs arbitrary: pwm flt)
  case (Cons c cs)
  obtain s1 flt1 where st: "sendWants_block itp p c (pwm, flt) = (s1, flt1)" by fastforce
  have wf: "pwm_wf pwm" using Cons.prems by (simp add: pwm_inv_def)
  note eff = sendWants_block_step [OF Cons.prems(1) wf Cons.prems(3) st]
  have inv1: "pwm_inv s1" using sendWants_block_inv [of itp "(pwm, flt)" p c] Cons.prems st by simp
  have p1: "peerWants s1 p \<noteq> None" using eff(4) Cons.prems(3) by blast
  have "fold (sendWants_block itp p) cs (s1, flt1) = (s, flt')" using Cons.prems(4) st by simp
  from Cons.IH [OF Cons.prems(1) inv1 p1 this] show ?case
    by (auto simp: eff fun_eq_iff)
qed auto

lemma sendWants_haves_loop:
  assumes "iterates itp" and "pwm_inv pwm" and "peerWants pwm p \<noteq> None"
    and "fold (sendWants_have itp p) cs (pwm, flt) = (s, flt')"
  shows "blocks_to s = blocks_to pwm \<and>
    haves_to s = (haves_to pwm)
      (p := haves_to pwm p \<union> (set cs - blocks_to pwm p - broadcastWants pwm)) \<and>
    broadcastWants s = broadcastWants pwm \<and> dom (peerWants s) = dom (peerWants pwm) \<and>
    set flt' = set flt \<union> (set cs - sent_to pwm p - broadcastWants pwm) \<and>
    (distinct flt \<and> set flt \<subseteq> sent_to pwm p \<longrightarrow> distinct flt') \<and> pwm_inv s"
  using assms
proof (induction cs arbitrary: pwm flt)
  case (Cons c cs)
  obtain s1 flt1 where st: "sendWants_have itp p c (pwm, flt) = (s1, flt1)" by fastforce
  have wf: "pwm_wf pwm" using Cons.prems by (simp add: pwm_inv_def)
  note eff = sendWants_have_step [OF Cons.prems(1) wf Cons.prems(3) st]
  have inv1: "pwm_inv s1" using sendWants_have_inv [of itp "(pwm, flt)" p c] Cons.prems st by simp
  have p1: "peerWants s1 p \<noteq> None" using eff(4) Cons.prems(3) by blast
  have "fold (sendWants_have itp p) cs (s1, flt1) = (s, flt')" using Cons.prems(4) st by simp
  from Cons.IH [OF Cons.prems(1) inv1 p1 this] show ?case
    by (auto simp: eff fun_eq_iff split: if_splits)
qed auto

text \<open>The whole operation on a known peer: exactly one call, with the want-blocks that were not yet
  want-blocks of the peer and the want-haves that are new to it and not broadcast.\<close>

lemma sendWants_effect:
  assumes it: "iterates itp" and inv: "pwm_inv pwm" and p: "peerWants pwm p \<noteq> None"
    and r: "sendWants itp p wbs whs pwm = (s, calls)"
  obtains blks hvs where "calls = [(p, AddWants blks hvs)]"
    and "set blks = set wbs - blocks_to pwm p" and "distinct blks"
    and "set hvs = set whs - set wbs - sent_to pwm p - broadcastWants pwm" and "distinct hvs"
    and "blocks_to s = (blocks_to pwm)(p := blocks_to pwm p \<union> set wbs)"
    and "haves_to s = (haves_to pwm)(p := (haves_to pwm p - set wbs) \<union>
           (set whs - (blocks_to pwm p \<union> set wbs) - broadcastWants pwm))"
    and "broadcastWants s = broadcastWants pwm" and "dom (peerWants s) = dom (peerWants pwm)"
proof -
  obtain s1 blks where l1: "fold (sendWants_block itp p) wbs (pwm, []) = (s1, blks)" by fastforce
  obtain s2 hvs where l2: "fold (sendWants_have itp p) whs (s1, []) = (s2, hvs)" by fastforce
  note e1 = sendWants_blocks_loop [OF it inv p l1]
  then have "pwm_inv s1" and "peerWants s1 p \<noteq> None" using p by auto
  note e2 = sendWants_haves_loop [OF it this l2]
  have "s = s2" and "calls = [(p, AddWants blks hvs)]"
    using p r l1 l2 by (auto simp: sendWants_def)
  with e1 e2 show ?thesis
    by (intro that [of blks hvs]) auto
qed

section \<open>Broadcasting\<close>

lemma broadcast_want_frame [simp]:
  "peerWants (fst (broadcast_want w st)) = peerWants (fst st)"
  "wantPeers (fst (broadcast_want w st)) = wantPeers (fst st)"
  "wantBlockGauge (fst (broadcast_want w st)) = wantBlockGauge (fst st)"
  "broadcastWants (fst (broadcast_want w st)) = insert w (broadcastWants (fst st))"
  "blocks_to (fst (broadcast_want w st)) = blocks_to (fst st)"
  "haves_to (fst (broadcast_want w st)) = haves_to (fst st)"
  by (auto simp: broadcast_want_def Let_def insert_absorb split: prod.splits intro!: to_cong)

lemma broadcast_want_inv [inv_intros]:
  assumes inv: "pwm_inv (fst st)"
  shows "pwm_inv (fst (broadcast_want w st))"
proof -
  let ?s = "fst (broadcast_want w st)"
  from inv have wf: "pwm_wf (fst st)" by (simp add: pwm_inv_def)
  have "wantGauge ?s = wantGauge (fst st) + (if w \<in> all_wants (fst st) then 0 else 1)"
    using pwm_wf_known [OF wf, of w]
    by (auto simp: broadcast_want_def all_wants_def Let_def split: prod.splits)
  moreover have "all_wants ?s = insert w (all_wants (fst st))"
    by (auto simp: all_wants_def)
  moreover have "all_blocks ?s = all_blocks (fst st)" by (simp add: all_blocks_def)
  ultimately have "pwm_gauges ?s"
    using inv wf by (simp add: pwm_inv_def pwm_gauges_def card_insert_gauge)
  moreover have "pwm_wf ?s" using wf by (simp add: pwm_wf_def index_ok_def)
  ultimately show ?thesis by (simp add: pwm_inv_def)
qed

lemma broadcast_loop:
  assumes "fold broadcast_want ws (pwm, unsent) = (s, unsent')"
  shows "peerWants s = peerWants pwm \<and> wantPeers s = wantPeers pwm \<and>
    broadcastWants s = broadcastWants pwm \<union> set ws \<and>
    set unsent' = set unsent \<union> (set ws - broadcastWants pwm) \<and>
    (distinct unsent \<and> set unsent \<subseteq> broadcastWants pwm \<longrightarrow> distinct unsent') \<and>
    (pwm_inv pwm \<longrightarrow> pwm_inv s)"
  using assms
proof (induction ws arbitrary: pwm unsent)
  case (Cons w ws)
  obtain s1 u1 where st: "broadcast_want w (pwm, unsent) = (s1, u1)" by fastforce
  have u1: "u1 = (if w \<in> broadcastWants pwm then unsent else unsent @ [w])"
    using st by (auto simp: broadcast_want_def Let_def split: if_splits)
  have frame: "peerWants s1 = peerWants pwm" "wantPeers s1 = wantPeers pwm"
    "broadcastWants s1 = insert w (broadcastWants pwm)"
    using broadcast_want_frame [of w "(pwm, unsent)"] st by simp_all
  have inv: "pwm_inv pwm \<Longrightarrow> pwm_inv s1"
    using broadcast_want_inv [of "(pwm, unsent)" w] st by simp
  have "fold broadcast_want ws (s1, u1) = (s, unsent')" using Cons.prems st by simp
  from Cons.IH [OF this] show ?case by (auto simp: u1 frame inv split: if_splits)
qed auto

lemma broadcastWantHaves_effect:
  assumes "broadcastWantHaves itp ws pwm = (s, calls)"
  shows "peerWants s = peerWants pwm" and "wantPeers s = wantPeers pwm"
    and "broadcastWants s = broadcastWants pwm \<union> set ws"
    and "pwm_inv pwm \<Longrightarrow> pwm_inv s"
  using assms
  by (auto simp: broadcastWantHaves_def split: prod.splits if_splits dest!: broadcast_loop)

lemma broadcastWantHaves_inv [inv_intros]:
  "pwm_inv pwm \<Longrightarrow> pwm_inv (fst (broadcastWantHaves itp ws pwm))"
  using broadcastWantHaves_effect(4) [of itp ws pwm] by (metis prod.collapse)

text \<open>Every connected peer is called at most once, with the new broadcast wants it was not sent.\<close>

lemma broadcastWantHaves_calls:
  assumes it: "iterates itp" and fin: "finite (dom (peerWants pwm))"
    and r: "broadcastWantHaves itp ws pwm = (s, calls)"
  shows "(p, call) \<in> set calls \<longleftrightarrow>
      (\<exists>us. call = AddBroadcastWantHaves us \<and> us \<noteq> [] \<and> p \<in> dom (peerWants pwm) \<and>
        us = broadcast_unsent pwm (snd (fold broadcast_want ws (pwm, []))) p)"
    and "distinct (map fst calls)"
    and "p \<in> dom (peerWants pwm) \<Longrightarrow>
      set (broadcast_unsent pwm (snd (fold broadcast_want ws (pwm, []))) p) =
        set ws - broadcastWants pwm - sent_to pwm p"
    and "distinct (broadcast_unsent pwm (snd (fold broadcast_want ws (pwm, []))) p)"
proof -
  obtain s1 u where l: "fold broadcast_want ws (pwm, []) = (s1, u)" by fastforce
  note eff = broadcast_loop [OF l]
  have pw: "peerWants s1 = peerWants pwm" using eff by simp
  have bu: "broadcast_unsent s1 u = broadcast_unsent pwm u"
    by (simp add: broadcast_unsent_def fun_eq_iff pw)
  have nil: "broadcast_unsent pwm [] = (\<lambda>p. [])"
    by (simp add: broadcast_unsent_def fun_eq_iff split: option.splits)
  have calls: "calls = [(p, AddBroadcastWantHaves (broadcast_unsent pwm u p)).
      p \<leftarrow> itp (dom (peerWants pwm)), broadcast_unsent pwm u p \<noteq> []]"
  proof (cases "u = []")
    case True
    then show ?thesis using r nil by (simp add: broadcastWantHaves_def l)
  next
    case False
    then show ?thesis using r by (simp add: broadcastWantHaves_def l bu pw cong: if_cong)
  qed
  show "(p, call) \<in> set calls \<longleftrightarrow>
      (\<exists>us. call = AddBroadcastWantHaves us \<and> us \<noteq> [] \<and> p \<in> dom (peerWants pwm) \<and>
        us = broadcast_unsent pwm (snd (fold broadcast_want ws (pwm, []))) p)"
    using it fin by (auto simp: calls l)
  have "map fst calls = filter (\<lambda>p. broadcast_unsent pwm u p \<noteq> []) (itp (dom (peerWants pwm)))"
    unfolding calls by (rule map_fst_guarded)
  then show "distinct (map fst calls)" using it fin by simp
  show "p \<in> dom (peerWants pwm) \<Longrightarrow>
      set (broadcast_unsent pwm (snd (fold broadcast_want ws (pwm, []))) p) =
        set ws - broadcastWants pwm - sent_to pwm p"
    using eff by (auto simp: l broadcast_unsent_def to_Some)
  show "distinct (broadcast_unsent pwm (snd (fold broadcast_want ws (pwm, []))) p)"
    using eff by (auto simp: l broadcast_unsent_def split: option.splits)
qed

section \<open>Disconnecting a peer\<close>

lemma removePeer_body_frame [simp]:
  "peerWants (removePeer_block itp p w pwm) = peerWants pwm"
  "broadcastWants (removePeer_block itp p w pwm) = broadcastWants pwm"
  "wantPeers (removePeer_block itp p w pwm) = wantPeers (reverseIndexRemove w p pwm)"
  "peerWants (removePeer_have itp p w pwm) = peerWants pwm"
  "broadcastWants (removePeer_have itp p w pwm) = broadcastWants pwm"
  "wantPeers (removePeer_have itp p w pwm) = wantPeers (reverseIndexRemove w p pwm)"
  "wantBlockGauge (removePeer_have itp p w pwm) = wantBlockGauge pwm"
  by (auto simp: removePeer_block_def removePeer_have_def Let_def)

lemma removePeer_body_index [inv_intros]:
  "index_ok pwm \<Longrightarrow> index_ok (removePeer_block itp p w pwm)"
  "index_ok pwm \<Longrightarrow> index_ok (removePeer_have itp p w pwm)"
  using pwx.invar_remove [of pwm w p] by (simp_all add: index_ok_def)

text \<open>The wants whose last tracked peer is \<open>p\<close>, and those whose last want-block is \<open>p\<close>'s.\<close>

definition only_want :: "peerWantManager \<Rightarrow> peer \<Rightarrow> Want \<Rightarrow> bool" where
  "only_want pwm p w \<longleftrightarrow>
     w \<notin> broadcastWants pwm \<and> (\<forall>q \<in> lookup_set (wantPeers pwm) w - {p}. w \<notin> sent_to pwm q)"

definition only_block :: "peerWantManager \<Rightarrow> peer \<Rightarrow> Want \<Rightarrow> bool" where
  "only_block pwm p w \<longleftrightarrow> (\<forall>q \<in> lookup_set (wantPeers pwm) w - {p}. w \<notin> blocks_to pwm q)"

lemma removePeer_body_gauges:
  assumes "iterates itp" and "finite (lookup_set (wantPeers pwm) w)"
  shows "wantGauge (removePeer_block itp p w pwm) =
           wantGauge pwm - (if only_want pwm p w then 1 else 0)"
    and "wantBlockGauge (removePeer_block itp p w pwm) =
           wantBlockGauge pwm - (if only_block pwm p w then 1 else 0)"
    and "wantGauge (removePeer_have itp p w pwm) =
           wantGauge pwm - (if only_want pwm p w then 1 else 0)"
proof -
  have fin: "finite (lookup_set (wantPeers (reverseIndexRemove w p pwm)) w)"
    using assms by simp
  note cnts = cnt_wantBlock_0 [OF assms(1) fin] cnts_wanted_iff [OF assms(1) fin]
  show "wantGauge (removePeer_block itp p w pwm) =
      wantGauge pwm - (if only_want pwm p w then 1 else 0)"
    "wantBlockGauge (removePeer_block itp p w pwm) =
      wantBlockGauge pwm - (if only_block pwm p w then 1 else 0)"
    "wantGauge (removePeer_have itp p w pwm) =
      wantGauge pwm - (if only_want pwm p w then 1 else 0)"
    by (auto simp: removePeer_block_def removePeer_have_def Let_def cnts only_want_def only_block_def)
qed

lemma removePeer_block_loop:
  assumes "iterates itp" and "distinct ws" and "\<And>w. finite (lookup_set (wantPeers pwm) w)"
    and "index_ok pwm" and "s = fold (removePeer_block itp p) ws pwm"
  shows "peerWants s = peerWants pwm \<and> broadcastWants s = broadcastWants pwm \<and> index_ok s \<and>
    (\<forall>v. lookup_set (wantPeers s) v =
       (if v \<in> set ws then lookup_set (wantPeers pwm) v - {p} else lookup_set (wantPeers pwm) v)) \<and>
    wantGauge s = wantGauge pwm - int (card {w \<in> set ws. only_want pwm p w}) \<and>
    wantBlockGauge s = wantBlockGauge pwm - int (card {w \<in> set ws. only_block pwm p w})"
  using assms
proof (induction ws arbitrary: pwm)
  case (Cons w ws)
  let ?t = "removePeer_block itp p w pwm"
  have fin: "\<And>w. finite (lookup_set (wantPeers ?t) w)" using Cons.prems(3) by simp
  have to: "blocks_to ?t = blocks_to pwm" "haves_to ?t = haves_to pwm" by (rule to_cong; simp)+
  have same: "only_want ?t p v = only_want pwm p v" "only_block ?t p v = only_block pwm p v"
    if "v \<in> set ws" for v
    using that Cons.prems(2) by (auto simp: only_want_def only_block_def to)
  have sets: "{v \<in> set ws. only_want ?t p v} = {v \<in> set ws. only_want pwm p v}"
    "{v \<in> set ws. only_block ?t p v} = {v \<in> set ws. only_block pwm p v}"
    using same by auto
  have cons: "{v \<in> set (w # ws). P v} = (if P w then insert w {v \<in> set ws. P v} else {v \<in> set ws. P v})"
    for P by auto
  note IH = Cons.IH [OF Cons.prems(1) _ fin]
  note g = removePeer_body_gauges [OF Cons.prems(1) Cons.prems(3), of p w]
  have "index_ok ?t" by (rule removePeer_body_index(1) [OF Cons.prems(4)])
  with IH Cons.prems(2,5) show ?case
    unfolding cons by (auto simp: sets g)
qed auto

lemma removePeer_have_loop:
  assumes "iterates itp" and "distinct ws" and "\<And>w. finite (lookup_set (wantPeers pwm) w)"
    and "index_ok pwm" and "s = fold (removePeer_have itp p) ws pwm"
  shows "peerWants s = peerWants pwm \<and> broadcastWants s = broadcastWants pwm \<and> index_ok s \<and>
    (\<forall>v. lookup_set (wantPeers s) v =
       (if v \<in> set ws then lookup_set (wantPeers pwm) v - {p} else lookup_set (wantPeers pwm) v)) \<and>
    wantGauge s = wantGauge pwm - int (card {w \<in> set ws. only_want pwm p w}) \<and>
    wantBlockGauge s = wantBlockGauge pwm"
  using assms
proof (induction ws arbitrary: pwm)
  case (Cons w ws)
  let ?t = "removePeer_have itp p w pwm"
  have fin: "\<And>w. finite (lookup_set (wantPeers ?t) w)" using Cons.prems(3) by simp
  have to: "blocks_to ?t = blocks_to pwm" "haves_to ?t = haves_to pwm" by (rule to_cong; simp)+
  have same: "only_want ?t p v = only_want pwm p v" if "v \<in> set ws" for v
    using that Cons.prems(2) by (auto simp: only_want_def to)
  have sets: "{v \<in> set ws. only_want ?t p v} = {v \<in> set ws. only_want pwm p v}"
    using same by auto
  have cons: "{v \<in> set (w # ws). P v} = (if P w then insert w {v \<in> set ws. P v} else {v \<in> set ws. P v})"
    for P by auto
  note IH = Cons.IH [OF Cons.prems(1) _ fin]
  note g = removePeer_body_gauges [OF Cons.prems(1) Cons.prems(3), of p w]
  have "index_ok ?t" by (rule removePeer_body_index(2) [OF Cons.prems(4)])
  with IH Cons.prems(2,5) show ?case
    unfolding cons by (auto simp: sets g)
qed auto

lemma removePeer_None [simp]: "peerWants pwm p = None \<Longrightarrow> removePeer itw itp p pwm = pwm"
  by (simp add: removePeer_def)

lemma removePeer_loops:
  assumes "peerWants pwm p = Some pws"
  shows "removePeer itw itp p pwm =
    (let s = fold (removePeer_have itp p) (itw (haves_to pwm p))
               (fold (removePeer_block itp p) (itw (blocks_to pwm p)) pwm)
     in s\<lparr>peerWants := (peerWants s)(p := None)\<rparr>)"
  using assms by (simp add: removePeer_def Set_ForEach_def ForEach_loop_total to_Some Let_def)

lemma removePeer_effect:
  assumes it: "iterates itw" "iterates itp" and inv: "pwm_inv pwm"
  shows "peerWants (removePeer itw itp p pwm) = (peerWants pwm)(p := None) \<and>
    broadcastWants (removePeer itw itp p pwm) = broadcastWants pwm \<and>
    pwm_inv (removePeer itw itp p pwm)"
proof (cases "peerWants pwm p")
  case None
  then show ?thesis using inv by (simp add: fun_upd_idem)
next
  case (Some pws)
  from inv have wf: "pwm_wf pwm" and g: "pwm_gauges pwm" by (auto simp: pwm_inv_def)
  define B where "B = blocks_to pwm p"
  define H where "H = haves_to pwm p"
  have BH: "finite B" "finite H" "B \<inter> H = {}" and ok: "index_ok pwm"
    and mem: "\<And>w. lookup_set (wantPeers pwm) w = {q. w \<in> sent_to pwm q}"
    using wf by (auto simp: pwm_wf_def B_def H_def)
  define s1 where "s1 = fold (removePeer_block itp p) (itw B) pwm"
  define s2 where "s2 = fold (removePeer_have itp p) (itw H) s1"
  define s where "s = s2\<lparr>peerWants := (peerWants s2)(p := None)\<rparr>"
  have s: "removePeer itw itp p pwm = s"
    by (simp add: removePeer_loops [OF Some] s_def s2_def s1_def B_def H_def Let_def)
  have dB: "distinct (itw B)" "set (itw B) = B" and dH: "distinct (itw H)" "set (itw H) = H"
    using it BH by simp_all
  have fin: "\<And>w. finite (lookup_set (wantPeers pwm) w)" using wf by simp
  note L1 = removePeer_block_loop [OF it(2) dB(1) fin ok s1_def]
  from L1 have f1: "peerWants s1 = peerWants pwm" "broadcastWants s1 = broadcastWants pwm"
      "index_ok s1"
      "wantGauge s1 = wantGauge pwm - int (card {w \<in> B. only_want pwm p w})"
      "wantBlockGauge s1 = wantBlockGauge pwm - int (card {w \<in> B. only_block pwm p w})"
    and i1: "\<And>v. lookup_set (wantPeers s1) v =
      (if v \<in> B then lookup_set (wantPeers pwm) v - {p} else lookup_set (wantPeers pwm) v)"
    unfolding dB by blast+
  have fin1: "\<And>w. finite (lookup_set (wantPeers s1) w)" by (simp add: i1 fin)
  note L2 = removePeer_have_loop [OF it(2) dH(1) fin1 f1(3) s2_def]
  from L2 have f2: "peerWants s2 = peerWants pwm" "broadcastWants s2 = broadcastWants pwm"
      "index_ok s2"
      "wantGauge s2 = wantGauge s1 - int (card {w \<in> H. only_want s1 p w})"
      "wantBlockGauge s2 = wantBlockGauge s1"
    and i2: "\<And>v. lookup_set (wantPeers s2) v =
      (if v \<in> H then lookup_set (wantPeers s1) v - {p} else lookup_set (wantPeers s1) v)"
    unfolding dH f1 by blast+
  have to1: "blocks_to s1 = blocks_to pwm" "haves_to s1 = haves_to pwm"
    using f1(1) by (rule to_cong)+
  have ow: "{w \<in> H. only_want s1 p w} = {w \<in> H. only_want pwm p w}"
    using BH(3) by (auto simp: only_want_def to1 i1 f1(2))
  have to: "blocks_to s q = (if q = p then {} else blocks_to pwm q)"
    "haves_to s q = (if q = p then {} else haves_to pwm q)" for q
    by (simp_all add: s_def blocks_to_def haves_to_def f2(1))
  have idx: "lookup_set (wantPeers s) w = {q. w \<in> sent_to s q}" for w
  proof -
    have "lookup_set (wantPeers s) w = {q. w \<in> sent_to pwm q} - (if w \<in> B \<union> H then {p} else {})"
      by (simp add: s_def i2 i1 mem)
    then show ?thesis by (auto simp: to B_def H_def split: if_splits)
  qed
  have aw: "all_wants s = all_wants pwm - {w \<in> B \<union> H. only_want pwm p w}"
    unfolding all_wants_def only_want_def mem to B_def H_def
    by (auto simp: s_def f2(2) split: if_splits)
  have ab: "all_blocks s = all_blocks pwm - {w \<in> B. only_block pwm p w}"
    unfolding all_blocks_def only_block_def mem to B_def by (auto split: if_splits)
  have cw: "int (card {w \<in> B \<union> H. only_want pwm p w}) =
      int (card {w \<in> B. only_want pwm p w}) + int (card {w \<in> H. only_want pwm p w})"
    using BH by (subst of_nat_add [symmetric], subst card_Un_disjoint [symmetric])
      (auto intro: arg_cong [where f = card])
  have sub: "{w \<in> B \<union> H. only_want pwm p w} \<subseteq> all_wants pwm"
    "{w \<in> B. only_block pwm p w} \<subseteq> all_blocks pwm"
    by (auto simp: all_wants_def all_blocks_def B_def H_def)
  have "wantGauge s = int (card (all_wants s))"
    unfolding aw int_card_diff [OF pwm_wf_finite(2) [OF wf] sub(1)] cw
    using g by (simp add: pwm_gauges_def s_def f2(4) f1(4) ow)
  moreover have "wantBlockGauge s = int (card (all_blocks s))"
    unfolding ab int_card_diff [OF pwm_wf_finite(1) [OF wf] sub(2)]
    using g by (simp add: pwm_gauges_def s_def f2(5) f1(5))
  moreover have "finite (dom (peerWants s))" "finite (broadcastWants s)" "index_ok s"
    using wf f2(3) by (simp_all add: s_def f2(1,2) pwm_wf_def index_ok_def)
  moreover have "finite (sent_to s q) \<and> blocks_to s q \<inter> haves_to s q = {}" for q
    using wf by (simp add: to pwm_wf_def)
  ultimately have "pwm_inv s"
    by (simp add: pwm_inv_def pwm_wf_def pwm_gauges_def idx)
  then show ?thesis unfolding s by (simp add: s_def f2(1,2))
qed

lemma removePeer_inv [inv_intros]:
  "iterates itw \<Longrightarrow> iterates itp \<Longrightarrow> pwm_inv pwm \<Longrightarrow> pwm_inv (removePeer itw itp p pwm)"
  by (simp add: removePeer_effect)

section \<open>Cancelling\<close>

lemma cancel_want_loop:
  assumes "distinct cs"
  shows "fold (cancel_want b) cs (pws, tc) =
    (pws\<lparr>wantBlocks := wantBlocks pws - set cs, wantHaves := wantHaves pws - set cs\<rparr>,
     tc @ filter (\<lambda>c. c \<notin> b \<and> c \<in> wantBlocks pws \<union> wantHaves pws) cs)"
  using assms
proof (induction cs arbitrary: pws tc)
  case (Cons c cs)
  let ?pws = "pws\<lparr>wantBlocks := wantBlocks pws - {c}, wantHaves := wantHaves pws - {c}\<rparr>"
  have f: "filter (\<lambda>c'. c' \<notin> b \<and> c' \<in> wantBlocks ?pws \<union> wantHaves ?pws) cs =
      filter (\<lambda>c'. c' \<notin> b \<and> c' \<in> wantBlocks pws \<union> wantHaves pws) cs"
    using Cons.prems by (intro filter_cong) auto
  have cs: "distinct cs" using Cons.prems by simp
  show ?case
  proof (cases "c \<in> wantBlocks pws \<union> wantHaves pws")
    case True
    have step: "cancel_want b c (pws, tc) = (?pws, if c \<in> b then tc else tc @ [c])"
      using True by (auto simp: cancel_want_def)
    have "A - {c} - set cs = A - insert c (set cs)" for A by auto
    with True show ?thesis
      unfolding fold_simps step Cons.IH [OF cs, of ?pws] f by simp
  next
    case False
    then have "wantBlocks pws - insert c (set cs) = wantBlocks pws - set cs"
      "wantHaves pws - insert c (set cs) = wantHaves pws - set cs" by auto
    moreover have "cancel_want b c (pws, tc) = (pws, tc)" using False by (simp add: cancel_want_def)
    ultimately show ?thesis using False Cons.IH [OF cs, of pws tc] by simp
  qed
qed simp

text \<open>The cancels sent to peer \<open>p\<close>: the cancelled broadcast wants first, then the other wants that
were sent to \<open>p\<close>.\<close>

definition cancels_to :: "peerWantManager \<Rightarrow> Want list \<Rightarrow> peer \<Rightarrow> Want list" where
  "cancels_to pwm cs p =
     filter (\<lambda>c. c \<in> broadcastWants pwm) cs @
     filter (\<lambda>c. c \<notin> broadcastWants pwm \<and> c \<in> sent_to pwm p) cs"

lemma cancel_send_loop:
  assumes "distinct cs" and "distinct ts"
    and "fold (cancel_send cs (filter (Set_Has (broadcastWants pwm)) cs)) ts (pwm, calls) = (s, calls')"
  shows "wantPeers s = wantPeers pwm \<and> broadcastWants s = broadcastWants pwm \<and>
    wantGauge s = wantGauge pwm \<and> wantBlockGauge s = wantBlockGauge pwm \<and>
    dom (peerWants s) = dom (peerWants pwm) \<and>
    (\<forall>q. blocks_to s q = (if q \<in> set ts then blocks_to pwm q - set cs else blocks_to pwm q)) \<and>
    (\<forall>q. haves_to s q = (if q \<in> set ts then haves_to pwm q - set cs else haves_to pwm q)) \<and>
    calls' = calls @ [(p, AddCancels (cancels_to pwm cs p)).
      p \<leftarrow> ts, p \<in> dom (peerWants pwm) \<and> cancels_to pwm cs p \<noteq> []]"
  using assms(2,3)
proof (induction ts arbitrary: pwm calls)
  case (Cons p ts)
  let ?bc = "\<lambda>pwm. filter (Set_Has (broadcastWants pwm)) cs"
  show ?case
  proof (cases "peerWants pwm p")
    case None
    then have "fold (cancel_send cs (?bc pwm)) ts (pwm, calls) = (s, calls')"
      using Cons.prems(2) by (simp add: cancel_send_def [of _ _ p] Set_Has_abs)
    note IH = Cons.IH [OF _ this]
    have "p \<notin> dom (peerWants pwm)" "blocks_to pwm p = {}" "haves_to pwm p = {}"
      using None by (auto simp: to_None)
    with IH Cons.prems(1) show ?thesis by simp
  next
    case (Some pws)
    define t where "t = pwm\<lparr>peerWants := (peerWants pwm)(p \<mapsto>
      pws\<lparr>wantBlocks := wantBlocks pws - set cs, wantHaves := wantHaves pws - set cs\<rparr>)\<rparr>"
    define calls1 where "calls1 = (if cancels_to pwm cs p \<noteq> []
      then calls @ [(p, AddCancels (cancels_to pwm cs p))] else calls)"
    have step: "cancel_send cs (?bc pwm) p (pwm, calls) = (t, calls1)"
      using Some
      by (simp add: cancel_send_def cancel_want_loop [OF assms(1)] t_def calls1_def to_Some
          cancels_to_def Set_Has_abs)
    have same: "cancels_to t cs q = cancels_to pwm cs q" if "q \<noteq> p" for q
      using that by (simp add: cancels_to_def t_def)
    have ts: "p \<notin> set ts" "distinct ts" using Cons.prems(1) by auto
    have "fold (cancel_send cs (?bc t)) ts (t, calls1) = (s, calls')"
      using Cons.prems(2) step by (simp add: t_def Set_Has_abs)
    note IH = Cons.IH [OF ts(2) this]
    have dt: "dom (peerWants t) = dom (peerWants pwm)" using Some by (auto simp: t_def)
    have rest: "[(q, AddCancels (cancels_to t cs q)).
        q \<leftarrow> ts, q \<in> dom (peerWants t) \<and> cancels_to t cs q \<noteq> []] =
      [(q, AddCancels (cancels_to pwm cs q)).
        q \<leftarrow> ts, q \<in> dom (peerWants pwm) \<and> cancels_to pwm cs q \<noteq> []]"
      unfolding dt
    proof (intro arg_cong [where f = concat] map_cong refl)
      fix q assume "q \<in> set ts"
      with ts(1) have "q \<noteq> p" by auto
      from same [OF this] show "(if q \<in> dom (peerWants pwm) \<and> cancels_to t cs q \<noteq> []
          then [(q, AddCancels (cancels_to t cs q))] else []) =
        (if q \<in> dom (peerWants pwm) \<and> cancels_to pwm cs q \<noteq> []
          then [(q, AddCancels (cancels_to pwm cs q))] else [])"
        by (simp only:)
    qed
    have to: "blocks_to t q = (if q = p then blocks_to pwm q - set cs else blocks_to pwm q)"
      "haves_to t q = (if q = p then haves_to pwm q - set cs else haves_to pwm q)" for q
      using Some by (simp_all add: t_def to_Some)
    have frame: "wantPeers t = wantPeers pwm" "broadcastWants t = broadcastWants pwm"
      "wantGauge t = wantGauge pwm" "wantBlockGauge t = wantBlockGauge pwm"
      by (simp_all add: t_def)
    from IH have IHb: "blocks_to s q = (if q \<in> set ts then blocks_to t q - set cs else blocks_to t q)"
      and IHh: "haves_to s q = (if q \<in> set ts then haves_to t q - set cs else haves_to t q)" for q
      by blast+
    from IH have IHc: "calls' = calls1 @ [(q, AddCancels (cancels_to t cs q)).
        q \<leftarrow> ts, q \<in> dom (peerWants t) \<and> cancels_to t cs q \<noteq> []]"
      and fr: "wantPeers s = wantPeers t" "broadcastWants s = broadcastWants t"
      "wantGauge s = wantGauge t" "wantBlockGauge s = wantBlockGauge t"
      "dom (peerWants s) = dom (peerWants t)"
      by blast+
    have p: "p \<in> dom (peerWants pwm)" using Some by blast
    have "calls' = calls @ [(q, AddCancels (cancels_to pwm cs q)).
        q \<leftarrow> p # ts, q \<in> dom (peerWants pwm) \<and> cancels_to pwm cs q \<noteq> []]"
      unfolding IHc rest using p by (simp add: calls1_def)
    moreover have "blocks_to s q =
        (if q \<in> set (p # ts) then blocks_to pwm q - set cs else blocks_to pwm q)"
      "haves_to s q =
        (if q \<in> set (p # ts) then haves_to pwm q - set cs else haves_to pwm q)" for q
      using ts(1) unfolding IHb IHh by (auto simp: to)
    ultimately show ?thesis unfolding fr dt frame by blast
  qed
qed simp

lemma cancel_gauges_frame [simp]:
  "peerWants (cancel_gauges m c pwm) = peerWants pwm"
  "wantPeers (cancel_gauges m c pwm) = wantPeers pwm"
  "broadcastWants (cancel_gauges m c pwm) = broadcastWants pwm"
  by (auto simp: cancel_gauges_def Let_def split: option.splits)

lemma cancel_gauges_loop:
  assumes "\<And>c. c \<in> set cs \<Longrightarrow> \<exists>n. m c = Some n \<and> (0 < cnt_wantBlock n) = B c \<and> cnts_wanted n = W c"
  shows "peerWants (fold (cancel_gauges m) cs pwm) = peerWants pwm \<and>
    wantPeers (fold (cancel_gauges m) cs pwm) = wantPeers pwm \<and>
    broadcastWants (fold (cancel_gauges m) cs pwm) = broadcastWants pwm \<and>
    wantGauge (fold (cancel_gauges m) cs pwm) = wantGauge pwm - int (length (filter W cs)) \<and>
    wantBlockGauge (fold (cancel_gauges m) cs pwm) =
      wantBlockGauge pwm - int (length (filter B cs))"
  using assms
proof (induction cs arbitrary: pwm)
  case (Cons c cs)
  obtain n where n: "m c = Some n" "(0 < cnt_wantBlock n) = B c" "cnts_wanted n = W c"
    using Cons.prems by fastforce
  have g: "wantGauge (cancel_gauges m c pwm) = wantGauge pwm - (if W c then 1 else 0)"
    "wantBlockGauge (cancel_gauges m c pwm) = wantBlockGauge pwm - (if B c then 1 else 0)"
    using n by (auto simp: cancel_gauges_def Let_def)
  show ?case using Cons.IH [of "cancel_gauges m c pwm"] Cons.prems by (simp add: g)
qed simp

lemma length_filter_card: "distinct xs \<Longrightarrow> length (filter P xs) = card {x \<in> set xs. P x}"
  by (simp add: distinct_card [symmetric] set_filter [symmetric] del: set_filter)

text \<open>The peers a cancel is considered for.\<close>

definition cancel_targets :: "(peer set \<Rightarrow> peer list) \<Rightarrow> Want list \<Rightarrow> peerWantManager \<Rightarrow> peer list" where
  "cancel_targets itp cs pwm =
     (if filter (Set_Has (broadcastWants pwm)) cs \<noteq> [] then itp (dom (peerWants pwm))
      else itp (\<Union>c \<in> set cs. lookup_set (wantPeers pwm) c))"

lemma cancel_targets_ok:
  assumes it: "iterates itp" and wf: "pwm_wf pwm"
  shows "distinct (cancel_targets itp cs pwm)"
    and "set (cancel_targets itp cs pwm) \<subseteq> dom (peerWants pwm)"
    and "p \<notin> set (cancel_targets itp cs pwm) \<Longrightarrow> sent_to pwm p \<inter> set cs = {}"
    and "cancels_to pwm cs p \<noteq> [] \<Longrightarrow> p \<in> dom (peerWants pwm) \<Longrightarrow> p \<in> set (cancel_targets itp cs pwm)"
proof -
  have fin: "finite (dom (peerWants pwm))" "finite (\<Union>c \<in> set cs. lookup_set (wantPeers pwm) c)"
    using wf pwm_wf_finite(3) [OF wf] by (auto simp: pwm_wf_def)
  have mem: "\<And>w. lookup_set (wantPeers pwm) w = {p. w \<in> sent_to pwm p}"
    using wf by (simp add: pwm_wf_def)
  have dom: "sent_to pwm q \<noteq> {} \<Longrightarrow> q \<in> dom (peerWants pwm)" for q
    by (auto simp: blocks_to_def haves_to_def split: option.splits)
  have set: "set (cancel_targets itp cs pwm) =
      (if set cs \<inter> broadcastWants pwm \<noteq> {} then dom (peerWants pwm)
       else {p. sent_to pwm p \<inter> set cs \<noteq> {}})"
    using it fin by (auto simp: cancel_targets_def filter_empty_conv mem)
  show "distinct (cancel_targets itp cs pwm)" using it fin by (simp add: cancel_targets_def)
  show "set (cancel_targets itp cs pwm) \<subseteq> dom (peerWants pwm)" unfolding set using dom by auto
  show "p \<notin> set (cancel_targets itp cs pwm) \<Longrightarrow> sent_to pwm p \<inter> set cs = {}"
    unfolding set using dom [of p] by (auto split: if_splits)
  show "cancels_to pwm cs p \<noteq> [] \<Longrightarrow> p \<in> dom (peerWants pwm) \<Longrightarrow> p \<in> set (cancel_targets itp cs pwm)"
    unfolding set by (auto simp: cancels_to_def filter_empty_conv split: if_splits)
qed

lemma sendCancels_effect:
  assumes it: "iterates itp" and dcs: "distinct cs" and inv: "pwm_inv pwm"
    and r: "sendCancels itp cs pwm = (s, calls)"
  shows "dom (peerWants s) = dom (peerWants pwm)"
    and "broadcastWants s = broadcastWants pwm - set cs"
    and "blocks_to s q = blocks_to pwm q - set cs"
    and "haves_to s q = haves_to pwm q - set cs"
    and "calls = [(p, AddCancels (cancels_to pwm cs p)).
           p \<leftarrow> cancel_targets itp cs pwm, cancels_to pwm cs p \<noteq> []]"
    and "pwm_inv s"
proof -
  from inv have wf: "pwm_wf pwm" and g: "pwm_gauges pwm" by (auto simp: pwm_inv_def)
  note tg = cancel_targets_ok [OF it wf, where cs = cs]
  define m where "m = fold (\<lambda>c m. m(c \<mapsto> wantPeerCounts itp c pwm)) cs Map.empty"
  define bcs where "bcs = filter (Set_Has (broadcastWants pwm)) cs"
  obtain s1 calls1 where l: "fold (cancel_send cs bcs) (cancel_targets itp cs pwm) (pwm, []) = (s1, calls1)"
    by fastforce
  define s2 where "s2 = fold (cancel_gauges m) cs s1"
  have mc: "\<exists>n. m c = Some n \<and> (0 < cnt_wantBlock n) = (c \<in> all_blocks pwm) \<and>
      cnts_wanted n = (c \<in> all_wants pwm)" if "c \<in> set cs" for c
    using that pwm_wf_cnts [OF it wf, of c] by (auto simp: m_def fold_map_upd)
  note L2 = cancel_gauges_loop [of cs m "\<lambda>c. c \<in> all_blocks pwm" "\<lambda>c. c \<in> all_wants pwm" s1,
      OF mc, folded s2_def]
  note L1 = cancel_send_loop [OF dcs tg(1) l [unfolded bcs_def]]
  from L1 have f1: "dom (peerWants s1) = dom (peerWants pwm)" "wantPeers s1 = wantPeers pwm"
    "broadcastWants s1 = broadcastWants pwm" "wantGauge s1 = wantGauge pwm"
    "wantBlockGauge s1 = wantBlockGauge pwm" by blast+
  from L2 have f2: "peerWants s2 = peerWants s1" "wantPeers s2 = wantPeers pwm"
    "broadcastWants s2 = broadcastWants pwm"
    "wantGauge s2 = wantGauge pwm - int (card {c \<in> set cs. c \<in> all_wants pwm})"
    "wantBlockGauge s2 = wantBlockGauge pwm - int (card {c \<in> set cs. c \<in> all_blocks pwm})"
    by (simp_all add: f1 length_filter_card [OF dcs])
  have t1: "blocks_to s1 q = (if q \<in> set (cancel_targets itp cs pwm)
        then blocks_to pwm q - set cs else blocks_to pwm q)"
    "haves_to s1 q = (if q \<in> set (cancel_targets itp cs pwm)
        then haves_to pwm q - set cs else haves_to pwm q)" for q
    using L1 by blast+
  have "s = s2\<lparr>broadcastWants := broadcastWants pwm - set cs,
        wantPeers := wantPeers pwm |` (- set cs)\<rparr> \<and> calls = calls1"
  proof (cases "cs = []")
    case True
    then have "cancel_targets itp cs pwm = []" using it by (simp add: cancel_targets_def)
    then show ?thesis using True r l
      by (simp add: sendCancels_def s2_def restrict_map_def)
  next
    case False
    have "fold Set_Remove bcs (broadcastWants pwm) = broadcastWants pwm - set cs"
      by (auto simp: Set_Remove_abs fold_remove_set bcs_def)
    with False r l [unfolded cancel_targets_def] show ?thesis
      unfolding sendCancels_def m_def [symmetric] bcs_def [symmetric] Let_def
      by (simp add: s2_def [symmetric] f2 fold_map_delete)
  qed
  then have sc: "s = s2\<lparr>broadcastWants := broadcastWants pwm - set cs,
        wantPeers := wantPeers pwm |` (- set cs)\<rparr>" and calls: "calls = calls1"
    by blast+
  have bt: "blocks_to s q = blocks_to pwm q - set cs" and ht: "haves_to s q = haves_to pwm q - set cs" for q
    using tg(3) [of q] t1 [of q] f2(1) by (auto simp: sc to_cong [OF f2(1)] split: if_splits)
  have aw: "all_wants s = all_wants pwm - {c \<in> set cs. c \<in> all_wants pwm}"
    "all_blocks s = all_blocks pwm - {c \<in> set cs. c \<in> all_blocks pwm}"
    by (auto simp: all_wants_def all_blocks_def bt ht) (simp_all add: sc)
  show dom: "dom (peerWants s) = dom (peerWants pwm)" by (simp add: sc f2 f1)
  show bc: "broadcastWants s = broadcastWants pwm - set cs" by (simp add: sc)
  show "blocks_to s q = blocks_to pwm q - set cs" "haves_to s q = haves_to pwm q - set cs"
    by (rule bt ht)+
  have "calls1 = [(p, AddCancels (cancels_to pwm cs p)). p \<leftarrow> cancel_targets itp cs pwm,
      p \<in> dom (peerWants pwm) \<and> cancels_to pwm cs p \<noteq> []]"
    using L1 by simp
  then show "calls = [(p, AddCancels (cancels_to pwm cs p)).
      p \<leftarrow> cancel_targets itp cs pwm, cancels_to pwm cs p \<noteq> []]"
    unfolding calls using tg(2) by (auto intro!: arg_cong [where f = concat] map_cong)
  have "wantGauge s = wantGauge s2" "wantBlockGauge s = wantBlockGauge s2" by (simp_all add: sc)
  then have "pwm_gauges s"
    using g pwm_wf_finite [OF wf] unfolding pwm_gauges_def aw
    by (simp add: int_card_diff subset_iff f2)
  moreover have "pwm_wf s"
    using wf unfolding pwm_wf_def dom bc bt ht index_ok_def
    by (auto simp: sc) (auto simp: restrict_map_def split: if_splits)
  ultimately show "pwm_inv s" by (simp add: pwm_inv_def)
qed

lemma sendCancels_inv [inv_intros]:
  "iterates itp \<Longrightarrow> distinct cs \<Longrightarrow> pwm_inv pwm \<Longrightarrow> pwm_inv (fst (sendCancels itp cs pwm))"
  using sendCancels_effect(6) [of itp cs pwm] by (metis prod.collapse)

lemma set_cancels_to: "set (cancels_to pwm cs p) = set cs \<inter> (broadcastWants pwm \<union> sent_to pwm p)"
  by (auto simp: cancels_to_def)

section \<open>The queries\<close>

lemma ForEach_add:
  "snd (Set_ForEach itw (\<lambda>w res. (None :: unit option, insert w res)) s res) = res \<union> set (itw s)"
  by (simp add: Set_ForEach_def ForEach_loop_total fold_insert_set Un_commute)

lemma getWants_set:
  assumes it: "iterates itw" and inv: "pwm_inv pwm"
  shows "set (getWants itw pwm) = all_wants pwm" and "distinct (getWants itw pwm)"
proof -
  from inv have wf: "pwm_wf pwm" by (simp add: pwm_inv_def)
  then have bc: "finite (broadcastWants pwm)" by (simp add: pwm_wf_def)
  have d: "dom (wantPeers pwm) = {w. \<exists>p. w \<in> sent_to pwm p}"
    unfolding dom_def using pwm_wf_known [OF wf] by auto
  have "finite (dom (wantPeers pwm))"
    by (rule finite_subset [OF _ pwm_wf_finite(2) [OF wf]]) (auto simp: d all_wants_def)
  with it bc show "set (getWants itw pwm) = all_wants pwm" "distinct (getWants itw pwm)"
    by (auto simp: getWants_def all_wants_def d)
qed

lemma getWantBlocks_set:
  assumes it: "iterates itw" "iterates itp" and inv: "pwm_inv pwm"
  shows "set (getWantBlocks itw itp pwm) = all_blocks pwm" and "distinct (getWantBlocks itw itp pwm)"
proof -
  from inv have wf: "pwm_wf pwm" by (simp add: pwm_inv_def)
  have fin: "finite (dom (peerWants pwm))" using wf by (simp add: pwm_wf_def)
  have fb: "finite (wantBlocks pws)" if "peerWants pwm p = Some pws" for p pws
    using wf that by (auto simp: pwm_wf_def to_Some dest: spec [of _ p])
  have "set (map_values itp (peerWants pwm)) = ran (peerWants pwm)"
    using it fin by (simp add: set_map_values)
  then have eq: "(\<Union>pws \<in> set (map_values itp (peerWants pwm)). set (itw (wantBlocks pws))) = all_blocks pwm"
    using it fb by (auto simp: all_blocks_def blocks_to_def ran_def split: option.splits)
  have "getWantBlocks itw itp pwm = itw (all_blocks pwm)"
    by (simp add: getWantBlocks_def ForEach_add fold_union_sets eq)
  then show "set (getWantBlocks itw itp pwm) = all_blocks pwm" "distinct (getWantBlocks itw itp pwm)"
    using it wf by simp_all
qed

lemma getWantHaves_set:
  assumes it: "iterates itw" "iterates itp" and inv: "pwm_inv pwm"
  shows "set (getWantHaves itw itp pwm) = broadcastWants pwm \<union> {w. \<exists>p. w \<in> haves_to pwm p}"
    and "distinct (getWantHaves itw itp pwm)"
proof -
  from inv have wf: "pwm_wf pwm" by (simp add: pwm_inv_def)
  have fin: "finite (dom (peerWants pwm))" and bc: "finite (broadcastWants pwm)"
    using wf by (auto simp: pwm_wf_def)
  have fb: "finite (wantHaves pws)" if "peerWants pwm p = Some pws" for p pws
    using wf that by (auto simp: pwm_wf_def to_Some dest: spec [of _ p])
  have "set (map_values itp (peerWants pwm)) = ran (peerWants pwm)"
    using it fin by (simp add: set_map_values)
  then have eq: "(\<Union>pws \<in> set (map_values itp (peerWants pwm)). set (itw (wantHaves pws))) =
      {w. \<exists>p. w \<in> haves_to pwm p}"
    using it fb by (auto simp: haves_to_def ran_def split: option.splits)
  let ?R = "{w. \<exists>p. w \<in> haves_to pwm p} \<union> broadcastWants pwm"
  have "finite ?R"
    by (rule finite_subset [OF _ pwm_wf_finite(2) [OF wf]]) (auto simp: all_wants_def)
  moreover have "getWantHaves itw itp pwm = itw ?R"
    using it bc by (simp add: getWantHaves_def ForEach_add fold_union_sets eq Let_def)
  ultimately show "set (getWantHaves itw itp pwm) = broadcastWants pwm \<union> {w. \<exists>p. w \<in> haves_to pwm p}"
    "distinct (getWantHaves itw itp pwm)"
    using it by auto
qed

end
