(* ===== verification/PeerWantSpec.thy ===== *)
theory PeerWantSpec
  imports PeerWantManager
begin

text \<open>
  The contract of the peer want manager: an abstract view of who has been told what, the effect of
  every operation on that view, and the proof that \<^verbatim>\<open>peerwantmanager.go\<close> implements it. The peers'
  side is followed by a ghost component that folds the calls made on every peer's queue, so that the
  records of the manager can be compared with what each peer has been told since it connected.
\<close>

section \<open>Operations as a transition system\<close>

datatype pwm_op =
    AddPeer peer
  | RemovePeer peer
  | Broadcast "Want list"
  | Send peer "Want list" "Want list"
  | Cancel "Want list"

fun pwm_apply ::
  "(Want set \<Rightarrow> Want list) \<Rightarrow> (peer set \<Rightarrow> peer list) \<Rightarrow> pwm_op \<Rightarrow> peerWantManager
     \<Rightarrow> peerWantManager \<times> (peer \<times> pq_call) list" where
  "pwm_apply itw itp (AddPeer p) pwm = addPeer itw p pwm"
| "pwm_apply itw itp (RemovePeer p) pwm = (removePeer itw itp p pwm, [])"
| "pwm_apply itw itp (Broadcast ws) pwm = broadcastWantHaves itp ws pwm"
| "pwm_apply itw itp (Send p wbs whs) pwm = sendWants itp p wbs whs pwm"
| "pwm_apply itw itp (Cancel cs) pwm = sendCancels itp cs pwm"

text \<open>Callers cancel a list without repetitions.\<close>

fun op_ok :: "pwm_op \<Rightarrow> bool" where
  "op_ok (Cancel cs) \<longleftrightarrow> distinct cs"
| "op_ok _ \<longleftrightarrow> True"

lemma pwm_apply_inv [inv_intros]:
  "iterates itw \<Longrightarrow> iterates itp \<Longrightarrow> op_ok op \<Longrightarrow> pwm_inv pwm \<Longrightarrow> pwm_inv (fst (pwm_apply itw itp op pwm))"
  by (cases op) (auto intro: inv_intros)

section \<open>The abstract view\<close>

record want_view =
  v_peers :: "peer set"
  v_blocks :: "peer \<Rightarrow> Want set"
  v_haves :: "peer \<Rightarrow> Want set"
  v_bcast :: "Want set"

definition view :: "peerWantManager \<Rightarrow> want_view" where
  "view pwm = \<lparr>v_peers = dom (peerWants pwm), v_blocks = blocks_to pwm, v_haves = haves_to pwm,
     v_bcast = broadcastWants pwm\<rparr>"

fun spec_op :: "pwm_op \<Rightarrow> want_view \<Rightarrow> want_view" where
  "spec_op (AddPeer p) v = v\<lparr>v_peers := insert p (v_peers v)\<rparr>"
| "spec_op (RemovePeer p) v =
     v\<lparr>v_peers := v_peers v - {p}, v_blocks := (v_blocks v)(p := {}), v_haves := (v_haves v)(p := {})\<rparr>"
| "spec_op (Broadcast ws) v = v\<lparr>v_bcast := v_bcast v \<union> set ws\<rparr>"
| "spec_op (Send p wbs whs) v =
     (if p \<in> v_peers v
      then v\<lparr>v_blocks := (v_blocks v)(p := v_blocks v p \<union> set wbs),
             v_haves := (v_haves v)(p := (v_haves v p - set wbs) \<union>
               (set whs - (v_blocks v p \<union> set wbs) - v_bcast v))\<rparr>
      else v)"
| "spec_op (Cancel cs) v =
     v\<lparr>v_blocks := (\<lambda>p. v_blocks v p - set cs), v_haves := (\<lambda>p. v_haves v p - set cs),
       v_bcast := v_bcast v - set cs\<rparr>"

text \<open>What one call tells a peer, and what a list of calls tells peer \<open>p\<close>.\<close>

fun call_blocks :: "pq_call \<Rightarrow> Want set" where
  "call_blocks (AddWants bs hs) = set bs"
| "call_blocks _ = {}"

fun call_haves :: "pq_call \<Rightarrow> Want set" where
  "call_haves (AddWants bs hs) = set hs"
| "call_haves (AddBroadcastWantHaves hs) = set hs"
| "call_haves _ = {}"

fun call_cancels :: "pq_call \<Rightarrow> Want set" where
  "call_cancels (AddCancels cs) = set cs"
| "call_cancels _ = {}"

definition told :: "(pq_call \<Rightarrow> Want set) \<Rightarrow> (peer \<times> pq_call) list \<Rightarrow> peer \<Rightarrow> Want set" where
  "told f calls p = (\<Union>c \<in> snd ` {pc \<in> set calls. fst pc = p}. f c)"

fun spec_blocks :: "pwm_op \<Rightarrow> want_view \<Rightarrow> peer \<Rightarrow> Want set" where
  "spec_blocks (Send p wbs whs) v q = (if q = p \<and> p \<in> v_peers v then set wbs - v_blocks v p else {})"
| "spec_blocks _ v q = {}"

fun spec_haves :: "pwm_op \<Rightarrow> want_view \<Rightarrow> peer \<Rightarrow> Want set" where
  "spec_haves (AddPeer p) v q = (if q = p \<and> p \<notin> v_peers v then v_bcast v else {})"
| "spec_haves (Broadcast ws) v q =
     (if q \<in> v_peers v then set ws - v_bcast v - (v_blocks v q \<union> v_haves v q) else {})"
| "spec_haves (Send p wbs whs) v q =
     (if q = p \<and> p \<in> v_peers v
      then set whs - set wbs - (v_blocks v p \<union> v_haves v p) - v_bcast v else {})"
| "spec_haves _ v q = {}"

fun spec_cancels :: "pwm_op \<Rightarrow> want_view \<Rightarrow> peer \<Rightarrow> Want set" where
  "spec_cancels (Cancel cs) v q =
     (if q \<in> v_peers v then set cs \<inter> (v_bcast v \<union> v_blocks v q \<union> v_haves v q) else {})"
| "spec_cancels _ v q = {}"

lemma told_Nil [simp]: "told f [] p = {}"
  by (simp add: told_def)

lemma told_single [simp]: "told f [(q, c)] p = (if p = q then f c else {})"
  by (auto simp: told_def)

lemma told_guarded:
  "told f (concat (map (\<lambda>p. if P p then [(p, g p)] else []) ps)) q =
     (if q \<in> set ps \<and> P q then f (g q) else {})"
  by (auto simp: told_def split: if_splits)

section \<open>The manager implements the view\<close>

lemma view_addPeer: "view (fst (addPeer itw p pwm)) = spec_op (AddPeer p) (view pwm)"
  by (simp add: view_def)

lemma view_removePeer:
  assumes "iterates itw" and "iterates itp" and "pwm_inv pwm"
  shows "view (removePeer itw itp p pwm) = spec_op (RemovePeer p) (view pwm)"
proof -
  let ?s = "removePeer itw itp p pwm"
  have e: "peerWants ?s = (peerWants pwm)(p := None)" "broadcastWants ?s = broadcastWants pwm"
    using removePeer_effect [OF assms, of p] by blast+
  have "blocks_to ?s = (blocks_to pwm)(p := {})" "haves_to ?s = (haves_to pwm)(p := {})"
    by (simp_all add: blocks_to_def haves_to_def fun_eq_iff e(1))
  then show ?thesis by (simp add: view_def e)
qed

lemma view_broadcast:
  "view (fst (broadcastWantHaves itp ws pwm)) = spec_op (Broadcast ws) (view pwm)"
proof -
  obtain s calls where r: "broadcastWantHaves itp ws pwm = (s, calls)" by fastforce
  note e = broadcastWantHaves_effect [OF r]
  show ?thesis by (simp add: view_def r e(1,3) to_cong [OF e(1)])
qed

lemma view_sendWants:
  assumes "iterates itp" and "pwm_inv pwm"
  shows "view (fst (sendWants itp p wbs whs pwm)) = spec_op (Send p wbs whs) (view pwm)"
proof (cases "peerWants pwm p")
  case None
  then show ?thesis by (auto simp: sendWants_def view_def)
next
  case (Some pws)
  then have p: "peerWants pwm p \<noteq> None" by simp
  obtain s calls where r: "sendWants itp p wbs whs pwm = (s, calls)" by fastforce
  show ?thesis
    by (rule sendWants_effect [OF assms p r]) (use Some in \<open>auto simp: view_def r\<close>)
qed

lemma view_sendCancels:
  assumes "iterates itp" and "distinct cs" and "pwm_inv pwm"
  shows "view (fst (sendCancels itp cs pwm)) = spec_op (Cancel cs) (view pwm)"
proof -
  obtain s calls where r: "sendCancels itp cs pwm = (s, calls)" by fastforce
  show ?thesis using sendCancels_effect [OF assms r] by (auto simp: view_def r)
qed

lemma told_broadcast:
  assumes it: "iterates itp" and fin: "finite (dom (peerWants pwm))"
    and f: "f (AddBroadcastWantHaves []) = {}"
  shows "told f (snd (broadcastWantHaves itp ws pwm)) q =
    (if q \<in> dom (peerWants pwm)
     then f (AddBroadcastWantHaves (broadcast_unsent pwm (snd (fold broadcast_want ws (pwm, []))) q))
     else {})"
proof -
  obtain s calls where r: "broadcastWantHaves itp ws pwm = (s, calls)" by fastforce
  show ?thesis
    unfolding told_def r
    using broadcastWantHaves_calls(1) [OF it fin r, of q] f by (auto simp: image_iff)
qed

lemma set_broadcast_unsent:
  assumes "p \<in> dom (peerWants pwm)"
  shows "set (broadcast_unsent pwm (snd (fold broadcast_want ws (pwm, []))) p) =
    set ws - broadcastWants pwm - sent_to pwm p"
proof -
  obtain s u where l: "fold broadcast_want ws (pwm, []) = (s, u)" by fastforce
  show ?thesis using broadcast_loop [OF l] assms by (auto simp: l broadcast_unsent_def to_Some)
qed

lemma told_sendCancels:
  assumes it: "iterates itp" and dcs: "distinct cs" and inv: "pwm_inv pwm"
    and f: "f (AddCancels []) = {}"
  shows "told f (snd (sendCancels itp cs pwm)) q =
    (if q \<in> dom (peerWants pwm) then f (AddCancels (cancels_to pwm cs q)) else {})"
proof -
  obtain s calls where r: "sendCancels itp cs pwm = (s, calls)" by fastforce
  from inv have wf: "pwm_wf pwm" by (simp add: pwm_inv_def)
  have "told f calls q =
    (if q \<in> set (cancel_targets itp cs pwm) \<and> cancels_to pwm cs q \<noteq> []
     then f (AddCancels (cancels_to pwm cs q)) else {})"
    unfolding sendCancels_effect(5) [OF it dcs inv r] by (rule told_guarded)
  with f cancel_targets_ok(2) [OF it wf, of cs] cancel_targets_ok(4) [OF it wf, of cs q]
  show ?thesis by (cases "cancels_to pwm cs q = []") (auto simp: r)
qed

lemma told_sendWants:
  assumes it: "iterates itp" and inv: "pwm_inv pwm"
  shows "told call_blocks (snd (sendWants itp p wbs whs pwm)) q = spec_blocks (Send p wbs whs) (view pwm) q"
    and "told call_haves (snd (sendWants itp p wbs whs pwm)) q = spec_haves (Send p wbs whs) (view pwm) q"
    and "told call_cancels (snd (sendWants itp p wbs whs pwm)) q = {}"
proof -
  obtain s calls where r: "sendWants itp p wbs whs pwm = (s, calls)" by fastforce
  have "told call_blocks calls q = spec_blocks (Send p wbs whs) (view pwm) q \<and>
    told call_haves calls q = spec_haves (Send p wbs whs) (view pwm) q \<and>
    told call_cancels calls q = {}"
  proof (cases "peerWants pwm p")
    case None
    with r show ?thesis by (auto simp: sendWants_def view_def)
  next
    case (Some pws)
    then have p: "peerWants pwm p \<noteq> None" by simp
    show ?thesis
      by (rule sendWants_effect [OF it inv p r]) (use Some in \<open>auto simp: view_def\<close>)
  qed
  then show "told call_blocks (snd (sendWants itp p wbs whs pwm)) q = spec_blocks (Send p wbs whs) (view pwm) q"
    and "told call_haves (snd (sendWants itp p wbs whs pwm)) q = spec_haves (Send p wbs whs) (view pwm) q"
    and "told call_cancels (snd (sendWants itp p wbs whs pwm)) q = {}"
    by (simp_all add: r)
qed

lemma told_addPeer:
  assumes "iterates itw" and "finite (broadcastWants pwm)"
  shows "told f (snd (addPeer itw p pwm)) q =
    (if q = p \<and> p \<notin> dom (peerWants pwm) \<and> broadcastWants pwm \<noteq> {}
     then f (AddBroadcastWantHaves (itw (broadcastWants pwm))) else {})"
  using assms by (auto simp: addPeer_def card_gt_0_iff split: option.splits)

lemma pwm_apply_view:
  assumes "iterates itw" and "iterates itp" and "op_ok op" and "pwm_inv pwm"
  shows "view (fst (pwm_apply itw itp op pwm)) = spec_op op (view pwm)"
  using assms
  by (cases op) (simp_all only: pwm_apply.simps fst_conv view_addPeer view_removePeer view_broadcast
      view_sendWants view_sendCancels op_ok.simps)

lemma pwm_apply_told:
  assumes it: "iterates itw" "iterates itp" and ok: "op_ok op" and inv: "pwm_inv pwm"
  shows "told call_blocks (snd (pwm_apply itw itp op pwm)) q = spec_blocks op (view pwm) q"
    and "told call_haves (snd (pwm_apply itw itp op pwm)) q = spec_haves op (view pwm) q"
    and "told call_cancels (snd (pwm_apply itw itp op pwm)) q = spec_cancels op (view pwm) q"
proof -
  from inv have fin: "finite (dom (peerWants pwm))" "finite (broadcastWants pwm)"
    by (auto simp: pwm_inv_def pwm_wf_def)
  note [simp] = told_addPeer [OF it(1) fin(2)] told_broadcast [OF it(2) fin(1)]
    told_sendCancels [OF it(2) _ inv] told_sendWants [OF it(2) inv]
    it fin view_def set_cancels_to set_broadcast_unsent
  show "told call_blocks (snd (pwm_apply itw itp op pwm)) q = spec_blocks op (view pwm) q"
    using ok by (cases op) simp_all
  show "told call_haves (snd (pwm_apply itw itp op pwm)) q = spec_haves op (view pwm) q"
    using ok by (cases op) auto
  show "told call_cancels (snd (pwm_apply itw itp op pwm)) q = spec_cancels op (view pwm) q"
    using ok by (cases op) auto
qed

section \<open>What every peer has been told\<close>

text \<open>The want-blocks, and all wants, a peer has been told and not been told to cancel. A peer that
disconnects starts again with nothing.\<close>

type_synonym remote = "peer \<Rightarrow> Want set \<times> Want set"

definition remote_op :: "pwm_op \<Rightarrow> (peer \<times> pq_call) list \<Rightarrow> remote \<Rightarrow> remote" where
  "remote_op op calls rem q =
     (let (b, w) = (if op = RemovePeer q then ({}, {}) else rem q);
          c = told call_cancels calls q
      in ((b \<union> told call_blocks calls q) - c,
          (w \<union> told call_blocks calls q \<union> told call_haves calls q) - c))"

inductive pwm_run ::
  "(Want set \<Rightarrow> Want list) \<Rightarrow> (peer set \<Rightarrow> peer list) \<Rightarrow> peerWantManager \<Rightarrow> remote \<Rightarrow> bool"
  for itw itp where
  run_new: "pwm_run itw itp newPeerWantManager (\<lambda>_. ({}, {}))"
| run_op: "pwm_run itw itp pwm rem \<Longrightarrow> op_ok op \<Longrightarrow>
    pwm_run itw itp (fst (pwm_apply itw itp op pwm)) (remote_op op (snd (pwm_apply itw itp op pwm)) rem)"

definition remote_ok :: "want_view \<Rightarrow> remote \<Rightarrow> bool" where
  "remote_ok v rem \<longleftrightarrow>
     (\<forall>q. (q \<in> v_peers v \<longrightarrow> rem q = (v_blocks v q, v_blocks v q \<union> v_haves v q \<union> v_bcast v)) \<and>
          (q \<notin> v_peers v \<longrightarrow> rem q = ({}, {}) \<and> v_blocks v q = {} \<and> v_haves v q = {}))"

lemma remote_ok_step:
  assumes "remote_ok v rem" and "iterates itw" and "iterates itp" and "op_ok op" and "pwm_inv pwm"
    and "v = view pwm"
  shows "remote_ok (spec_op op v) (remote_op op (snd (pwm_apply itw itp op pwm)) rem)"
proof -
  note told = pwm_apply_told [OF assms(2-5), folded assms(6)]
  show ?thesis
    using assms(1) unfolding remote_ok_def remote_op_def told
    by (cases op) (auto simp: Let_def)
qed

lemma pwm_run_ok:
  assumes "pwm_run itw itp pwm rem" and "iterates itw" and "iterates itp"
  shows "pwm_inv pwm \<and> remote_ok (view pwm) rem"
  using assms
proof (induction rule: pwm_run.induct)
  case run_new
  then show ?case
    using pwm_inv_new
    by (auto simp: remote_ok_def view_def blocks_to_def haves_to_def newPeerWantManager_def)
next
  case (run_op pwm rem op)
  then show ?case
    using remote_ok_step [of "view pwm" rem itw itp op pwm]
    by (auto simp: pwm_apply_view intro: pwm_apply_inv)
qed

text \<open>What is recorded as told to a peer changes by what the calls tell it.\<close>

definition recorded :: "want_view \<Rightarrow> peer \<Rightarrow> Want set" where
  "recorded v p = v_blocks v p \<union> v_haves v p \<union> v_bcast v"

lemma recorded_step:
  "p \<in> v_peers v \<Longrightarrow> op \<noteq> RemovePeer p \<Longrightarrow>
     recorded (spec_op op v) p =
       (recorded v p \<union> spec_blocks op v p \<union> spec_haves op v p) - spec_cancels op v p"
  by (cases op) (auto simp: recorded_def)

lemma spec_adds_or_cancels:
  "spec_cancels op v p = {} \<or> spec_blocks op v q = {} \<and> spec_haves op v q = {}"
  by (cases op) auto

section \<open>Properties\<close>

text \<open>C2. In every state the manager can reach by connecting and disconnecting peers, broadcasting,
sending wants and cancelling, each connected peer has been told, through the calls made on its
queue since it connected and net of the cancels, exactly the want-blocks recorded for it, and exactly
the wants recorded for it together with the broadcast wants.\<close>

theorem peers_told_exactly:
  assumes "iterates itw" and "iterates itp" and "pwm_run itw itp pwm rem"
    and "peerWants pwm p \<noteq> None"
  shows "rem p = (blocks_to pwm p, blocks_to pwm p \<union> haves_to pwm p \<union> broadcastWants pwm)"
  using pwm_run_ok [OF assms(3,1,2)] assms(4) by (auto simp: remote_ok_def view_def)

text \<open>C18. In every reachable state the reverse index lists for each want exactly the peers it was sent
to and has no empty entries, no want is both a want-block and a want-have of one peer, and the two
gauges equal the number of distinct wants (broadcast wants included) and of distinct want-blocks.\<close>

theorem pwm_reachable_invariant:
  assumes "iterates itw" and "iterates itp" and "pwm_run itw itp pwm rem"
  shows "(\<forall>w. lookup_set (wantPeers pwm) w = {p. w \<in> sent_to pwm p}) \<and>
    (\<forall>w. wantPeers pwm w \<noteq> Some {}) \<and>
    (\<forall>p. blocks_to pwm p \<inter> haves_to pwm p = {}) \<and>
    wantGauge pwm = int (card (all_wants pwm)) \<and> wantBlockGauge pwm = int (card (all_blocks pwm))"
  using pwm_run_ok [OF assms(3,1,2)]
  by (auto simp: pwm_inv_def pwm_wf_def pwm_gauges_def index_ok_def)

text \<open>C13. Refinement: on a state that satisfies the invariant each operation of the manager changes the
abstract view exactly as the contract says, and what its calls tell each peer (want-blocks,
want-haves and cancels) is the function of the abstract view the contract gives.\<close>

theorem pwm_refines_view:
  assumes "iterates itw" and "iterates itp" and "op_ok op" and "pwm_inv pwm"
    and "pwm_apply itw itp op pwm = (pwm', calls)"
  shows "view pwm' = spec_op op (view pwm) \<and>
    told call_blocks calls q = spec_blocks op (view pwm) q \<and>
    told call_haves calls q = spec_haves op (view pwm) q \<and>
    told call_cancels calls q = spec_cancels op (view pwm) q"
  using pwm_apply_view [OF assms(1-4)] pwm_apply_told [OF assms(1-4), of q] assms(5) by simp

text \<open>C23. Cancelling a repetition-free list of wants removes them from every peer's records and from the
broadcast wants, keeps the invariant, calls no peer twice and never with an empty list, and the
cancels sent to a connected peer are exactly the cancelled wants that were broadcast or sent to it.\<close>

theorem sendCancels_exact:
  assumes "iterates itp" and "distinct cs" and "pwm_inv pwm"
    and "sendCancels itp cs pwm = (s, calls)"
  shows "pwm_inv s \<and> all_wants s = all_wants pwm - set cs \<and> distinct (map fst calls) \<and>
    (\<forall>p c. (p, c) \<in> set calls \<longleftrightarrow>
       p \<in> dom (peerWants pwm) \<and> cancels_to pwm cs p \<noteq> [] \<and> c = AddCancels (cancels_to pwm cs p)) \<and>
    (\<forall>p. set (cancels_to pwm cs p) = set cs \<inter> (broadcastWants pwm \<union> sent_to pwm p))"
proof -
  note e = sendCancels_effect [OF assms]
  from assms(3) have wf: "pwm_wf pwm" by (simp add: pwm_inv_def)
  note t = cancel_targets_ok [OF assms(1) wf, where cs = cs]
  have "all_wants s = all_wants pwm - set cs" by (auto simp: all_wants_def e(2,3,4))
  moreover have "distinct (map fst calls)" using t(1) by (simp add: e(5) map_fst_guarded)
  moreover have "(p, c) \<in> set calls \<longleftrightarrow>
      p \<in> dom (peerWants pwm) \<and> cancels_to pwm cs p \<noteq> [] \<and> c = AddCancels (cancels_to pwm cs p)" for p c
    using t(2) t(4) [of p] by (auto simp: e(5))
  ultimately show ?thesis using e(6) by (simp add: set_cancels_to)
qed

section \<open>A concrete run\<close>

abbreviation keys :: "Want set \<Rightarrow> Want list" where "keys \<equiv> sorted_list_of_set"
abbreviation peers :: "peer set \<Rightarrow> peer list" where "peers \<equiv> sorted_list_of_set"

abbreviation w1 :: Want where "w1 \<equiv> NewWant ''c1'' ''a1''"
abbreviation w2 :: Want where "w2 \<equiv> NewWant ''c2'' ''a2''"

definition run_step :: "pwm_op \<Rightarrow> peerWantManager \<times> remote \<Rightarrow> peerWantManager \<times> remote" where
  "run_step op st =
     (case pwm_apply keys peers op (fst st) of (s, calls) \<Rightarrow> (s, remote_op op calls (snd st)))"

definition run_ops :: "pwm_op list \<Rightarrow> peerWantManager \<times> remote" where
  "run_ops ops = fold run_step ops (newPeerWantManager, \<lambda>_. ({}, {}))"

lemma run_ops_reachable:
  assumes "\<forall>op \<in> set ops. op_ok op"
  shows "pwm_run keys peers (fst (run_ops ops)) (snd (run_ops ops))"
proof -
  have "pwm_run keys peers (fst (fold run_step ops st)) (snd (fold run_step ops st))"
    if "\<forall>op \<in> set ops. op_ok op" and "pwm_run keys peers (fst st) (snd st)" for ops st
    using that
    by (induction ops arbitrary: st) (auto simp: run_step_def split: prod.splits dest: pwm_run.run_op)
  from this [OF assms] show ?thesis unfolding run_ops_def by (simp add: pwm_run.run_new)
qed

definition ex_ops :: "pwm_op list" where
  "ex_ops = [Broadcast [w1], AddPeer ''p'', Send ''p'' [w2] [w1]]"

lemmas pwm_exec =
  run_ops_def run_step_def ex_ops_def newPeerWantManager_def broadcastWantHaves_def
  broadcast_want_def addPeer_def sendWants_def sendWants_block_def sendWants_have_def
  wantPeerCounts_def cnts_wanted_def reverseIndexAdd_def Let_def NewWant_def

lemma ex_run_state:
  "peerWants (fst (run_ops ex_ops)) = [''p'' \<mapsto> \<lparr>wantBlocks = {w2}, wantHaves = {}\<rparr>] \<and>
   broadcastWants (fst (run_ops ex_ops)) = {w1} \<and> wantGauge (fst (run_ops ex_ops)) = 2"
  by (simp add: pwm_exec)

lemma ex_ops_ok: "\<forall>op \<in> set ex_ops. op_ok op"
  by (simp add: ex_ops_def)

theorem peers_told_exactly_witness:
  "snd (run_ops ex_ops) ''p'' = ({w2}, {w1, w2})"
  using peers_told_exactly [OF iterates_sorted_list_of_set iterates_sorted_list_of_set
      run_ops_reachable [OF ex_ops_ok], of "''p''"] ex_run_state
  by (auto simp: blocks_to_def haves_to_def)

theorem pwm_reachable_invariant_witness:
  "lookup_set (wantPeers (fst (run_ops ex_ops))) w2 = {''p''} \<and>
   card (all_wants (fst (run_ops ex_ops))) = 2"
proof -
  note inv = pwm_reachable_invariant [OF iterates_sorted_list_of_set iterates_sorted_list_of_set
      run_ops_reachable [OF ex_ops_ok]]
  have "{p. w2 \<in> sent_to (fst (run_ops ex_ops)) p} = {''p''}"
    using ex_run_state by (auto simp: blocks_to_def haves_to_def split: if_splits option.splits)
  with inv ex_run_state show ?thesis by simp
qed

lemma ex_run_inv: "pwm_inv (fst (run_ops ex_ops))"
  using pwm_run_ok [OF run_ops_reachable [OF ex_ops_ok]] by simp

theorem pwm_refines_view_witness:
  "view (fst (pwm_apply keys peers (Cancel [w2]) (fst (run_ops ex_ops)))) =
     spec_op (Cancel [w2]) (view (fst (run_ops ex_ops))) \<and>
   told call_cancels (snd (pwm_apply keys peers (Cancel [w2]) (fst (run_ops ex_ops)))) ''p'' = {w2}"
  using pwm_refines_view [OF iterates_sorted_list_of_set iterates_sorted_list_of_set _ ex_run_inv,
      of "Cancel [w2]" _ _ "''p''"] ex_run_state
  by (cases "pwm_apply keys peers (Cancel [w2]) (fst (run_ops ex_ops))")
    (auto simp: view_def blocks_to_def haves_to_def)

theorem sendCancels_exact_witness:
  "all_wants (fst (sendCancels peers [w1] (fst (run_ops ex_ops)))) = {w2} \<and>
   (''p'', AddCancels [w1]) \<in> set (snd (sendCancels peers [w1] (fst (run_ops ex_ops))))"
proof -
  obtain s calls where r: "sendCancels peers [w1] (fst (run_ops ex_ops)) = (s, calls)" by fastforce
  have "all_wants (fst (run_ops ex_ops)) - {w1} = {w2}"
    using ex_run_state
    by (auto simp: all_wants_def blocks_to_def haves_to_def NewWant_def split: if_splits option.splits)
  moreover have "cancels_to (fst (run_ops ex_ops)) [w1] ''p'' = [w1]"
    using ex_run_state by (simp add: cancels_to_def)
  ultimately show ?thesis
    using sendCancels_exact [OF iterates_sorted_list_of_set _ ex_run_inv r] ex_run_state r by simp
qed

end
