(* ===== verification/BlockPresence.thy ===== *)
theory BlockPresence
  imports Auth
begin

text \<open>
  Model of \<^verbatim>\<open>internal/blockpresencemanager/blockpresencemanager.go\<close>: which peers announced that they
  have, or do not have, a block. The history lemmas relate the map to the messages received since a
  key was last removed.
\<close>

section \<open>State and operations\<close>

record BlockPresenceManager =
  presence :: "cid \<rightharpoonup> (peer \<rightharpoonup> bool)"

definition bpm_New :: BlockPresenceManager where
  "bpm_New = \<lparr>presence = Map.empty\<rparr>"

text \<open>\<open>presence_of bpm c p\<close> is the Go expression \<^verbatim>\<open>bpm.presence[c][p]\<close>, where a missing inner map reads
as empty.\<close>

definition presence_of :: "BlockPresenceManager \<Rightarrow> cid \<Rightarrow> peer \<Rightarrow> bool option" where
  "presence_of bpm c p = (case presence bpm c of None \<Rightarrow> None | Some ps \<Rightarrow> ps p)"

definition updateBlockPresence ::
  "peer \<Rightarrow> cid \<Rightarrow> bool \<Rightarrow> BlockPresenceManager \<Rightarrow> BlockPresenceManager" where
  "updateBlockPresence p c present bpm =
     (let bpm1 = (case presence bpm c of
                    None \<Rightarrow> bpm\<lparr>presence := (presence bpm)(c \<mapsto> Map.empty)\<rparr>
                  | Some _ \<Rightarrow> bpm)
      in if presence_of bpm1 c p = Some True then bpm1
         else bpm1\<lparr>presence := (presence bpm1)(c \<mapsto> (the (presence bpm1 c))(p \<mapsto> present))\<rparr>)"

definition bpm_ReceiveFrom ::
  "peer \<Rightarrow> Want list \<Rightarrow> Want list \<Rightarrow> BlockPresenceManager \<Rightarrow> BlockPresenceManager" where
  "bpm_ReceiveFrom p haves dontHaves bpm =
     (let bpm1 = fold (\<lambda>w. updateBlockPresence p (want_Cid w) True) haves bpm
      in fold (\<lambda>w. updateBlockPresence p (want_Cid w) False) dontHaves bpm1)"

definition PeerHasBlock :: "BlockPresenceManager \<Rightarrow> peer \<Rightarrow> cid \<Rightarrow> bool" where
  "PeerHasBlock bpm p c \<longleftrightarrow> (case presence_of bpm c p of Some b \<Rightarrow> b | None \<Rightarrow> False)"

definition PeerDoesNotHaveBlock :: "BlockPresenceManager \<Rightarrow> peer \<Rightarrow> cid \<Rightarrow> bool" where
  "PeerDoesNotHaveBlock bpm p c \<longleftrightarrow> (case presence_of bpm c p of Some b \<Rightarrow> \<not> b | None \<Rightarrow> False)"

fun allDontHave_loop :: "(peer \<rightharpoonup> bool) \<Rightarrow> peer list \<Rightarrow> bool" where
  "allDontHave_loop ps [] \<longleftrightarrow> True"
| "allDontHave_loop ps (p # rest) \<longleftrightarrow>
     (case ps p of
        None \<Rightarrow> False
      | Some has \<Rightarrow> if has then False else allDontHave_loop ps rest)"

definition allDontHave :: "BlockPresenceManager \<Rightarrow> peer list \<Rightarrow> cid \<Rightarrow> bool" where
  "allDontHave bpm ps c \<longleftrightarrow>
     (case presence bpm c of None \<Rightarrow> False | Some m \<Rightarrow> allDontHave_loop m ps)"

definition AllPeersDoNotHaveBlock :: "BlockPresenceManager \<Rightarrow> peer list \<Rightarrow> Want list \<Rightarrow> Want list" where
  "AllPeersDoNotHaveBlock bpm ps ws = filter (\<lambda>w. allDontHave bpm ps (want_Cid w)) ws"

definition RemoveKeys :: "Want list \<Rightarrow> BlockPresenceManager \<Rightarrow> BlockPresenceManager" where
  "RemoveKeys ws bpm = bpm\<lparr>presence := fold (\<lambda>w m. m(want_Cid w := None)) ws (presence bpm)\<rparr>"

definition HasKey :: "BlockPresenceManager \<Rightarrow> cid \<Rightarrow> bool" where
  "HasKey bpm c \<longleftrightarrow> presence bpm c \<noteq> None"

section \<open>Behaviour of one operation\<close>

lemma presence_of_new [simp]: "presence_of bpm_New c p = None"
  by (simp add: presence_of_def bpm_New_def)

lemma presence_of_update:
  "presence_of (updateBlockPresence p c b bpm) c' p' =
     (if c' = c \<and> p' = p
      then (if presence_of bpm c p = Some True then Some True else Some b)
      else presence_of bpm c' p')"
  by (auto simp: updateBlockPresence_def presence_of_def Let_def split: option.splits)

lemma presence_of_updates:
  "presence_of (fold (\<lambda>w. updateBlockPresence p (want_Cid w) b) ws bpm) c p' =
     (if p' = p \<and> c \<in> want_Cid ` set ws
      then (if presence_of bpm c p = Some True then Some True else Some b)
      else presence_of bpm c p')"
  by (induction ws arbitrary: bpm) (auto simp: presence_of_update)

lemma presence_of_ReceiveFrom:
  "presence_of (bpm_ReceiveFrom p hs ds bpm) c q =
     (if q \<noteq> p then presence_of bpm c q
      else if c \<in> want_Cid ` set hs \<or> presence_of bpm c p = Some True then Some True
      else if c \<in> want_Cid ` set ds then Some False
      else presence_of bpm c p)"
  by (auto simp: bpm_ReceiveFrom_def presence_of_updates Let_def)

lemma presence_RemoveKeys: "presence (RemoveKeys ws bpm) = presence bpm |` (- (want_Cid ` set ws))"
proof -
  have "fold (\<lambda>w m. m(want_Cid w := None)) ws m = m |` (- (want_Cid ` set ws))" for m :: "cid \<rightharpoonup> (peer \<rightharpoonup> bool)"
    by (induction ws arbitrary: m) (auto simp: restrict_map_def fun_eq_iff)
  then show ?thesis by (simp add: RemoveKeys_def)
qed

lemma presence_of_RemoveKeys:
  "presence_of (RemoveKeys ws bpm) c p = (if c \<in> want_Cid ` set ws then None else presence_of bpm c p)"
  by (simp add: presence_of_def presence_RemoveKeys restrict_map_def)

lemma allDontHave_loop_iff: "allDontHave_loop m ps \<longleftrightarrow> (\<forall>p \<in> set ps. m p = Some False)"
  by (induction ps) (auto split: option.splits)

lemma HasKey_simps:
  "HasKey (updateBlockPresence p c b bpm) c' \<longleftrightarrow> c' = c \<or> HasKey bpm c'"
  "HasKey (RemoveKeys ws bpm) c \<longleftrightarrow> HasKey bpm c \<and> c \<notin> want_Cid ` set ws"
  by (auto simp: HasKey_def updateBlockPresence_def presence_RemoveKeys restrict_map_def Let_def
      split: option.splits)

lemma AllPeersDoNotHave_iff:
  "w \<in> set (AllPeersDoNotHaveBlock bpm ps ws) \<longleftrightarrow>
     w \<in> set ws \<and> HasKey bpm (want_Cid w) \<and> (\<forall>p \<in> set ps. PeerDoesNotHaveBlock bpm p (want_Cid w))"
  by (auto simp: AllPeersDoNotHaveBlock_def allDontHave_def allDontHave_loop_iff HasKey_def
      PeerDoesNotHaveBlock_def presence_of_def split: option.splits)

section \<open>History\<close>

datatype bpm_event = Received peer "Want list" "Want list" | Removed "Want list"

fun bpm_apply :: "bpm_event \<Rightarrow> BlockPresenceManager \<Rightarrow> BlockPresenceManager" where
  "bpm_apply (Received p hs ds) bpm = bpm_ReceiveFrom p hs ds bpm"
| "bpm_apply (Removed ws) bpm = RemoveKeys ws bpm"

definition bpm_run :: "bpm_event list \<Rightarrow> BlockPresenceManager" where
  "bpm_run evs = fold bpm_apply evs bpm_New"

text \<open>The events since the key \<open>c\<close> was last removed, oldest first.\<close>

definition since_removed :: "cid \<Rightarrow> bpm_event list \<Rightarrow> bpm_event list" where
  "since_removed c evs =
     rev (takeWhile (\<lambda>e. case e of Removed ws \<Rightarrow> c \<notin> want_Cid ` set ws | _ \<Rightarrow> True) (rev evs))"

definition said_have :: "peer \<Rightarrow> cid \<Rightarrow> bpm_event list \<Rightarrow> bool" where
  "said_have p c evs \<longleftrightarrow> (\<exists>hs ds. Received p hs ds \<in> set evs \<and> c \<in> want_Cid ` set hs)"

definition said_dont_have :: "peer \<Rightarrow> cid \<Rightarrow> bpm_event list \<Rightarrow> bool" where
  "said_dont_have p c evs \<longleftrightarrow> (\<exists>hs ds. Received p hs ds \<in> set evs \<and> c \<in> want_Cid ` set ds)"

lemma since_removed_snoc:
  "since_removed c (evs @ [e]) =
     (case e of Removed ws \<Rightarrow> if c \<in> want_Cid ` set ws then [] else since_removed c evs @ [e]
      | Received _ _ _ \<Rightarrow> since_removed c evs @ [e])"
  by (auto simp: since_removed_def split: bpm_event.splits)

lemma said_append [simp]:
  "said_have p c [] = False" "said_dont_have p c [] = False"
  "said_have p c (evs @ [Removed ws]) = said_have p c evs"
  "said_dont_have p c (evs @ [Removed ws]) = said_dont_have p c evs"
  "said_have p c (evs @ [Received q hs ds]) \<longleftrightarrow> said_have p c evs \<or> (q = p \<and> c \<in> want_Cid ` set hs)"
  "said_dont_have p c (evs @ [Received q hs ds]) \<longleftrightarrow>
     said_dont_have p c evs \<or> (q = p \<and> c \<in> want_Cid ` set ds)"
  by (auto simp: said_have_def said_dont_have_def)

lemma presence_of_run:
  "presence_of (bpm_run evs) c p =
     (if said_have p c (since_removed c evs) then Some True
      else if said_dont_have p c (since_removed c evs) then Some False else None)"
proof (induction evs rule: rev_induct)
  case Nil
  show ?case by (simp add: bpm_run_def since_removed_def)
next
  case (snoc e evs)
  then show ?case
    by (cases e) (auto simp: bpm_run_def since_removed_snoc presence_of_ReceiveFrom
        presence_of_RemoveKeys split: if_splits)
qed

section \<open>Properties\<close>

text \<open>C26. After any sequence of received announcements and key removals, \<^verbatim>\<open>PeerHasBlock\<close> answers true
exactly when the peer announced a HAVE for the cid since the cid was last removed, and
\<^verbatim>\<open>PeerDoesNotHaveBlock\<close> exactly when it announced a DONT\_HAVE and no HAVE since then: a HAVE is never
overwritten by a DONT\_HAVE.\<close>

theorem presence_is_history:
  "(PeerHasBlock (bpm_run evs) p c \<longleftrightarrow> said_have p c (since_removed c evs)) \<and>
   (PeerDoesNotHaveBlock (bpm_run evs) p c \<longleftrightarrow>
      said_dont_have p c (since_removed c evs) \<and> \<not> said_have p c (since_removed c evs))"
  by (auto simp: PeerHasBlock_def PeerDoesNotHaveBlock_def presence_of_run)

end
