(* ===== verification/SessionInterest.thy ===== *)
theory SessionInterest
  imports Auth
begin

text \<open>
  Model of \<^verbatim>\<open>internal/sessioninterestmanager/sessioninterestmanager.go\<close>: which session is interested in
  which want and whether it still wants the block. The lists of keys it returns are the ones the
  session manager cancels, so they are shown to be without repetitions and to be exactly the keys no
  session is interested in any more.
\<close>

section \<open>State and operations\<close>

type_synonym session_id = uint64

record SessionInterestManager =
  sim_wants :: "Want \<rightharpoonup> (session_id \<rightharpoonup> bool)"

definition sim_New :: SessionInterestManager where
  "sim_New = \<lparr>sim_wants = Map.empty\<rparr>"

text \<open>\<open>interest sim w ses\<close> is the Go expression \<^verbatim>\<open>sim.wants[w][ses]\<close>.\<close>

definition interest :: "SessionInterestManager \<Rightarrow> Want \<Rightarrow> session_id \<Rightarrow> bool option" where
  "interest sim w ses = (case sim_wants sim w of None \<Rightarrow> None | Some m \<Rightarrow> m ses)"

lemma interest_New [simp]: "interest sim_New w s = None"
  by (simp add: interest_def sim_New_def)

definition record_interest :: "session_id \<Rightarrow> Want \<Rightarrow> SessionInterestManager \<Rightarrow> SessionInterestManager" where
  "record_interest ses w sim =
     (case sim_wants sim w of
        Some want \<Rightarrow> sim\<lparr>sim_wants := (sim_wants sim)(w \<mapsto> want(ses \<mapsto> True))\<rparr>
      | None \<Rightarrow> sim\<lparr>sim_wants := (sim_wants sim)(w \<mapsto> [ses \<mapsto> True])\<rparr>)"

definition RecordSessionInterest ::
  "session_id \<Rightarrow> Want list \<Rightarrow> SessionInterestManager \<Rightarrow> SessionInterestManager" where
  "RecordSessionInterest ses ks sim = fold (record_interest ses) ks sim"

text \<open>The common body of the two removal loops: take the session off one known key and report the key
when no session is left. \<open>dom m = {}\<close> is \<^verbatim>\<open>len(m) == 0\<close>.\<close>

definition drop_interest ::
  "session_id \<Rightarrow> Want \<Rightarrow> SessionInterestManager \<times> Want list \<Rightarrow> SessionInterestManager \<times> Want list" where
  "drop_interest ses w st =
     (case st of (sim, deletedKs) \<Rightarrow>
        case sim_wants sim w of
          None \<Rightarrow> st
        | Some m \<Rightarrow>
            let m1 = m(ses := None);
                sim1 = sim\<lparr>sim_wants := (sim_wants sim)(w \<mapsto> m1)\<rparr>
            in if dom m1 = {}
               then (sim1\<lparr>sim_wants := (sim_wants sim1)(w := None)\<rparr>, deletedKs @ [w])
               else (sim1, deletedKs))"

definition RemoveSession ::
  "(Want set \<Rightarrow> Want list) \<Rightarrow> session_id \<Rightarrow> SessionInterestManager \<Rightarrow> SessionInterestManager \<times> Want list" where
  "RemoveSession itw ses sim = fold (drop_interest ses) (itw (dom (sim_wants sim))) (sim, [])"

definition unwant :: "session_id \<Rightarrow> Want \<Rightarrow> SessionInterestManager \<Rightarrow> SessionInterestManager" where
  "unwant ses c sim =
     (case sim_wants sim c of
        None \<Rightarrow> sim
      | Some m \<Rightarrow>
          if m ses = Some True
          then sim\<lparr>sim_wants := (sim_wants sim)(c \<mapsto> m(ses \<mapsto> False))\<rparr>
          else sim)"

definition RemoveSessionWants ::
  "session_id \<Rightarrow> Want list \<Rightarrow> SessionInterestManager \<Rightarrow> SessionInterestManager" where
  "RemoveSessionWants ses ks sim = fold (unwant ses) ks sim"

definition RemoveSessionInterested ::
  "session_id \<Rightarrow> Want list \<Rightarrow> SessionInterestManager \<Rightarrow> SessionInterestManager \<times> Want list" where
  "RemoveSessionInterested ses ws sim = fold (drop_interest ses) ws (sim, [])"

definition FilterSessionInterested ::
  "SessionInterestManager \<Rightarrow> session_id \<Rightarrow> Want list list \<Rightarrow> Want list list" where
  "FilterSessionInterested sim ses ksets = map (filter (\<lambda>c. interest sim c ses \<noteq> None)) ksets"

text \<open>The set of wanted keys of \<^verbatim>\<open>SplitWantedUnwanted\<close>: its two nested loops.\<close>

definition wanted_keys ::
  "(session_id set \<Rightarrow> session_id list) \<Rightarrow> SessionInterestManager \<Rightarrow> AuthBlockImpl list \<Rightarrow> wset" where
  "wanted_keys its sim blks =
     fold (\<lambda>b wantedKs.
             let w = AuthBlock_Want b
             in case sim_wants sim w of
                  None \<Rightarrow> wantedKs
                | Some m \<Rightarrow>
                    fold (\<lambda>ses ks. if m ses = Some True then Set_Add w ks else ks) (its (dom m)) wantedKs)
       blks NewSet"

definition SplitWantedUnwanted ::
  "(session_id set \<Rightarrow> session_id list) \<Rightarrow> SessionInterestManager \<Rightarrow> AuthBlockImpl list
     \<Rightarrow> AuthBlockImpl list \<times> AuthBlockImpl list" where
  "SplitWantedUnwanted its sim blks =
     (let wantedKs = wanted_keys its sim blks
      in (filter (\<lambda>b. Set_Has wantedKs (AuthBlock_Want b)) blks,
          filter (\<lambda>b. \<not> Set_Has wantedKs (AuthBlock_Want b)) blks))"

definition InterestedSessions ::
  "(session_id set \<Rightarrow> session_id list) \<Rightarrow> SessionInterestManager
     \<Rightarrow> Want list \<Rightarrow> Want list \<Rightarrow> Want list \<Rightarrow> session_id list" where
  "InterestedSessions its sim blks haves dontHaves =
     (let ks = blks @ haves @ dontHaves;
          sesSet = fold (\<lambda>c S. case sim_wants sim c of None \<Rightarrow> S | Some m \<Rightarrow> S \<union> dom m) ks {}
      in its sesSet)"

section \<open>The invariant\<close>

text \<open>A key is present only while some session is interested, and only finitely many are.\<close>

definition sim_wf :: "SessionInterestManager \<Rightarrow> bool" where
  "sim_wf sim \<longleftrightarrow>
     finite (dom (sim_wants sim)) \<and>
     (\<forall>w m. sim_wants sim w = Some m \<longrightarrow> dom m \<noteq> {} \<and> finite (dom m))"

definition sessions_of :: "SessionInterestManager \<Rightarrow> Want \<Rightarrow> session_id set" where
  "sessions_of sim w = {s. interest sim w s \<noteq> None}"

lemma sim_wf_new: "sim_wf sim_New"
  by (simp add: sim_wf_def sim_New_def)

lemma sim_wf_known: "sim_wf sim \<Longrightarrow> sim_wants sim w \<noteq> None \<longleftrightarrow> sessions_of sim w \<noteq> {}"
  by (cases "sim_wants sim w") (auto simp: sim_wf_def sessions_of_def interest_def dom_def)

lemma sessions_of_finite [simp]: "sim_wf sim \<Longrightarrow> finite (sessions_of sim w)"
  by (auto simp: sim_wf_def sessions_of_def interest_def dom_def split: option.splits)

lemma record_interest_wf [inv_intros]: "sim_wf sim \<Longrightarrow> sim_wf (record_interest ses w sim)"
  by (auto simp: sim_wf_def record_interest_def split: option.splits if_splits)

lemma record_interest_interest:
  "interest (record_interest ses w sim) v s = (if v = w \<and> s = ses then Some True else interest sim v s)"
  by (auto simp: record_interest_def interest_def split: option.splits)

lemma RecordSessionInterest_wf [inv_intros]: "sim_wf sim \<Longrightarrow> sim_wf (RecordSessionInterest ses ks sim)"
  unfolding RecordSessionInterest_def by (rule fold_invariant [where P = sim_wf]) (auto intro: inv_intros)

lemma RecordSessionInterest_interest:
  "interest (RecordSessionInterest ses ks sim) v s =
     (if v \<in> set ks \<and> s = ses then Some True else interest sim v s)"
  unfolding RecordSessionInterest_def
  by (induction ks arbitrary: sim) (auto simp: record_interest_interest)

lemma unwant_wf [inv_intros]: "sim_wf sim \<Longrightarrow> sim_wf (unwant ses w sim)"
  by (auto simp: sim_wf_def unwant_def split: option.splits if_splits)

lemma unwant_interest:
  "interest (unwant ses w sim) v s =
     (if v = w \<and> s = ses then map_option (\<lambda>_. False) (interest sim v s) else interest sim v s)"
  by (auto simp: unwant_def interest_def map_option_case split: option.splits)

lemma RemoveSessionWants_wf [inv_intros]: "sim_wf sim \<Longrightarrow> sim_wf (RemoveSessionWants ses ks sim)"
  unfolding RemoveSessionWants_def by (rule fold_invariant [where P = sim_wf]) (auto intro: inv_intros)

lemma RemoveSessionWants_interest:
  "interest (RemoveSessionWants ses ks sim) v s =
     (if v \<in> set ks \<and> s = ses then map_option (\<lambda>_. False) (interest sim v s) else interest sim v s)"
  unfolding RemoveSessionWants_def
  by (induction ks arbitrary: sim) (auto simp: unwant_interest option.map_comp comp_def)

section \<open>Removal\<close>

lemma drop_interest_step:
  assumes wf: "sim_wf sim" and st: "drop_interest ses w (sim, ks) = (sim', ks')"
  shows "sim_wf sim'"
    and "interest sim' = (interest sim)(w := (interest sim w)(ses := None))"
    and "ks' = (if sessions_of sim w = {ses} then ks @ [w] else ks)"
proof -
  have "sim_wf sim' \<and> interest sim' = (interest sim)(w := (interest sim w)(ses := None)) \<and>
    ks' = (if sessions_of sim w = {ses} then ks @ [w] else ks)"
  proof (cases "sim_wants sim w")
    case None
    then show ?thesis using wf st
      by (auto simp: drop_interest_def interest_def sessions_of_def fun_eq_iff)
  next
    case (Some m)
    have m: "dom m \<noteq> {}" "finite (dom m)" "sessions_of sim w = dom m" "interest sim w = m"
      using wf Some by (auto simp: sim_wf_def sessions_of_def interest_def)
    then have eq: "dom (m(ses := None)) = {} \<longleftrightarrow> dom m = {ses}" by auto
    have int: "interest (sim\<lparr>sim_wants := (sim_wants sim)(w := x)\<rparr>) =
        (interest sim)(w := (case x of None \<Rightarrow> Map.empty | Some m \<Rightarrow> m))" for x
      by (auto simp: interest_def fun_eq_iff split: option.splits)
    show ?thesis
    proof (cases "dom m = {ses}")
      case True
      then have "m(ses := None) = Map.empty" using eq dom_eq_empty_conv by blast
      with True st Some eq m have "sim' = sim\<lparr>sim_wants := (sim_wants sim)(w := None)\<rparr>"
        "ks' = ks @ [w]"
        by (auto simp: drop_interest_def Let_def)
      then show ?thesis using True wf m \<open>m(ses := None) = Map.empty\<close>
        by (auto simp: int sim_wf_def split: if_splits)
    next
      case False
      then have "dom (m(ses := None)) \<noteq> {}" using eq by simp
      with st Some have "sim' = sim\<lparr>sim_wants := (sim_wants sim)(w \<mapsto> m(ses := None))\<rparr>"
        "ks' = ks"
        by (simp_all add: drop_interest_def Let_def del: dom_fun_upd dom_eq_empty_conv)
      moreover have "sim_wf (sim\<lparr>sim_wants := (sim_wants sim)(w \<mapsto> m(ses := None))\<rparr>)"
      proof -
        have "finite (dom ((sim_wants sim)(w \<mapsto> m(ses := None))))" using wf by (simp add: sim_wf_def)
        moreover have "finite (dom (m(ses := None)))" using m(2) by simp
        ultimately show ?thesis
          using wf \<open>dom (m(ses := None)) \<noteq> {}\<close> unfolding sim_wf_def
          by (simp del: dom_fun_upd dom_eq_empty_conv)
      qed
      ultimately show ?thesis using False m by (simp add: int)
    qed
  qed
  then show "sim_wf sim'" "interest sim' = (interest sim)(w := (interest sim w)(ses := None))"
    "ks' = (if sessions_of sim w = {ses} then ks @ [w] else ks)" by blast+
qed

lemma drop_interest_loop:
  assumes "sim_wf sim" and "fold (drop_interest ses) ws (sim, ks) = (sim', ks')"
  shows "sim_wf sim' \<and>
    (\<forall>v s. interest sim' v s = (if v \<in> set ws \<and> s = ses then None else interest sim v s)) \<and>
    set ks' = set ks \<union> {w \<in> set ws. sessions_of sim w = {ses}} \<and>
    (distinct ks \<and> (\<forall>w \<in> set ks. sessions_of sim w = {}) \<longrightarrow> distinct ks')"
  using assms
proof (induction ws arbitrary: sim ks)
  case (Cons w ws)
  obtain sim1 ks1 where st: "drop_interest ses w (sim, ks) = (sim1, ks1)" by fastforce
  note e = drop_interest_step [OF Cons.prems(1) st]
  have "fold (drop_interest ses) ws (sim1, ks1) = (sim', ks')" using Cons.prems(2) st by simp
  note IH = Cons.IH [OF e(1) this]
  have so: "sessions_of sim1 v = (if v = w then sessions_of sim v - {ses} else sessions_of sim v)" for v
    by (auto simp: sessions_of_def e(2))
  have "set ks' = set ks \<union> {v \<in> set (w # ws). sessions_of sim v = {ses}}"
    using IH by (auto simp: e(3) so split: if_splits)
  moreover have "distinct ks'" if "distinct ks" "\<forall>w \<in> set ks. sessions_of sim w = {}"
    using IH that by (auto simp: e(3) so split: if_splits)
  ultimately show ?case using IH by (auto simp: e(2))
qed auto

lemma RemoveSession_effect:
  assumes it: "iterates itw" and wf: "sim_wf sim" and r: "RemoveSession itw ses sim = (sim', ks)"
  shows "sim_wf sim'" and "interest sim' v s = (if s = ses then None else interest sim v s)"
    and "set ks = {w. sessions_of sim w = {ses}}" and "distinct ks"
proof -
  have set: "set (itw (dom (sim_wants sim))) = {w. sessions_of sim w \<noteq> {}}"
    using it wf sim_wf_known [OF wf] by (auto simp: sim_wf_def)
  note L = drop_interest_loop [OF wf r [unfolded RemoveSession_def], unfolded set]
  then show "sim_wf sim'" "distinct ks" by simp_all
  show "interest sim' v s = (if s = ses then None else interest sim v s)"
    using L by (auto simp: sessions_of_def)
  show "set ks = {w. sessions_of sim w = {ses}}" using L by auto
qed

lemmas RemoveSessionInterested_effect =
  drop_interest_loop [of _ _ _ "[]", folded RemoveSessionInterested_def, simplified]

section \<open>Queries\<close>

lemma wanted_keys_eq:
  assumes its: "iterates its" and wf: "sim_wf sim"
  shows "wanted_keys its sim blks =
    {w \<in> AuthBlock_Want ` set blks. \<exists>s. interest sim w s = Some True}"
proof -
  have inner: "fold (\<lambda>ses ks. if m ses = Some True then Set_Add w ks else ks) ss ks =
      ks \<union> (if \<exists>s \<in> set ss. m s = Some True then {w} else {})" for m ss ks and w :: Want
    by (induction ss arbitrary: ks) auto
  have body: "(case sim_wants sim w of None \<Rightarrow> ks
      | Some m \<Rightarrow> fold (\<lambda>ses ks. if m ses = Some True then Set_Add w ks else ks) (its (dom m)) ks) =
      ks \<union> (if \<exists>s. interest sim w s = Some True then {w} else {})" for w ks
    using its wf unfolding inner
    by (auto simp: interest_def sim_wf_def split: option.splits)
  show ?thesis unfolding wanted_keys_def Let_def body fold_union_sets by auto
qed

lemma InterestedSessions_set:
  assumes its: "iterates its" and wf: "sim_wf sim"
  shows "set (InterestedSessions its sim bs hs ds) = (\<Union>w \<in> set bs \<union> set hs \<union> set ds. sessions_of sim w)"
    and "distinct (InterestedSessions its sim bs hs ds)"
proof -
  have "(case sim_wants sim c of None \<Rightarrow> S | Some m \<Rightarrow> S \<union> dom m) = S \<union> sessions_of sim c" for c S
    by (auto simp: sessions_of_def interest_def split: option.splits)
  then have eq: "InterestedSessions its sim bs hs ds = its (\<Union>w \<in> set bs \<union> set hs \<union> set ds. sessions_of sim w)"
    by (simp add: InterestedSessions_def Let_def fold_union_sets Un_assoc)
  have "finite (\<Union>w \<in> set bs \<union> set hs \<union> set ds. sessions_of sim w)" using wf by simp
  then show "set (InterestedSessions its sim bs hs ds) = (\<Union>w \<in> set bs \<union> set hs \<union> set ds. sessions_of sim w)"
    "distinct (InterestedSessions its sim bs hs ds)"
    unfolding eq using its by simp_all
qed

section \<open>Properties\<close>

text \<open>C27. When a session shuts down, the interest manager reports without repetitions exactly the wants
in which that session alone was interested, forgets every interest of that session and changes no
other session's interest.\<close>

theorem RemoveSession_reports_orphans:
  assumes "iterates itw" and "sim_wf sim" and "RemoveSession itw ses sim = (sim', ks)"
  shows "sim_wf sim' \<and> distinct ks \<and> set ks = {w. sessions_of sim w = {ses}} \<and>
    (\<forall>w. sessions_of sim' w = sessions_of sim w - {ses}) \<and>
    (\<forall>w s. s \<noteq> ses \<longrightarrow> interest sim' w s = interest sim w s)"
  using RemoveSession_effect [OF assms] by (auto simp: sessions_of_def)

text \<open>When a request is cancelled, the interest manager reports without repetitions, even when the
given list has repetitions, exactly those of the given wants in which the session alone was
interested, and drops the session's interest in the given wants only.\<close>

theorem RemoveSessionInterested_reports_orphans:
  assumes "sim_wf sim" and "RemoveSessionInterested ses ws sim = (sim', ks)"
  shows "sim_wf sim' \<and> distinct ks \<and> set ks = {w \<in> set ws. sessions_of sim w = {ses}} \<and>
    (\<forall>w s. interest sim' w s = (if w \<in> set ws \<and> s = ses then None else interest sim w s))"
  using RemoveSessionInterested_effect [OF assms] by simp

text \<open>C28. \<^verbatim>\<open>SplitWantedUnwanted\<close> splits the received blocks, in order and losing none, into those whose
want some session still wants and the rest.\<close>

theorem SplitWantedUnwanted_exact:
  assumes "iterates its" and "sim_wf sim"
  shows "SplitWantedUnwanted its sim blks =
    (filter (\<lambda>b. \<exists>s. interest sim (AuthBlock_Want b) s = Some True) blks,
     filter (\<lambda>b. \<nexists>s. interest sim (AuthBlock_Want b) s = Some True) blks)"
  unfolding SplitWantedUnwanted_def Let_def wanted_keys_eq [OF assms]
  by (auto intro!: filter_cong)

section \<open>A concrete state\<close>

definition sim_ex :: SessionInterestManager where
  "sim_ex = RecordSessionInterest 1 [NewWant ''c1'' ''a'', NewWant ''c2'' ''a'']
     (RecordSessionInterest 2 [NewWant ''c2'' ''a''] sim_New)"

lemma sim_ex_wf: "sim_wf sim_ex"
  by (simp add: sim_ex_def RecordSessionInterest_wf sim_wf_new)

lemma sim_ex_interest:
  "interest sim_ex w s =
     (if w = NewWant ''c1'' ''a'' \<and> s = 1 \<or> w = NewWant ''c2'' ''a'' \<and> (s = 1 \<or> s = 2) then Some True else None)"
  by (simp add: sim_ex_def RecordSessionInterest_interest)

lemma sim_ex_sessions:
  "sessions_of sim_ex w = (if w = NewWant ''c1'' ''a'' then {1} else if w = NewWant ''c2'' ''a'' then {1, 2} else {})"
  by (auto simp: sessions_of_def sim_ex_interest split: if_splits)

lemma sim_ex_wanted:
  "(\<exists>s. interest sim_ex w s = Some True) \<longleftrightarrow> w = NewWant ''c1'' ''a'' \<or> w = NewWant ''c2'' ''a''"
  by (auto simp: sim_ex_interest)

theorem RemoveSession_reports_orphans_witness:
  "set (snd (RemoveSession sorted_list_of_set 1 sim_ex)) = {NewWant ''c1'' ''a''}"
proof -
  obtain sim' ks where r: "RemoveSession sorted_list_of_set 1 sim_ex = (sim', ks)" by fastforce
  show ?thesis
    using RemoveSession_reports_orphans [OF iterates_sorted_list_of_set sim_ex_wf r]
    by (auto simp: r sim_ex_sessions split: if_splits)
qed

theorem RemoveSessionInterested_reports_orphans_witness:
  "set (snd (RemoveSessionInterested 1 [NewWant ''c2'' ''a'', NewWant ''c1'' ''a'', NewWant ''c1'' ''a''] sim_ex)) =
     {NewWant ''c1'' ''a''}"
proof -
  obtain sim' ks where r:
    "RemoveSessionInterested 1 [NewWant ''c2'' ''a'', NewWant ''c1'' ''a'', NewWant ''c1'' ''a''] sim_ex = (sim', ks)"
    by fastforce
  show ?thesis
    using RemoveSessionInterested_reports_orphans [OF sim_ex_wf r]
    by (auto simp: r sim_ex_sessions split: if_splits)
qed

theorem SplitWantedUnwanted_exact_witness:
  "SplitWantedUnwanted sorted_list_of_set sim_ex
     [NewBlock \<lparr>block_Cid = ''c1'', block_RawData = []\<rparr> ''a'',
      NewBlock \<lparr>block_Cid = ''c1'', block_RawData = []\<rparr> ''b''] =
   ([NewBlock \<lparr>block_Cid = ''c1'', block_RawData = []\<rparr> ''a''],
    [NewBlock \<lparr>block_Cid = ''c1'', block_RawData = []\<rparr> ''b''])"
  using SplitWantedUnwanted_exact [OF iterates_sorted_list_of_set sim_ex_wf,
      of "[NewBlock \<lparr>block_Cid = ''c1'', block_RawData = []\<rparr> ''a'',
           NewBlock \<lparr>block_Cid = ''c1'', block_RawData = []\<rparr> ''b'']"]
  unfolding sim_ex_wanted by (simp add: NewWant_def)

end
