(* ===== verification/SessionWants.thy ===== *)
theory SessionWants
  imports Auth
begin

text \<open>
  Model of \<^verbatim>\<open>internal/session/cidqueue.go\<close> and \<^verbatim>\<open>internal/session/sessionwants.go\<close>: the queue of wants a
  session has not sent yet and the wants it has sent and not received. The queue removes lazily: a
  list of wants and a set of the cids that are really queued.
\<close>

section \<open>cidQueue\<close>

record cidQueue =
  elems :: "Want list"
  eset :: "cid set"

definition newCidQueue :: cidQueue where
  "newCidQueue = \<lparr>elems = [], eset = {}\<rparr>"

fun Pop_loop :: "Want list \<Rightarrow> cid set \<Rightarrow> Want \<times> cidQueue" where
  "Pop_loop [] S = (Want cid_Undef [], \<lparr>elems = [], eset = S\<rparr>)"
| "Pop_loop (out # rest) S =
     (if want_Cid out \<in> S then (out, \<lparr>elems = rest, eset = S - {want_Cid out}\<rparr>)
      else Pop_loop rest S)"

definition cidQueue_Pop :: "cidQueue \<Rightarrow> Want \<times> cidQueue" where
  "cidQueue_Pop cq = Pop_loop (elems cq) (eset cq)"

definition cidQueue_Cids :: "cidQueue \<Rightarrow> Want list \<times> cidQueue" where
  "cidQueue_Cids cq =
     (let cq1 = (if length (elems cq) > card (eset cq)
                 then cq\<lparr>elems := filter (\<lambda>c. want_Cid c \<in> eset cq) (elems cq)\<rparr> else cq)
      in (elems cq1, cq1))"

definition cidQueue_Push :: "Want \<Rightarrow> cidQueue \<Rightarrow> cidQueue" where
  "cidQueue_Push c cq =
     (if want_Cid c \<notin> eset cq
      then cq\<lparr>elems := elems cq @ [c], eset := insert (want_Cid c) (eset cq)\<rparr> else cq)"

definition cidQueue_Remove :: "cid \<Rightarrow> cidQueue \<Rightarrow> cidQueue" where
  "cidQueue_Remove c cq = cq\<lparr>eset := eset cq - {c}\<rparr>"

definition cidQueue_Has :: "cidQueue \<Rightarrow> cid \<Rightarrow> bool" where
  "cidQueue_Has cq c \<longleftrightarrow> c \<in> eset cq"

definition cidQueue_Len :: "cidQueue \<Rightarrow> nat" where
  "cidQueue_Len cq = card (eset cq)"

text \<open>Every queued cid has a want in the list.\<close>

definition cq_wf :: "cidQueue \<Rightarrow> bool" where
  "cq_wf cq \<longleftrightarrow> eset cq \<subseteq> want_Cid ` set (elems cq)"

lemma cq_wf_finite [simp]: "cq_wf cq \<Longrightarrow> finite (eset cq)"
  unfolding cq_wf_def by (erule finite_subset) simp

lemma cq_wf_new [simp]: "cq_wf newCidQueue"
  by (simp add: cq_wf_def newCidQueue_def)

lemma cq_wf_Push [inv_intros]: "cq_wf cq \<Longrightarrow> cq_wf (cidQueue_Push c cq)"
  by (auto simp: cq_wf_def cidQueue_Push_def)

lemma cq_wf_Remove [inv_intros]: "cq_wf cq \<Longrightarrow> cq_wf (cidQueue_Remove c cq)"
  by (auto simp: cq_wf_def cidQueue_Remove_def)

lemma cq_wf_Cids [inv_intros]: "cq_wf cq \<Longrightarrow> cq_wf (snd (cidQueue_Cids cq))"
  by (auto simp: cq_wf_def cidQueue_Cids_def Let_def)

lemma Pop_loop_spec:
  assumes "S \<subseteq> want_Cid ` set es" and "S \<noteq> {}" and "Pop_loop es S = (w, cq)"
  shows "w \<in> set es" and "want_Cid w \<in> S" and "eset cq = S - {want_Cid w}" and "cq_wf cq"
    and "set (elems cq) \<subseteq> set es"
proof -
  have "w \<in> set es \<and> want_Cid w \<in> S \<and> eset cq = S - {want_Cid w} \<and> cq_wf cq \<and>
    set (elems cq) \<subseteq> set es"
    using assms
  proof (induction es)
    case (Cons e es)
    then show ?case by (cases "want_Cid e \<in> S") (auto simp: cq_wf_def)
  qed simp
  then show "w \<in> set es" "want_Cid w \<in> S" "eset cq = S - {want_Cid w}" "cq_wf cq"
    "set (elems cq) \<subseteq> set es" by blast+
qed

lemma cidQueue_Pop_spec:
  assumes "cq_wf cq" and "eset cq \<noteq> {}" and "cidQueue_Pop cq = (w, cq')"
  shows "w \<in> set (elems cq)" and "want_Cid w \<in> eset cq" and "eset cq' = eset cq - {want_Cid w}"
    and "cq_wf cq'" and "set (elems cq') \<subseteq> set (elems cq)"
  using Pop_loop_spec [of "eset cq" "elems cq" w cq'] assms by (auto simp: cq_wf_def cidQueue_Pop_def)

section \<open>sessionWants\<close>

definition liveWantsOrderGCLimit :: nat where
  "liveWantsOrderGCLimit = 32"

record sessionWants =
  toFetch :: cidQueue
  liveWants :: "Want \<rightharpoonup> time"
  liveWantsOrder :: "Want list"
  broadcastLimit :: int

definition newSessionWants :: "int \<Rightarrow> sessionWants" where
  "newSessionWants limit =
     \<lparr>toFetch = newCidQueue, liveWants = Map.empty, liveWantsOrder = [], broadcastLimit = limit\<rparr>"

definition sw_BlocksRequested :: "Want list \<Rightarrow> sessionWants \<Rightarrow> sessionWants" where
  "sw_BlocksRequested ks sw = sw\<lparr>toFetch := fold cidQueue_Push ks (toFetch sw)\<rparr>"

text \<open>The loop of \<^verbatim>\<open>GetNextWants\<close>; the counter \<^verbatim>\<open>toAdd\<close> bounds it.\<close>

fun GetNextWants_loop :: "time \<Rightarrow> nat \<Rightarrow> sessionWants \<Rightarrow> sessionWants \<times> Want list" where
  "GetNextWants_loop now 0 sw = (sw, [])"
| "GetNextWants_loop now (Suc n) sw =
     (if cidQueue_Len (toFetch sw) > 0
      then case cidQueue_Pop (toFetch sw) of (c, cq) \<Rightarrow>
             let sw1 = sw\<lparr>toFetch := cq, liveWantsOrder := liveWantsOrder sw @ [c],
                          liveWants := (liveWants sw)(c \<mapsto> now)\<rparr>
             in case GetNextWants_loop now n sw1 of (sw2, live) \<Rightarrow> (sw2, c # live)
      else (sw, []))"

definition GetNextWants :: "time \<Rightarrow> sessionWants \<Rightarrow> sessionWants \<times> Want list" where
  "GetNextWants now sw =
     GetNextWants_loop now (nat (broadcastLimit sw - int (card (dom (liveWants sw))))) sw"

definition want_sent :: "time \<Rightarrow> Want \<Rightarrow> sessionWants \<Rightarrow> sessionWants" where
  "want_sent now c sw =
     (if liveWants sw c = None \<and> cidQueue_Has (toFetch sw) (want_Cid c)
      then sw\<lparr>toFetch := cidQueue_Remove (want_Cid c) (toFetch sw),
              liveWantsOrder := liveWantsOrder sw @ [c], liveWants := (liveWants sw)(c \<mapsto> now)\<rparr>
      else sw)"

definition WantsSent :: "time \<Rightarrow> Want list \<Rightarrow> sessionWants \<Rightarrow> sessionWants" where
  "WantsSent now ks sw = fold (want_sent now) ks sw"

definition isWanted :: "sessionWants \<Rightarrow> Want \<Rightarrow> bool" where
  "isWanted sw w \<longleftrightarrow>
     (if liveWants sw w = None then cidQueue_Has (toFetch sw) (want_Cid w) else True)"

definition block_received ::
  "time \<Rightarrow> Want \<Rightarrow> sessionWants \<times> Want list \<times> duration \<Rightarrow> sessionWants \<times> Want list \<times> duration" where
  "block_received now c st =
     (case st of (sw, wanted, totalLatency) \<Rightarrow>
        if isWanted sw c
        then (sw\<lparr>liveWants := (liveWants sw)(c := None),
                 toFetch := cidQueue_Remove (want_Cid c) (toFetch sw)\<rparr>,
              wanted @ [c],
              (case liveWants sw c of
                 Some sentAt \<Rightarrow>
                   if \<not> time_IsZero sentAt then totalLatency + time_Sub now sentAt else totalLatency
               | None \<Rightarrow> totalLatency))
        else st)"

definition sw_BlocksReceived ::
  "time \<Rightarrow> Want list \<Rightarrow> sessionWants \<Rightarrow> sessionWants \<times> Want list \<times> duration" where
  "sw_BlocksReceived now ks sw =
     (if ks = [] then (sw, [], 0)
      else
        case fold (block_received now) ks (sw, [], 0) of (sw1, wanted, totalLatency) \<Rightarrow>
          if int (length (liveWantsOrder sw1)) - int (card (dom (liveWants sw1))) > int liveWantsOrderGCLimit
          then (sw1\<lparr>liveWantsOrder := filter (\<lambda>c. liveWants sw1 c \<noteq> None) (liveWantsOrder sw1)\<rparr>,
                wanted, totalLatency)
          else (sw1, wanted, totalLatency))"

text \<open>The loop of \<^verbatim>\<open>PrepareBroadcast\<close>; \<open>n\<close> is \<^verbatim>\<open>len(live)\<close>.\<close>

fun PrepareBroadcast_loop ::
  "time \<Rightarrow> int \<Rightarrow> nat \<Rightarrow> Want list \<Rightarrow> (Want \<rightharpoonup> time) \<Rightarrow> (Want \<rightharpoonup> time) \<times> Want list" where
  "PrepareBroadcast_loop now limit n [] m = (m, [])"
| "PrepareBroadcast_loop now limit n (c # cs) m =
     (if m c \<noteq> None
      then let m1 = m(c \<mapsto> now)
           in if int (Suc n) = limit then (m1, [c])
              else case PrepareBroadcast_loop now limit (Suc n) cs m1 of (m2, live) \<Rightarrow> (m2, c # live)
      else PrepareBroadcast_loop now limit n cs m)"

definition PrepareBroadcast :: "time \<Rightarrow> sessionWants \<Rightarrow> sessionWants \<times> Want list" where
  "PrepareBroadcast now sw =
     (case PrepareBroadcast_loop now (broadcastLimit sw) 0 (liveWantsOrder sw) (liveWants sw) of
        (m, live) \<Rightarrow> (sw\<lparr>liveWants := m\<rparr>, live))"

definition CancelPending :: "cid list \<Rightarrow> sessionWants \<Rightarrow> sessionWants" where
  "CancelPending ks sw = sw\<lparr>toFetch := fold cidQueue_Remove ks (toFetch sw)\<rparr>"

definition LiveWants :: "(Want set \<Rightarrow> Want list) \<Rightarrow> sessionWants \<Rightarrow> Want list" where
  "LiveWants itw sw = itw (dom (liveWants sw))"

text \<open>\<open>rnd n\<close> stands for \<^verbatim>\<open>rand.Intn(n)\<close>.\<close>

definition RandomLiveWant :: "(nat \<Rightarrow> nat) \<Rightarrow> sessionWants \<Rightarrow> Want" where
  "RandomLiveWant rnd sw =
     (if liveWantsOrder sw = [] then Want cid_Undef []
      else liveWantsOrder sw ! rnd (length (liveWantsOrder sw)))"

definition HasLiveWants :: "sessionWants \<Rightarrow> bool" where
  "HasLiveWants sw \<longleftrightarrow> card (dom (liveWants sw)) > 0"

section \<open>The invariant\<close>

definition sw_wf :: "sessionWants \<Rightarrow> bool" where
  "sw_wf sw \<longleftrightarrow>
     cq_wf (toFetch sw) \<and> (\<forall>w. liveWants sw w \<noteq> None \<longrightarrow> w \<in> set (liveWantsOrder sw))"

lemma sw_wf_finite [simp]: "sw_wf sw \<Longrightarrow> finite (dom (liveWants sw))"
  unfolding sw_wf_def by (rule finite_subset [of _ "set (liveWantsOrder sw)"]) auto

lemma sw_wf_new [simp]: "sw_wf (newSessionWants limit)"
  by (simp add: sw_wf_def newSessionWants_def)

lemma sw_BlocksRequested_wf [inv_intros]: "sw_wf sw \<Longrightarrow> sw_wf (sw_BlocksRequested ks sw)"
  unfolding sw_wf_def sw_BlocksRequested_def
  by (auto intro: fold_invariant [where P = cq_wf] inv_intros)

lemma CancelPending_wf [inv_intros]: "sw_wf sw \<Longrightarrow> sw_wf (CancelPending ks sw)"
  unfolding sw_wf_def CancelPending_def
  by (auto intro: fold_invariant [where P = cq_wf] inv_intros)

lemma want_sent_wf [inv_intros]: "sw_wf sw \<Longrightarrow> sw_wf (want_sent now c sw)"
  by (auto simp: sw_wf_def want_sent_def intro: inv_intros)

lemma WantsSent_wf [inv_intros]: "sw_wf sw \<Longrightarrow> sw_wf (WantsSent now ks sw)"
  unfolding WantsSent_def by (rule fold_invariant [where P = sw_wf]) (auto intro: inv_intros)

lemma block_received_wf: "sw_wf (fst st) \<Longrightarrow> sw_wf (fst (block_received now c st))"
  by (auto simp: sw_wf_def block_received_def intro: inv_intros split: prod.splits)

lemma sw_BlocksReceived_wf [inv_intros]:
  assumes "sw_wf sw"
  shows "sw_wf (fst (sw_BlocksReceived now ks sw))"
proof -
  have "sw_wf (fst (fold (block_received now) ks (sw, [], 0)))"
    by (rule fold_invariant [where P = "\<lambda>st. sw_wf (fst st)"]) (auto simp: assms block_received_wf)
  then show ?thesis using assms
    by (auto simp: sw_BlocksReceived_def sw_wf_def split: prod.splits)
qed

lemma PrepareBroadcast_loop_spec:
  assumes "PrepareBroadcast_loop now limit n cs m = (m', live)"
  shows "live = (if limit \<le> int n then filter (\<lambda>w. m w \<noteq> None) cs
      else take (nat (limit - int n)) (filter (\<lambda>w. m w \<noteq> None) cs)) \<and>
    (\<forall>w. m' w = (if w \<in> set live then Some now else m w))"
  using assms
proof (induction cs arbitrary: n m live)
  case (Cons c cs)
  show ?case
  proof (cases "m c = None")
    case True
    then have "PrepareBroadcast_loop now limit n cs m = (m', live)" using Cons.prems by simp
    from Cons.IH [OF this] show ?thesis using True by simp
  next
    case False
    have f: "filter (\<lambda>w. (m(c \<mapsto> now)) w \<noteq> None) cs = filter (\<lambda>w. m w \<noteq> None) cs"
      using False by (intro filter_cong) auto
    show ?thesis
    proof (cases "int (Suc n) = limit")
      case True
      then have "m' = m(c \<mapsto> now)" "live = [c]" using Cons.prems False by (auto simp: Let_def)
      with True False show ?thesis by auto
    next
      case neq: False
      then obtain live1 where r: "PrepareBroadcast_loop now limit (Suc n) cs (m(c \<mapsto> now)) = (m', live1)"
        and live: "live = c # live1"
        using Cons.prems False by (auto simp: Let_def split: prod.splits)
      have "limit > int n \<Longrightarrow> nat (limit - int n) = Suc (nat (limit - int (Suc n)))" by linarith
      with Cons.IH [OF r, unfolded f] False neq show ?thesis by (auto simp: live)
    qed
  qed
qed simp

lemma PrepareBroadcast_wf [inv_intros]:
  assumes "sw_wf sw"
  shows "sw_wf (fst (PrepareBroadcast now sw))"
proof -
  obtain m live where
    r: "PrepareBroadcast_loop now (broadcastLimit sw) 0 (liveWantsOrder sw) (liveWants sw) = (m, live)"
    by fastforce
  have "m w \<noteq> None \<Longrightarrow> liveWants sw w \<noteq> None" for w
    using PrepareBroadcast_loop_spec [OF r] by (auto split: if_splits dest: in_set_takeD)
  then show ?thesis using assms by (simp add: PrepareBroadcast_def r sw_wf_def)
qed

text \<open>The fetch loop moves cids that are queued, one per step.\<close>

lemma GetNextWants_loop_spec:
  assumes "sw_wf sw" and "GetNextWants_loop now n sw = (sw', live)"
  shows "sw_wf sw' \<and> length live = min n (card (eset (toFetch sw))) \<and>
    eset (toFetch sw') = eset (toFetch sw) - want_Cid ` set live \<and>
    distinct (map want_Cid live) \<and> want_Cid ` set live \<subseteq> eset (toFetch sw) \<and>
    set live \<subseteq> set (elems (toFetch sw)) \<and>
    dom (liveWants sw') = dom (liveWants sw) \<union> set live \<and>
    liveWantsOrder sw' = liveWantsOrder sw @ live \<and> broadcastLimit sw' = broadcastLimit sw"
  using assms
proof (induction now n sw arbitrary: sw' live rule: GetNextWants_loop.induct)
  case (2 now n sw)
  have wf: "cq_wf (toFetch sw)" and fin: "finite (eset (toFetch sw))"
    using 2(2) by (auto simp: sw_wf_def)
  show ?case
  proof (cases "eset (toFetch sw) = {}")
    case True
    then show ?thesis using 2(2,3) by (simp add: cidQueue_Len_def)
  next
    case False
    obtain c cq where p: "cidQueue_Pop (toFetch sw) = (c, cq)" by fastforce
    define sw1 where "sw1 = sw\<lparr>toFetch := cq, liveWantsOrder := liveWantsOrder sw @ [c],
      liveWants := (liveWants sw)(c \<mapsto> now)\<rparr>"
    obtain live1 where l: "GetNextWants_loop now n sw1 = (sw', live1)" and live: "live = c # live1"
      using 2(3) False fin p by (auto simp: cidQueue_Len_def card_gt_0_iff sw1_def Let_def split: prod.splits)
    note P = cidQueue_Pop_spec [OF wf False p]
    have f1: "toFetch sw1 = cq" "liveWantsOrder sw1 = liveWantsOrder sw @ [c]"
      "dom (liveWants sw1) = insert c (dom (liveWants sw))" "broadcastLimit sw1 = broadcastLimit sw"
      by (auto simp: sw1_def)
    have wf1: "sw_wf sw1" using 2(2) P(4) by (auto simp: sw_wf_def sw1_def)
    have card: "card (eset (toFetch sw)) = Suc (card (eset cq))"
      unfolding P(3) by (rule card_Suc_Diff1 [OF fin P(2), symmetric])
    have "sw_wf sw1 \<Longrightarrow> GetNextWants_loop now n sw1 = (sw', live1) \<Longrightarrow>
      sw_wf sw' \<and> length live1 = min n (card (eset (toFetch sw1))) \<and>
      eset (toFetch sw') = eset (toFetch sw1) - want_Cid ` set live1 \<and>
      distinct (map want_Cid live1) \<and> want_Cid ` set live1 \<subseteq> eset (toFetch sw1) \<and>
      set live1 \<subseteq> set (elems (toFetch sw1)) \<and>
      dom (liveWants sw') = dom (liveWants sw1) \<union> set live1 \<and>
      liveWantsOrder sw' = liveWantsOrder sw1 @ live1 \<and> broadcastLimit sw' = broadcastLimit sw1"
      by (rule 2(1)) (use False fin in \<open>simp_all add: cidQueue_Len_def card_gt_0_iff p sw1_def\<close>)
    note IH = this [OF wf1 l, unfolded f1]
    have "length live = min (Suc n) (card (eset (toFetch sw)))" using IH by (simp add: live card)
    moreover have "eset (toFetch sw') = eset (toFetch sw) - want_Cid ` set live"
      using IH P(3) by (auto simp: live)
    moreover have "distinct (map want_Cid live)" "want_Cid ` set live \<subseteq> eset (toFetch sw)"
      using IH P(2,3) by (auto simp: live)
    moreover have "set live \<subseteq> set (elems (toFetch sw))" using IH P(1,5) by (auto simp: live)
    moreover have "dom (liveWants sw') = dom (liveWants sw) \<union> set live" using IH by (simp add: live)
    ultimately show ?thesis using IH by (simp add: live)
  qed
qed simp

lemma GetNextWants_wf [inv_intros]: "sw_wf sw \<Longrightarrow> sw_wf (fst (GetNextWants now sw))"
  using GetNextWants_loop_spec [of sw now] unfolding GetNextWants_def by (metis prod.collapse)

lemma isWanted_iff: "isWanted sw w \<longleftrightarrow> liveWants sw w \<noteq> None \<or> want_Cid w \<in> eset (toFetch sw)"
  by (simp add: isWanted_def cidQueue_Has_def)

text \<open>The receive loop: what it leaves live and queued, and what it reports.\<close>

definition received :: "Want \<Rightarrow> sessionWants \<Rightarrow> sessionWants" where
  "received k sw = sw\<lparr>liveWants := (liveWants sw)(k := None),
     toFetch := cidQueue_Remove (want_Cid k) (toFetch sw)\<rparr>"

lemma received_sel [simp]:
  "liveWants (received k sw) = (liveWants sw)(k := None)"
  "eset (toFetch (received k sw)) = eset (toFetch sw) - {want_Cid k}"
  by (simp_all add: received_def cidQueue_Remove_def)

lemma block_received_step:
  "fold (block_received now) (k # ks) (sw, wanted, lat) =
     fold (block_received now) ks
       (if isWanted sw k
        then (received k sw, wanted @ [k], snd (snd (block_received now k (sw, wanted, lat))))
        else (sw, wanted, lat))"
  by (simp add: block_received_def [of now k] received_def)

lemma block_received_state:
  assumes "fold (block_received now) ks (sw, wanted, lat) = (sw', wanted', lat')"
  shows "liveWants sw' = (\<lambda>w. if w \<in> set ks then None else liveWants sw w) \<and>
    eset (toFetch sw') = eset (toFetch sw) - want_Cid ` set ks"
  using assms
proof (induction ks arbitrary: sw wanted lat)
  case (Cons k ks)
  show ?case
  proof (cases "isWanted sw k")
    case True
    have "fold (block_received now) ks (received k sw, wanted @ [k],
        snd (snd (block_received now k (sw, wanted, lat)))) = (sw', wanted', lat')"
      using Cons.prems [unfolded block_received_step] True by (simp only: if_True)
    from Cons.IH [OF this] show ?thesis by (auto simp: fun_eq_iff)
  next
    case False
    have "fold (block_received now) ks (sw, wanted, lat) = (sw', wanted', lat')"
      using Cons.prems [unfolded block_received_step] False by (simp only: if_False)
    from Cons.IH [OF this] False show ?thesis by (auto simp: fun_eq_iff isWanted_iff)
  qed
qed simp

lemma block_received_wanted:
  assumes "fold (block_received now) ks (sw, wanted, lat) = (sw', wanted', lat')"
  shows "\<exists>new. wanted' = wanted @ new \<and> distinct new \<and> set new \<subseteq> {w \<in> set ks. isWanted sw w} \<and>
    {w \<in> set ks. liveWants sw w \<noteq> None} \<subseteq> set new \<and>
    eset (toFetch sw) \<inter> want_Cid ` set ks \<subseteq> want_Cid ` set new"
  using assms
proof (induction ks arbitrary: sw wanted lat)
  case (Cons k ks)
  show ?case
  proof (cases "isWanted sw k")
    case True
    have r: "fold (block_received now) ks (received k sw, wanted @ [k],
        snd (snd (block_received now k (sw, wanted, lat)))) = (sw', wanted', lat')"
      using Cons.prems [unfolded block_received_step] True by (simp only: if_True)
    obtain new where new: "wanted' = (wanted @ [k]) @ new" "distinct new"
      "set new \<subseteq> {w \<in> set ks. isWanted (received k sw) w}"
      "{w \<in> set ks. liveWants (received k sw) w \<noteq> None} \<subseteq> set new"
      "eset (toFetch (received k sw)) \<inter> want_Cid ` set ks \<subseteq> want_Cid ` set new"
      using Cons.IH [OF r] by blast
    have "set new \<subseteq> {w \<in> set ks. isWanted sw w}" "k \<notin> set new"
      using new(3) by (auto simp: isWanted_iff split: if_splits)
    with new True show ?thesis by (intro exI [of _ "k # new"]) auto
  next
    case False
    have r: "fold (block_received now) ks (sw, wanted, lat) = (sw', wanted', lat')"
      using Cons.prems [unfolded block_received_step] False by (simp only: if_False)
    obtain new where new: "wanted' = wanted @ new" "distinct new"
      "set new \<subseteq> {w \<in> set ks. isWanted sw w}" "{w \<in> set ks. liveWants sw w \<noteq> None} \<subseteq> set new"
      "eset (toFetch sw) \<inter> want_Cid ` set ks \<subseteq> want_Cid ` set new"
      using Cons.IH [OF r] by blast
    with False show ?thesis by (intro exI [of _ new]) (auto simp: isWanted_iff)
  qed
qed simp

lemma isWanted_GC [simp]: "isWanted (sw\<lparr>liveWantsOrder := x\<rparr>) w = isWanted sw w"
  by (simp add: isWanted_def)

section \<open>Properties\<close>



text \<open>\<^verbatim>\<open>PrepareBroadcast\<close> returns the live wants in the order they were requested, cut at the
broadcast limit, and stamps exactly the returned ones with the current time.\<close>

theorem PrepareBroadcast_in_order:
  assumes "PrepareBroadcast now sw = (sw', live)" and "0 < broadcastLimit sw"
  shows "live = take (nat (broadcastLimit sw)) (filter (\<lambda>w. liveWants sw w \<noteq> None) (liveWantsOrder sw)) \<and>
    (\<forall>w. liveWants sw' w = (if w \<in> set live then Some now else liveWants sw w))"
proof -
  obtain m l where
    r: "PrepareBroadcast_loop now (broadcastLimit sw) 0 (liveWantsOrder sw) (liveWants sw) = (m, l)"
    by fastforce
  then have "sw' = sw\<lparr>liveWants := m\<rparr>" "live = l" using assms(1) by (auto simp: PrepareBroadcast_def)
  with PrepareBroadcast_loop_spec [OF r] assms(2) show ?thesis by simp
qed


section \<open>A concrete session\<close>

definition sw_ex :: sessionWants where
  "sw_ex = sw_BlocksRequested [NewWant ''c1'' ''a'', NewWant ''c2'' ''a'', NewWant ''c3'' ''a''] (newSessionWants 2)"

lemma sw_ex_wf: "sw_wf sw_ex"
  by (simp add: sw_ex_def sw_BlocksRequested_wf)


definition sw_live :: sessionWants where
  "sw_live = \<lparr>toFetch = newCidQueue, liveWants = [NewWant ''c1'' ''a'' \<mapsto> 5, NewWant ''c2'' ''a'' \<mapsto> 5],
     liveWantsOrder = [NewWant ''c1'' ''a'', NewWant ''c2'' ''a''], broadcastLimit = 1\<rparr>"

lemma sw_live_wf: "sw_wf sw_live"
  by (auto simp: sw_live_def sw_wf_def)


theorem PrepareBroadcast_in_order_witness:
  "snd (PrepareBroadcast 9 sw_live) = [NewWant ''c1'' ''a'']"
proof -
  obtain sw' live where r: "PrepareBroadcast 9 sw_live = (sw', live)" by fastforce
  have "0 < broadcastLimit sw_live" by (simp add: sw_live_def)
  from PrepareBroadcast_in_order [OF r this] show ?thesis unfolding r by (simp add: sw_live_def)
qed


end
