(* ===== verification/PeerManager.thy ===== *)
theory PeerManager
  imports PeerWantSpec SessionInterest
begin

text \<open>
  Model of \<^verbatim>\<open>internal/peermanager/peermanager.go\<close>: the pool of connected peers, each with a queue, the
  want manager, and the sessions registered for a peer's connectivity. A queue is any implementation
  of the Go interface \<^verbatim>\<open>PeerQueue\<close>: its operations are a record of functions on a queue state. The
  locale \<open>peer_queue\<close> states what the manager relies on, and the client lemmas show that under that
  contract no queue ever carries a want the want manager has no record of.
\<close>

section \<open>The interfaces PeerQueue and Session\<close>

record 'q PeerQueue =
  createPeerQueue :: "peer \<Rightarrow> 'q"
  pq_AddBroadcastWantHaves :: "Want list \<Rightarrow> 'q \<Rightarrow> 'q"
  pq_AddWants :: "Want list \<Rightarrow> Want list \<Rightarrow> 'q \<Rightarrow> 'q"
  pq_AddCancels :: "Want list \<Rightarrow> 'q \<Rightarrow> 'q"
  pq_ResponseReceived :: "Want list \<Rightarrow> 'q \<Rightarrow> 'q"
  pq_Startup :: "'q \<Rightarrow> 'q"
  pq_Shutdown :: "'q \<Rightarrow> 'q"

text \<open>A call of \<^verbatim>\<open>SignalAvailability\<close> on a session, and the last act of a queue.\<close>

datatype ('q, 's) pm_out = SignalAvailability 's peer bool | QueueShutdown peer 'q

record ('q, 's) PeerManager =
  peerQueues :: "peer \<rightharpoonup> 'q"
  pwm :: peerWantManager
  sessions :: "session_id \<rightharpoonup> 's"
  peerSessions :: "peer \<rightharpoonup> session_id set"

definition pm_New :: "('q, 's) PeerManager" where
  "pm_New = \<lparr>peerQueues = Map.empty, pwm = newPeerWantManager, sessions = Map.empty, peerSessions = Map.empty\<rparr>"

section \<open>Operations\<close>

text \<open>The calls the want manager makes reach the queue of the peer: the pointer held in its
\<^verbatim>\<open>peerWant\<close> entry is the one in \<^verbatim>\<open>peerQueues\<close>, since both maps change together.\<close>

fun pq_apply :: "'q PeerQueue \<Rightarrow> pq_call \<Rightarrow> 'q \<Rightarrow> 'q" where
  "pq_apply Q (AddBroadcastWantHaves ws) q = pq_AddBroadcastWantHaves Q ws q"
| "pq_apply Q (AddWants bs hs) q = pq_AddWants Q bs hs q"
| "pq_apply Q (AddCancels cs) q = pq_AddCancels Q cs q"

definition dispatch ::
  "'q PeerQueue \<Rightarrow> peer \<times> pq_call \<Rightarrow> ('q, 's) PeerManager \<Rightarrow> ('q, 's) PeerManager" where
  "dispatch Q pc pm =
     (case peerQueues pm (fst pc) of
        None \<Rightarrow> pm
      | Some q \<Rightarrow> pm\<lparr>peerQueues := (peerQueues pm)(fst pc \<mapsto> pq_apply Q (snd pc) q)\<rparr>)"

definition with_pwm ::
  "'q PeerQueue \<Rightarrow> peerWantManager \<times> (peer \<times> pq_call) list \<Rightarrow> ('q, 's) PeerManager \<Rightarrow> ('q, 's) PeerManager" where
  "with_pwm Q r pm = fold (dispatch Q) (snd r) (pm\<lparr>pwm := fst r\<rparr>)"

definition getOrCreate :: "'q PeerQueue \<Rightarrow> peer \<Rightarrow> ('q, 's) PeerManager \<Rightarrow> ('q, 's) PeerManager" where
  "getOrCreate Q p pm =
     (case peerQueues pm p of
        Some _ \<Rightarrow> pm
      | None \<Rightarrow> pm\<lparr>peerQueues := (peerQueues pm)(p \<mapsto> pq_Startup Q (createPeerQueue Q p))\<rparr>)"

definition signalAvailability ::
  "(session_id set \<Rightarrow> session_id list) \<Rightarrow> peer \<Rightarrow> bool \<Rightarrow> ('q, 's) PeerManager \<Rightarrow> ('q, 's) pm_out list" where
  "signalAvailability its p isConnected pm =
     (case peerSessions pm p of
        None \<Rightarrow> []
      | Some sesIds \<Rightarrow>
          List.map_filter (\<lambda>sesId. map_option (\<lambda>s. SignalAvailability s p isConnected) (sessions pm sesId))
            (its sesIds))"

definition Connected ::
  "'q PeerQueue \<Rightarrow> (Want set \<Rightarrow> Want list) \<Rightarrow> (session_id set \<Rightarrow> session_id list) \<Rightarrow> peer
     \<Rightarrow> ('q, 's) PeerManager \<Rightarrow> ('q, 's) PeerManager \<times> ('q, 's) pm_out list" where
  "Connected Q itw its p pm =
     (let pm1 = getOrCreate Q p pm;
          pm2 = with_pwm Q (addPeer itw p (pwm pm1)) pm1
      in (pm2, signalAvailability its p True pm2))"

definition Disconnected ::
  "'q PeerQueue \<Rightarrow> (Want set \<Rightarrow> Want list) \<Rightarrow> (peer set \<Rightarrow> peer list) \<Rightarrow> (session_id set \<Rightarrow> session_id list)
     \<Rightarrow> peer \<Rightarrow> ('q, 's) PeerManager \<Rightarrow> ('q, 's) PeerManager \<times> ('q, 's) pm_out list" where
  "Disconnected Q itw itp its p pm =
     (case peerQueues pm p of
        None \<Rightarrow> (pm, [])
      | Some pq \<Rightarrow>
          let signals = signalAvailability its p False pm;
              pm1 = pm\<lparr>peerQueues := (peerQueues pm)(p := None)\<rparr>
          in (pm1\<lparr>pwm := removePeer itw itp p (pwm pm1)\<rparr>,
              signals @ [QueueShutdown p (pq_Shutdown Q pq)]))"

definition ResponseReceived ::
  "'q PeerQueue \<Rightarrow> peer \<Rightarrow> Want list \<Rightarrow> ('q, 's) PeerManager \<Rightarrow> ('q, 's) PeerManager" where
  "ResponseReceived Q p ks pm =
     (case peerQueues pm p of
        None \<Rightarrow> pm
      | Some q \<Rightarrow> pm\<lparr>peerQueues := (peerQueues pm)(p \<mapsto> pq_ResponseReceived Q ks q)\<rparr>)"

definition BroadcastWantHaves ::
  "'q PeerQueue \<Rightarrow> (peer set \<Rightarrow> peer list) \<Rightarrow> Want list \<Rightarrow> ('q, 's) PeerManager \<Rightarrow> ('q, 's) PeerManager" where
  "BroadcastWantHaves Q itp ws pm = with_pwm Q (broadcastWantHaves itp ws (pwm pm)) pm"

definition SendWants ::
  "'q PeerQueue \<Rightarrow> (peer set \<Rightarrow> peer list) \<Rightarrow> peer \<Rightarrow> Want list \<Rightarrow> Want list
     \<Rightarrow> ('q, 's) PeerManager \<Rightarrow> ('q, 's) PeerManager" where
  "SendWants Q itp p wbs whs pm =
     (if peerQueues pm p \<noteq> None then with_pwm Q (sendWants itp p wbs whs (pwm pm)) pm else pm)"

definition SendCancels ::
  "'q PeerQueue \<Rightarrow> (peer set \<Rightarrow> peer list) \<Rightarrow> Want list \<Rightarrow> ('q, 's) PeerManager \<Rightarrow> ('q, 's) PeerManager" where
  "SendCancels Q itp cs pm = with_pwm Q (sendCancels itp cs (pwm pm)) pm"

definition ConnectedPeers :: "(peer set \<Rightarrow> peer list) \<Rightarrow> ('q, 's) PeerManager \<Rightarrow> peer list" where
  "ConnectedPeers itp pm = itp (dom (peerQueues pm))"

definition AvailablePeers :: "(peer set \<Rightarrow> peer list) \<Rightarrow> ('q, 's) PeerManager \<Rightarrow> peer list" where
  "AvailablePeers itp pm = ConnectedPeers itp pm"

definition CurrentWants :: "(Want set \<Rightarrow> Want list) \<Rightarrow> ('q, 's) PeerManager \<Rightarrow> Want list" where
  "CurrentWants itw pm = getWants itw (pwm pm)"

definition CurrentWantBlocks ::
  "(Want set \<Rightarrow> Want list) \<Rightarrow> (peer set \<Rightarrow> peer list) \<Rightarrow> ('q, 's) PeerManager \<Rightarrow> Want list" where
  "CurrentWantBlocks itw itp pm = getWantBlocks itw itp (pwm pm)"

definition CurrentWantHaves ::
  "(Want set \<Rightarrow> Want list) \<Rightarrow> (peer set \<Rightarrow> peer list) \<Rightarrow> ('q, 's) PeerManager \<Rightarrow> Want list" where
  "CurrentWantHaves itw itp pm = getWantHaves itw itp (pwm pm)"

text \<open>\<open>sid\<close> is the method \<^verbatim>\<open>ID\<close> of the interface \<^verbatim>\<open>Session\<close>.\<close>

definition RegisterSession ::
  "('s \<Rightarrow> session_id) \<Rightarrow> peer \<Rightarrow> 's \<Rightarrow> ('q, 's) PeerManager \<Rightarrow> ('q, 's) PeerManager" where
  "RegisterSession sid p s pm =
     (let pm1 = (if sessions pm (sid s) = None
                 then pm\<lparr>sessions := (sessions pm)(sid s \<mapsto> s)\<rparr> else pm);
          pm2 = (if peerSessions pm1 p = None
                 then pm1\<lparr>peerSessions := (peerSessions pm1)(p \<mapsto> {})\<rparr> else pm1)
      in pm2\<lparr>peerSessions := (peerSessions pm2)(p \<mapsto> insert (sid s) (the (peerSessions pm2 p)))\<rparr>)"

definition unregister_peer :: "session_id \<Rightarrow> peer \<Rightarrow> ('q, 's) PeerManager \<Rightarrow> ('q, 's) PeerManager" where
  "unregister_peer ses p pm =
     (case peerSessions pm p of
        None \<Rightarrow> pm
      | Some S \<Rightarrow>
          let pm1 = pm\<lparr>peerSessions := (peerSessions pm)(p \<mapsto> S - {ses})\<rparr>
          in if S - {ses} = {} then pm1\<lparr>peerSessions := (peerSessions pm1)(p := None)\<rparr> else pm1)"

definition UnregisterSession ::
  "(peer set \<Rightarrow> peer list) \<Rightarrow> session_id \<Rightarrow> ('q, 's) PeerManager \<Rightarrow> ('q, 's) PeerManager" where
  "UnregisterSession itp ses pm =
     (let pm1 = fold (unregister_peer ses) (itp (dom (peerSessions pm))) pm
      in pm1\<lparr>sessions := (sessions pm1)(ses := None)\<rparr>)"

section \<open>peerSessions is a reverse index\<close>

definition ps_ok :: "('q, 's) PeerManager \<Rightarrow> bool" where
  "ps_ok pm \<longleftrightarrow> (\<forall>p. peerSessions pm p \<noteq> Some {})"

lemma RegisterSession_index [simp]:
  "peerSessions (RegisterSession sid p s pm) =
     (peerSessions pm)(p \<mapsto> insert (sid s) (lookup_set (peerSessions pm) p))"
  "peerQueues (RegisterSession sid p s pm) = peerQueues pm"
  "pwm (RegisterSession sid p s pm) = pwm pm"
  by (auto simp: RegisterSession_def Let_def lookup_set_def)

lemma unregister_index [simp]:
  "lookup_set (peerSessions (unregister_peer ses p pm)) q =
     (if q = p then lookup_set (peerSessions pm) q - {ses} else lookup_set (peerSessions pm) q)"
  "peerQueues (unregister_peer ses p pm) = peerQueues pm"
  "pwm (unregister_peer ses p pm) = pwm pm"
  "sessions (unregister_peer ses p pm) = sessions pm"
  by (auto simp: unregister_peer_def Let_def split: option.splits)


interpretation psx: multi_index
  "\<lambda>p. RegisterSession (\<lambda>s. s) p" "\<lambda>p ses. unregister_peer ses p"
  "\<lambda>pm. lookup_set (peerSessions pm)" "\<lambda>pm p. peerSessions pm p \<noteq> None" ps_ok
proof
  show "ps_ok pm \<Longrightarrow> ps_ok (unregister_peer ses p pm)" for pm :: "('q, session_id) PeerManager" and ses p
    by (auto simp: ps_ok_def unregister_peer_def Let_def split: option.splits)
  show "ps_ok pm \<Longrightarrow> (peerSessions pm p \<noteq> None) = (lookup_set (peerSessions pm) p \<noteq> {})"
    for pm :: "('q, session_id) PeerManager" and p
    by (cases "peerSessions pm p") (auto simp: ps_ok_def)
qed (simp_all add: ps_ok_def)

lemma unregister_loop:
  "lookup_set (peerSessions (fold (unregister_peer ses) ps pm)) p =
     (if p \<in> set ps then lookup_set (peerSessions pm) p - {ses} else lookup_set (peerSessions pm) p)"
  "sessions (fold (unregister_peer ses) ps pm) = sessions pm"
  "peerQueues (fold (unregister_peer ses) ps pm) = peerQueues pm"
  "pwm (fold (unregister_peer ses) ps pm) = pwm pm"
  by (induction ps arbitrary: pm) auto

lemma UnregisterSession_frame [simp]:
  "sessions (UnregisterSession itp ses pm) = (sessions pm)(ses := None)"
  "peerQueues (UnregisterSession itp ses pm) = peerQueues pm"
  "pwm (UnregisterSession itp ses pm) = pwm pm"
  by (simp_all add: UnregisterSession_def Let_def unregister_loop)

lemma UnregisterSession_index:
  assumes "iterates itp" and "finite (dom (peerSessions pm))"
  shows "lookup_set (peerSessions (UnregisterSession itp ses pm)) p = lookup_set (peerSessions pm) p - {ses}"
proof -
  have "p \<notin> dom (peerSessions pm) \<Longrightarrow> lookup_set (peerSessions pm) p = {}" by auto
  then show ?thesis using assms by (auto simp: UnregisterSession_def unregister_loop Let_def)
qed

section \<open>Dispatching calls\<close>

definition calls_to :: "(peer \<times> pq_call) list \<Rightarrow> peer \<Rightarrow> pq_call list" where
  "calls_to calls p = map snd (filter (\<lambda>pc. fst pc = p) calls)"

lemma dispatch_frame [simp]:
  "pwm (dispatch Q pc pm) = pwm pm" "sessions (dispatch Q pc pm) = sessions pm"
  "peerSessions (dispatch Q pc pm) = peerSessions pm"
  by (auto simp: dispatch_def split: option.splits)

lemma dispatch_queue:
  "peerQueues (dispatch Q pc pm) p =
     (if p = fst pc then map_option (pq_apply Q (snd pc)) (peerQueues pm p) else peerQueues pm p)"
  by (auto simp: dispatch_def split: option.splits)

lemma dispatch_queues:
  "peerQueues (fold (dispatch Q) calls pm) p =
     map_option (fold (pq_apply Q) (calls_to calls p)) (peerQueues pm p)"
  by (induction calls arbitrary: pm)
    (auto simp: calls_to_def dispatch_queue option.map_comp comp_def option.map_id)

lemma with_pwm_sel [simp]:
  "pwm (with_pwm Q r pm) = fst r" "sessions (with_pwm Q r pm) = sessions pm"
  "peerSessions (with_pwm Q r pm) = peerSessions pm"
  "peerQueues (with_pwm Q r pm) p = map_option (fold (pq_apply Q) (calls_to (snd r) p)) (peerQueues pm p)"
proof -
  have "pwm (fold (dispatch Q) calls pm) = pwm pm" "sessions (fold (dispatch Q) calls pm) = sessions pm"
    "peerSessions (fold (dispatch Q) calls pm) = peerSessions pm" for calls and pm :: "('a, 'b) PeerManager"
    by (induction calls arbitrary: pm) auto
  then show "pwm (with_pwm Q r pm) = fst r" "sessions (with_pwm Q r pm) = sessions pm"
    "peerSessions (with_pwm Q r pm) = peerSessions pm"
    "peerQueues (with_pwm Q r pm) p = map_option (fold (pq_apply Q) (calls_to (snd r) p)) (peerQueues pm p)"
    by (simp_all add: with_pwm_def dispatch_queues)
qed

section \<open>Reachable states\<close>

text \<open>The operations of the manager, interleaved with what the queues do on their own (\<open>internal\<close>: the
goroutine of a queue sending messages).\<close>

inductive pm_reach ::
  "'q PeerQueue \<Rightarrow> ('q \<Rightarrow> 'q \<Rightarrow> bool) \<Rightarrow> (Want set \<Rightarrow> Want list) \<Rightarrow> (peer set \<Rightarrow> peer list)
     \<Rightarrow> (session_id set \<Rightarrow> session_id list) \<Rightarrow> ('q, 's) PeerManager \<Rightarrow> bool"
  for Q internal itw itp its where
  pm_new: "pm_reach Q internal itw itp its pm_New"
| pm_connected: "pm_reach Q internal itw itp its pm \<Longrightarrow>
    pm_reach Q internal itw itp its (fst (Connected Q itw its p pm))"
| pm_disconnected: "pm_reach Q internal itw itp its pm \<Longrightarrow>
    pm_reach Q internal itw itp its (fst (Disconnected Q itw itp its p pm))"
| pm_response: "pm_reach Q internal itw itp its pm \<Longrightarrow>
    pm_reach Q internal itw itp its (ResponseReceived Q p ks pm)"
| pm_broadcast: "pm_reach Q internal itw itp its pm \<Longrightarrow>
    pm_reach Q internal itw itp its (BroadcastWantHaves Q itp ws pm)"
| pm_send: "pm_reach Q internal itw itp its pm \<Longrightarrow>
    pm_reach Q internal itw itp its (SendWants Q itp p wbs whs pm)"
| pm_cancel: "pm_reach Q internal itw itp its pm \<Longrightarrow> distinct cs \<Longrightarrow>
    pm_reach Q internal itw itp its (SendCancels Q itp cs pm)"
| pm_register: "pm_reach Q internal itw itp its pm \<Longrightarrow>
    pm_reach Q internal itw itp its (RegisterSession sid p s pm)"
| pm_unregister: "pm_reach Q internal itw itp its pm \<Longrightarrow>
    pm_reach Q internal itw itp its (UnregisterSession itp ses pm)"
| pm_internal: "pm_reach Q internal itw itp its pm \<Longrightarrow> peerQueues pm p = Some q \<Longrightarrow> internal q q' \<Longrightarrow>
    pm_reach Q internal itw itp its (pm\<lparr>peerQueues := (peerQueues pm)(p \<mapsto> q')\<rparr>)"

section \<open>The contract of a queue\<close>

text \<open>\<open>carries q\<close> are the wants the queue still holds to be sent or has sent and not cancelled. The
order \<open>le\<close> is set equality for a queue that keeps every want, set inclusion for one that may drop some
on its own.\<close>

locale peer_queue =
  fixes Q :: "'q PeerQueue"
    and inv :: "'q \<Rightarrow> bool"
    and carries :: "'q \<Rightarrow> Want set"
    and internal :: "'q \<Rightarrow> 'q \<Rightarrow> bool"
    and le :: "Want set \<Rightarrow> Want set \<Rightarrow> bool"
  assumes inv_new: "inv (pq_Startup Q (createPeerQueue Q p))"
    and inv_apply: "inv q \<Longrightarrow> inv (pq_apply Q c q)"
    and inv_response: "inv q \<Longrightarrow> inv (pq_ResponseReceived Q ks q)"
    and inv_internal: "inv q \<Longrightarrow> internal q q' \<Longrightarrow> inv q'"
    and carries_new: "carries (pq_Startup Q (createPeerQueue Q p)) = {}"
    and carries_broadcast: "carries (pq_AddBroadcastWantHaves Q ws q) = carries q \<union> set ws"
    and carries_wants: "carries (pq_AddWants Q bs hs q) = carries q \<union> set bs \<union> set hs"
    and carries_cancels: "carries (pq_AddCancels Q cs q) = carries q - set cs"
    and carries_response: "carries (pq_ResponseReceived Q ks q) = carries q"
    and carries_internal: "inv q \<Longrightarrow> internal q q' \<Longrightarrow> le (carries q') (carries q)"
    and le_refl: "le A A"
    and le_trans: "le A B \<Longrightarrow> le B C \<Longrightarrow> le A C"
    and le_Un: "le A B \<Longrightarrow> le (A \<union> C) (B \<union> C)"
    and le_Diff: "le A B \<Longrightarrow> le (A - C) (B - C)"
begin

lemma carries_apply:
  "carries (pq_apply Q c q) = (carries q \<union> call_blocks c \<union> call_haves c) - call_cancels c"
  by (cases c) (auto simp: carries_broadcast carries_wants carries_cancels)

lemma carries_fold:
  assumes "(\<Union>c \<in> set cs. call_cancels c) = {} \<or>
    (\<Union>c \<in> set cs. call_blocks c) = {} \<and> (\<Union>c \<in> set cs. call_haves c) = {}"
  shows "carries (fold (pq_apply Q) cs q) =
    (carries q \<union> (\<Union>c \<in> set cs. call_blocks c) \<union> (\<Union>c \<in> set cs. call_haves c)) - (\<Union>c \<in> set cs. call_cancels c)"
  using assms
proof (induction cs arbitrary: q)
  case (Cons c cs)
  then show ?case by (auto simp: carries_apply)
qed simp

lemma inv_fold: "inv q \<Longrightarrow> inv (fold (pq_apply Q) cs q)"
  by (induction cs arbitrary: q) (auto intro: inv_apply)

definition queues_ok :: "('q, 's) PeerManager \<Rightarrow> bool" where
  "queues_ok pm \<longleftrightarrow>
     pwm_inv (pwm pm) \<and> dom (peerQueues pm) = dom (peerWants (pwm pm)) \<and>
     (\<forall>p q. peerQueues pm p = Some q \<longrightarrow> inv q \<and> le (carries q) (recorded (view (pwm pm)) p))"

lemma queues_ok_op:
  assumes ok: "queues_ok pm" and it: "iterates itw" "iterates itp" and op: "op_ok op"
    and nr: "\<And>p. op \<noteq> RemovePeer p" and na: "\<And>p. op = AddPeer p \<Longrightarrow> p \<in> dom (peerWants (pwm pm))"
  shows "queues_ok (with_pwm Q (pwm_apply itw itp op (pwm pm)) pm)"
proof -
  from ok have inv: "pwm_inv (pwm pm)" and dom: "dom (peerQueues pm) = dom (peerWants (pwm pm))"
    by (auto simp: queues_ok_def)
  let ?r = "pwm_apply itw itp op (pwm pm)"
  let ?v = "view (pwm pm)"
  have v: "view (fst ?r) = spec_op op ?v" by (rule pwm_apply_view [OF it op inv])
  have told: "(\<Union>c \<in> set (calls_to (snd ?r) p). f c) = told f (snd ?r) p" for f p
    by (auto simp: told_def calls_to_def)
  note T = pwm_apply_told [OF it op inv]
  have peers: "v_peers (spec_op op ?v) = v_peers ?v"
    using nr na by (cases op) (auto simp: view_def)
  have "dom (peerWants (fst ?r)) = dom (peerWants (pwm pm))"
    using peers unfolding v [symmetric] by (simp add: view_def)
  moreover have "inv q' \<and> le (carries q') (recorded (view (fst ?r)) p)"
    if "peerQueues (with_pwm Q ?r pm) p = Some q'" for p q'
  proof -
    from that obtain q where q: "peerQueues pm p = Some q"
      and q': "q' = fold (pq_apply Q) (calls_to (snd ?r) p) q" by auto
    have "p \<in> v_peers ?v" using q dom by (auto simp: view_def)
    then have rec: "recorded (view (fst ?r)) p =
        (recorded ?v p \<union> spec_blocks op ?v p \<union> spec_haves op ?v p) - spec_cancels op ?v p"
      using nr by (simp add: v recorded_step)
    have "carries q' = (carries q \<union> spec_blocks op ?v p \<union> spec_haves op ?v p) - spec_cancels op ?v p"
      unfolding q' by (subst carries_fold) (use spec_adds_or_cancels in \<open>auto simp: told T\<close>)
    moreover have "inv q" "le (carries q) (recorded ?v p)" using ok q by (simp_all add: queues_ok_def)
    ultimately show ?thesis by (simp add: rec le_Un le_Diff q' inv_fold)
  qed
  moreover have "pwm_inv (fst ?r)" by (rule pwm_apply_inv [OF it op inv])
  moreover have "dom (peerQueues (with_pwm Q ?r pm)) = dom (peerQueues pm)" by auto
  ultimately show ?thesis using dom by (simp add: queues_ok_def)
qed

lemma queues_ok_cong:
  assumes "queues_ok pm" and "peerQueues pm' = peerQueues pm" and "pwm pm' = pwm pm"
  shows "queues_ok pm'"
  using assms by (simp add: queues_ok_def)

lemma queues_ok_set:
  assumes "queues_ok pm" and "peerQueues pm p = Some q" and "inv q'" and "le (carries q') (carries q)"
  shows "queues_ok (pm\<lparr>peerQueues := (peerQueues pm)(p \<mapsto> q')\<rparr>)"
  using assms le_trans unfolding queues_ok_def by (auto simp: insert_absorb)

lemma queues_ok_new: "queues_ok pm_New"
  using pwm_inv_new by (simp add: queues_ok_def pm_New_def) (simp add: newPeerWantManager_def)

lemma queues_ok_Connected:
  assumes ok: "queues_ok pm" and it: "iterates itw"
  shows "queues_ok (fst (Connected Q itw its p pm))"
proof (cases "peerQueues pm p")
  case (Some q)
  then have "p \<in> dom (peerWants (pwm pm))" using ok by (auto simp: queues_ok_def)
  from queues_ok_op [OF ok it iterates_sorted_list_of_set, of "AddPeer p"] this Some show ?thesis
    by (simp add: Connected_def getOrCreate_def Let_def)
next
  case None
  from ok have inv: "pwm_inv (pwm pm)" and dom: "dom (peerQueues pm) = dom (peerWants (pwm pm))"
    by (auto simp: queues_ok_def)
  have p: "p \<notin> dom (peerWants (pwm pm))" using None dom by blast
  let ?r = "addPeer itw p (pwm pm)"
  let ?pm1 = "getOrCreate Q p pm"
  have fin: "finite (broadcastWants (pwm pm))" using inv by (simp add: pwm_inv_def pwm_wf_def)
  have told: "told f (snd ?r) q = (if q = p \<and> broadcastWants (pwm pm) \<noteq> {}
      then f (AddBroadcastWantHaves (itw (broadcastWants (pwm pm)))) else {})" for f q
    using told_addPeer [OF it fin, of f p q] p by auto
  have T: "(\<Union>c \<in> set (calls_to (snd ?r) q). f c) = told f (snd ?r) q" for f q
    by (auto simp: told_def calls_to_def)
  have car: "carries (fold (pq_apply Q) (calls_to (snd ?r) q) x) =
      carries x \<union> (if q = p then broadcastWants (pwm pm) else {})" for q x
    by (subst carries_fold) (use it fin in \<open>auto simp: T told\<close>)
  have sent: "sent_to (pwm pm) p = {}" using p by (auto simp: to_None domIff)
  have v: "view (fst ?r) = spec_op (AddPeer p) (view (pwm pm))" by (rule view_addPeer)
  have rec: "recorded (view (fst ?r)) q = recorded (view (pwm pm)) q" for q
    by (simp add: v recorded_def)
  have "dom (peerWants (fst ?r)) = insert p (dom (peerWants (pwm pm)))" by simp
  moreover have q1: "peerQueues ?pm1 = (peerQueues pm)(p \<mapsto> pq_Startup Q (createPeerQueue Q p))"
    "pwm ?pm1 = pwm pm"
    using None by (simp_all add: getOrCreate_def)
  moreover have "dom (peerQueues (with_pwm Q ?r ?pm1)) = insert p (dom (peerQueues pm))"
    by (auto simp: q1 split: if_splits)
  moreover have "inv q' \<and> le (carries q') (recorded (view (fst ?r)) y)"
    if qy: "peerQueues (with_pwm Q ?r ?pm1) y = Some q'" for y q'
  proof (cases "y = p")
    case True
    then have "q' = fold (pq_apply Q) (calls_to (snd ?r) p) (pq_Startup Q (createPeerQueue Q p))"
      using qy by (simp add: q1)
    then have "inv q'" "carries q' = broadcastWants (pwm pm)" by (simp_all add: car carries_new inv_fold inv_new)
    moreover have "recorded (view (pwm pm)) p = broadcastWants (pwm pm)"
      using sent by (simp add: recorded_def view_def)
    ultimately show ?thesis using True by (simp add: rec le_refl)
  next
    case False
    then obtain x where "peerQueues pm y = Some x" and q': "q' = fold (pq_apply Q) (calls_to (snd ?r) y) x"
      using qy by (auto simp: q1)
    then have "inv x" "le (carries x) (recorded (view (pwm pm)) y)" using ok by (simp_all add: queues_ok_def)
    then show ?thesis using False by (simp add: q' car rec inv_fold)
  qed
  ultimately have "queues_ok (with_pwm Q ?r ?pm1)"
    using dom addPeer_inv [OF inv, of itw p] by (simp add: queues_ok_def)
  then show ?thesis using q1 by (simp add: Connected_def Let_def)
qed

lemma queues_ok_Disconnected:
  assumes ok: "queues_ok pm" and it: "iterates itw" "iterates itp"
  shows "queues_ok (fst (Disconnected Q itw itp its p pm))"
proof (cases "peerQueues pm p")
  case None
  then show ?thesis using ok by (simp add: Disconnected_def)
next
  case (Some q)
  from ok have inv: "pwm_inv (pwm pm)" and dom: "dom (peerQueues pm) = dom (peerWants (pwm pm))"
    by (auto simp: queues_ok_def)
  let ?m = "removePeer itw itp p (pwm pm)"
  have e: "peerWants ?m = (peerWants (pwm pm))(p := None)" "pwm_inv ?m"
    using removePeer_effect [OF it inv, of p] by blast+
  have rec: "recorded (view ?m) y = recorded (view (pwm pm)) y" if "y \<noteq> p" for y
    using that by (simp add: view_removePeer [OF it inv] recorded_def)
  show ?thesis
    using ok Some dom e rec by (auto simp: Disconnected_def Let_def queues_ok_def split: if_splits)
qed

lemma queues_ok_Response:
  assumes "queues_ok pm"
  shows "queues_ok (ResponseReceived Q p ks pm)"
proof (cases "peerQueues pm p")
  case (Some q)
  then have "inv q" using assms by (simp add: queues_ok_def)
  with Some show ?thesis
    using queues_ok_set [OF assms Some inv_response] by (simp add: ResponseReceived_def carries_response le_refl)
qed (use assms in \<open>simp add: ResponseReceived_def\<close>)

lemma pm_reach_ok:
  assumes "pm_reach Q internal itw itp its pm" and it: "iterates itw" "iterates itp"
  shows "queues_ok pm"
  using assms(1)
proof (induction rule: pm_reach.induct)
  case pm_new
  show ?case by (rule queues_ok_new)
next
  case (pm_connected pm p)
  then show ?case by (intro queues_ok_Connected it)
next
  case (pm_disconnected pm p)
  then show ?case by (intro queues_ok_Disconnected it)
next
  case (pm_response pm p ks)
  then show ?case by (intro queues_ok_Response)
next
  case (pm_broadcast pm ws)
  then show ?case using queues_ok_op [OF _ it, of pm "Broadcast ws"]
    by (simp add: BroadcastWantHaves_def)
next
  case (pm_send pm p wbs whs)
  then show ?case using queues_ok_op [OF _ it, of pm "Send p wbs whs"]
    by (simp add: SendWants_def)
next
  case (pm_cancel pm cs)
  then show ?case using queues_ok_op [OF _ it, of pm "Cancel cs"]
    by (simp add: SendCancels_def)
next
  case (pm_register pm sid p s)
  then show ?case by (auto intro: queues_ok_cong)
next
  case (pm_unregister pm ses)
  then show ?case by (auto intro: queues_ok_cong)
next
  case (pm_internal pm p q q')
  then have q: "inv q" by (simp add: queues_ok_def)
  show ?case
    by (rule queues_ok_set [OF pm_internal.IH pm_internal(2) inv_internal [OF q pm_internal(3)] carries_internal [OF q pm_internal(3)]])
qed

text \<open>The queue of a connected peer carries what the want manager has on record for the peer.\<close>

lemma queue_carries_recorded:
  assumes "pm_reach Q internal itw itp its pm" and "iterates itw" and "iterates itp"
    and "peerQueues pm p = Some q"
  shows "le (carries q) (sent_to (pwm pm) p \<union> broadcastWants (pwm pm))"
  using pm_reach_ok [OF assms(1-3)] assms(4) by (auto simp: queues_ok_def recorded_def view_def)

lemma queue_inv:
  assumes "pm_reach Q internal itw itp its pm" and "iterates itw" and "iterates itp"
    and "peerQueues pm p = Some q"
  shows "inv q"
  using pm_reach_ok [OF assms(1-3)] assms(4) by (auto simp: queues_ok_def)

lemma queues_match_records:
  assumes "pm_reach Q internal itw itp its pm" and "iterates itw" and "iterates itp"
  shows "dom (peerQueues pm) = dom (peerWants (pwm pm))"
  using pm_reach_ok [OF assms] by (simp add: queues_ok_def)

end

end
