(* ===== verification/PbWire.thy ===== *)
theory PbWire
  imports Prelude
begin

unbundle bit_operations_syntax

text \<open>
  The primitives of the protobuf codec in \<^verbatim>\<open>message/pb/message.pb.go\<close>: base-128 varints, field tags,
  length-delimited fields and the skipping of unknown fields. A slice that is being read is the list
  of its remaining bytes; \<open>l\<close> is the length of the whole slice, so the index \<^verbatim>\<open>iNdEx\<close> of the code is
  \<open>l\<close> minus the number of remaining bytes. Lengths are Go \<^verbatim>\<open>int\<close>s, read from the wire as 64-bit words
  and checked for being negative as signed numbers.
\<close>

section \<open>Varints\<close>

function encodeVarintMessage :: "64 word \<Rightarrow> bytes" where
  "encodeVarintMessage v =
     (if 128 \<le> v then ucast (v AND 127 OR 128) # encodeVarintMessage (drop_bit 7 v) else [ucast v])"
  by auto
termination
proof (relation "measure unat")
  fix v :: "64 word"
  assume "128 \<le> v"
  then have "128 \<le> unat v" by (simp add: word_le_nat_alt)
  then show "(drop_bit 7 v, v) \<in> measure unat"
    by (simp only: in_measure drop_bit_eq_div unat_div) simp
qed simp

declare encodeVarintMessage.simps [simp del]

text \<open>\<^verbatim>\<open>bits.Len64\<close>, and the size of a varint.\<close>

fun Len :: "nat \<Rightarrow> nat" where
  "Len n = (if n = 0 then 0 else Suc (Len (n div 2)))"

declare Len.simps [simp del]

definition sovMessage :: "64 word \<Rightarrow> nat" where
  "sovMessage x = (Len (unat (x OR 1)) + 6) div 7"

datatype pb_error =
    ErrIntOverflowMessage
  | ErrUnexpectedEOF
  | ErrInvalidLengthMessage
  | ErrEndGroup
  | ErrIllegalTag
  | ErrWrongWireType
  | ErrIllegalWireType
  | ErrCid string

text \<open>The loop that reads a varint, the same at every place of the file but for the type it
accumulates into: \<^verbatim>\<open>uint64\<close>, \<^verbatim>\<open>int\<close> or \<^verbatim>\<open>int32\<close>, where high bits are shifted out.\<close>

fun read_varint :: "nat \<Rightarrow> 'a::len word \<Rightarrow> bytes \<Rightarrow> pb_error + 'a word \<times> bytes" where
  "read_varint shift acc [] =
     (if shift \<ge> 64 then Inl ErrIntOverflowMessage else Inl ErrUnexpectedEOF)"
| "read_varint shift acc (b # bs) =
     (if shift \<ge> 64 then Inl ErrIntOverflowMessage
      else let acc1 = acc OR push_bit shift (ucast (b AND 127))
           in if b < 128 then Inr (acc1, bs) else read_varint (shift + 7) acc1 bs)"

text \<open>Skipping a varint.\<close>

fun skip_varint :: "nat \<Rightarrow> bytes \<Rightarrow> pb_error + bytes" where
  "skip_varint shift [] =
     (if shift \<ge> 64 then Inl ErrIntOverflowMessage else Inl ErrUnexpectedEOF)"
| "skip_varint shift (b # bs) =
     (if shift \<ge> 64 then Inl ErrIntOverflowMessage
      else if b < 128 then Inr bs else skip_varint (shift + 7) bs)"

lemma read_varint_shorter: "read_varint s acc bs = Inr (v, rest) \<Longrightarrow> length rest < length bs"
  by (induction s acc bs rule: read_varint.induct) (fastforce simp: Let_def split: if_splits)+

lemma skip_varint_shorter: "skip_varint s bs = Inr rest \<Longrightarrow> length rest < length bs"
  by (induction s bs rule: skip_varint.induct) (fastforce split: if_splits)+

section \<open>Lengths, tags and fields\<close>

text \<open>\<open>2 ^ 63\<close> bounds every slice index: a sum of two indices is negative as an \<^verbatim>\<open>int\<close> exactly when it
reaches \<open>2 ^ 63\<close>.\<close>

definition max_int :: nat where
  "max_int = 2 ^ 63"

definition take_len :: "nat \<Rightarrow> 64 word \<Rightarrow> bytes \<Rightarrow> pb_error + bytes \<times> bytes" where
  "take_len l n rest =
     (if sint n < 0 then Inl ErrInvalidLengthMessage
      else let postIndex = (l - length rest) + unat n
           in if postIndex \<ge> max_int then Inl ErrInvalidLengthMessage
              else if postIndex > l then Inl ErrUnexpectedEOF
              else Inr (take (unat n) rest, drop (unat n) rest))"

definition read_tag :: "bytes \<Rightarrow> pb_error + int32 \<times> nat \<times> bytes" where
  "read_tag rest =
     (case read_varint 0 (0 :: 64 word) rest of
        Inl e \<Rightarrow> Inl e
      | Inr (wire, rest1) \<Rightarrow>
          let fieldNum = (ucast (drop_bit 3 wire) :: int32);
              wireType = unat (wire AND 7)
          in if wireType = 4 then Inl ErrEndGroup
             else if sint fieldNum \<le> 0 then Inl ErrIllegalTag
             else Inr (fieldNum, wireType, rest1))"

text \<open>A length-delimited field, an \<^verbatim>\<open>int32\<close> or enum field, and a \<^verbatim>\<open>bool\<close> field.\<close>

definition read_bytes :: "nat \<Rightarrow> nat \<Rightarrow> bytes \<Rightarrow> pb_error + bytes \<times> bytes" where
  "read_bytes l wireType rest =
     (if wireType \<noteq> 2 then Inl ErrWrongWireType
      else case read_varint 0 (0 :: 64 word) rest of
             Inl e \<Rightarrow> Inl e
           | Inr (byteLen, rest1) \<Rightarrow> take_len l byteLen rest1)"

definition read_int32 :: "nat \<Rightarrow> bytes \<Rightarrow> pb_error + int32 \<times> bytes" where
  "read_int32 wireType rest =
     (if wireType \<noteq> 0 then Inl ErrWrongWireType else read_varint 0 0 rest)"

definition read_bool :: "nat \<Rightarrow> bytes \<Rightarrow> pb_error + bool \<times> bytes" where
  "read_bool wireType rest =
     (if wireType \<noteq> 0 then Inl ErrWrongWireType
      else case read_varint 0 (0 :: 64 word) rest of
             Inl e \<Rightarrow> Inl e
           | Inr (v, rest1) \<Rightarrow> Inr (v \<noteq> 0, rest1))"

lemma take_len_shorter: "take_len l n rest = Inr (x, rest1) \<Longrightarrow> length rest1 \<le> length rest"
  by (auto simp: take_len_def Let_def split: if_splits)

lemma read_tag_shorter: "read_tag rest = Inr (f, w, rest1) \<Longrightarrow> length rest1 < length rest"
  by (auto simp: read_tag_def Let_def dest: read_varint_shorter split: sum.splits if_splits)

lemma read_bytes_shorter: "read_bytes l w rest = Inr (x, rest1) \<Longrightarrow> length rest1 \<le> length rest"
  by (fastforce simp: read_bytes_def dest: read_varint_shorter take_len_shorter
      split: sum.splits if_splits)

lemma read_int32_shorter: "read_int32 w rest = Inr (x, rest1) \<Longrightarrow> length rest1 \<le> length rest"
  by (auto simp: read_int32_def dest: read_varint_shorter split: if_splits)

lemma read_bool_shorter: "read_bool w rest = Inr (x, rest1) \<Longrightarrow> length rest1 \<le> length rest"
  by (auto simp: read_bool_def dest: read_varint_shorter split: sum.splits if_splits)

section \<open>Skipping unknown fields\<close>

text \<open>\<open>skipMessage d\<close> is the number of bytes of the first field of \<open>d\<close>, \<open>skip_scalar\<close> its cases other than a group, and
\<open>skip_group l rest\<close> the loop over the fields of a group. The loop moves on by the number of bytes the nested call returns;
it ends because this number is positive.\<close>

definition skip_scalar :: "bytes \<Rightarrow> nat \<Rightarrow> bytes \<Rightarrow> pb_error + nat" where
  "skip_scalar d wireType rest =
     (if wireType = 0 then
        (case skip_varint 0 rest of Inl e \<Rightarrow> Inl e | Inr rest1 \<Rightarrow> Inr (length d - length rest1))
      else if wireType = 1 then Inr (length d - length rest + 8)
      else if wireType = 2 then
        (case read_varint 0 (0 :: 64 word) rest of
           Inl e \<Rightarrow> Inl e
         | Inr (n, rest1) \<Rightarrow>
             if sint n < 0 then Inl ErrInvalidLengthMessage
             else let i = (length d - length rest1) + unat n
                  in if i \<ge> max_int then Inl ErrInvalidLengthMessage else Inr i)
      else if wireType = 4 then Inr (length d - length rest)
      else if wireType = 5 then Inr (length d - length rest + 4)
      else Inl ErrIllegalWireType)"

lemma skip_scalar_pos: "skip_scalar d t rest = Inr n \<Longrightarrow> length rest < length d \<Longrightarrow> 0 < n"
  by (auto simp: skip_scalar_def Let_def split: sum.splits if_splits dest!: skip_varint_shorter read_varint_shorter)

function (domintros) skipMessage :: "bytes \<Rightarrow> pb_error + nat"
  and skip_group :: "nat \<Rightarrow> bytes \<Rightarrow> pb_error + nat" where
  "skipMessage d =
     (case read_varint 0 (0 :: 64 word) d of
        Inl e \<Rightarrow> Inl e
      | Inr (wire, rest) \<Rightarrow>
          if unat (wire AND 7) = 3 then skip_group (length d) rest else skip_scalar d (unat (wire AND 7)) rest)"
| "skip_group l rest =
     (case read_varint 0 (0 :: 64 word) rest of
        Inl e \<Rightarrow> Inl e
      | Inr (innerWire, rest1) \<Rightarrow>
          if unat (innerWire AND 7) = 4 then Inr (l - length rest1)
          else case skipMessage rest of
                 Inl e \<Rightarrow> Inl e
               | Inr step \<Rightarrow>
                   if (l - length rest) + step \<ge> max_int then Inl ErrInvalidLengthMessage
                   else skip_group l (drop step rest))"
  by pat_completeness auto
termination
proof (relation "measure (\<lambda>x. case x of Inl d \<Rightarrow> 2 * length d | Inr (l, rest) \<Rightarrow> 2 * length rest + 1)", goal_cases)
  case 1
  show ?case by simp
next
  case (2 d)
  then show ?case by (auto dest: read_varint_shorter)
next
  case (3 l rest)
  then show ?case by simp
next
  case (4 l rest x2 a b step)
  have "skipMessage_skip_group_dom (Inl d) \<Longrightarrow> \<forall>n. skipMessage d = Inr n \<longrightarrow> 0 < n"
    and "skipMessage_skip_group_dom (Inr (l, r)) \<Longrightarrow> \<forall>n. length r \<le> l \<longrightarrow> skip_group l r = Inr n \<longrightarrow> 0 < n" for d l r
  proof (induction d and l r rule: skipMessage_skip_group.pinduct)
    case (1 d)
    then show ?case
      by (fastforce simp: skipMessage.psimps [OF 1(1)] split: sum.splits if_splits dest: read_varint_shorter skip_scalar_pos)
  next
    case (2 l r)
    then show ?case
      by (auto simp: skip_group.psimps [OF 2(1)] split: sum.splits if_splits dest!: read_varint_shorter)
  qed
  then have "0 < step" using 4 by blast
  moreover have "rest \<noteq> []" using 4 by (auto dest: read_varint_shorter)
  ultimately show ?case by auto
qed

declare skipMessage.simps [simp del] skip_group.simps [simp del]

lemma skip_pos:
  "\<forall>n. skipMessage d = Inr n \<longrightarrow> 0 < n" "\<forall>n. length r \<le> l \<longrightarrow> skip_group l r = Inr n \<longrightarrow> 0 < n"
proof (induction d and l r rule: skipMessage_skip_group.induct)
  case (1 d)
  then show ?case
    by (fastforce simp: skipMessage.simps [of d] split: sum.splits if_splits dest: read_varint_shorter skip_scalar_pos)
next
  case (2 l r)
  then show ?case by (auto simp: skip_group.simps [of l r] split: sum.splits if_splits dest!: read_varint_shorter)
qed

lemma skipMessage_pos: "skipMessage d = Inr n \<Longrightarrow> 0 < n"
  using skip_pos(1) by blast

text \<open>The default branch of every \<^verbatim>\<open>Unmarshal\<close>.\<close>

definition skip_field :: "nat \<Rightarrow> bytes \<Rightarrow> pb_error + bytes" where
  "skip_field l pre =
     (case skipMessage pre of
        Inl e \<Rightarrow> Inl e
      | Inr skippy \<Rightarrow>
          if (l - length pre) + skippy \<ge> max_int then Inl ErrInvalidLengthMessage
          else if (l - length pre) + skippy > l then Inl ErrUnexpectedEOF
          else Inr (drop skippy pre))"

lemma skip_field_shorter: "skip_field l pre = Inr rest \<Longrightarrow> pre \<noteq> [] \<Longrightarrow> length rest < length pre"
  by (auto simp: skip_field_def dest: skipMessage_pos split: sum.splits if_splits)

section \<open>Varints: size and round trip\<close>

lemma Len_pos: "0 < n \<Longrightarrow> Len n = Suc (Len (n div 2))"
  by (subst Len.simps) simp

lemma Len_0 [simp]: "Len 0 = 0"
  by (simp add: Len.simps)

lemma Len_div: "2 ^ k \<le> n \<Longrightarrow> Len n = Len (n div 2 ^ k) + k"
proof (induction k arbitrary: n)
  case (Suc k)
  then have n: "0 < n" by (metis less_le_trans zero_less_numeral zero_less_power)
  have "2 ^ k \<le> n div 2" using Suc.prems by (simp add: less_eq_div_iff_mult_less_eq mult.commute)
  then show ?case by (simp add: Len_pos [OF n] Suc.IH div_mult2_eq)
qed simp

lemma Len_le: "n < 2 ^ k \<Longrightarrow> Len n \<le> k"
proof (induction k arbitrary: n)
  case (Suc k)
  show ?case
  proof (cases "n = 0")
    case False
    have "n div 2 < 2 ^ k" using Suc.prems by (simp add: less_mult_imp_div_less mult.commute)
    then show ?thesis using Suc.IH False by (simp add: Len_pos)
  qed simp
qed simp

lemma or_1_div_128: "unat (v OR 1) div 128 = unat (drop_bit 7 v)" for v :: "64 word"
proof -
  have "drop_bit 7 (v OR 1) = drop_bit 7 v" by (rule bit_word_eqI) (auto simp: bit_simps)
  then have "drop_bit 7 (unat (v OR 1)) = unat (drop_bit 7 v)" by (simp flip: unat_drop_bit_eq)
  then show ?thesis by (simp add: drop_bit_eq_div)
qed

lemma Len_or_1: "0 < m \<Longrightarrow> Len (m OR 1) = Len m"
proof -
  assume m: "0 < m"
  have eq: "m OR 1 = m + of_bool (even m)" by (rule or_one_eq)
  have "(m OR 1) div 2 = m div 2" unfolding eq by (cases "even m") auto
  moreover have "0 < m OR 1" unfolding eq using m by simp
  ultimately show ?thesis using m by (simp add: Len_pos)
qed

lemma sov_small: "v < 128 \<Longrightarrow> sovMessage v = 1"
proof -
  assume "v < 128"
  then have n: "unat v < 128" by (simp add: word_less_nat_alt)
  have "unat v OR 1 < 2 ^ 7" 
    unfolding or_one_eq using n by (cases "even (unat v)") (auto elim!: evenE)
  then have "Len (unat v OR 1) \<le> 7" by (rule Len_le)
  moreover have "0 < unat v OR 1" unfolding or_one_eq by (cases "unat v") auto
  then have "1 \<le> Len (unat v OR 1)" by (simp add: Len_pos)
  ultimately show ?thesis unfolding sovMessage_def unsigned_or_eq by simp
qed

lemma sov_step: "128 \<le> v \<Longrightarrow> sovMessage v = Suc (sovMessage (drop_bit 7 v))"
proof -
  assume v: "128 \<le> v"
  let ?d = "unat (drop_bit 7 v)"
  have n: "128 \<le> unat v" using v by (simp add: word_le_nat_alt)
  have "unat v \<le> unat v OR 1" unfolding or_one_eq by simp
  then have big: "2 ^ 7 \<le> unat v OR 1" using n by simp
  have div: "(unat v OR 1) div 2 ^ 7 = ?d" using or_1_div_128 [of v] by (simp add: unsigned_or_eq)
  have "0 < ?d" using big div by (metis div_greater_zero_iff zero_less_numeral zero_less_power)
  then have "Len (unat v OR 1) = Len (?d OR 1) + 7" using Len_div [OF big] by (simp only: div Len_or_1)
  then show ?thesis unfolding sovMessage_def unsigned_or_eq by simp
qed

lemma length_encodeVarint: "length (encodeVarintMessage v) = sovMessage v"
proof (induction v rule: encodeVarintMessage.induct)
  case (1 v)
  show ?case
  proof (cases "128 \<le> v")
    case True
    then show ?thesis
      unfolding sov_step [OF True] 1 [OF True, symmetric] encodeVarintMessage.simps [of v] by simp
  next
    case False
    then have "sovMessage v = 1" by (simp add: sov_small)
    then show ?thesis using False unfolding encodeVarintMessage.simps [of v] by simp
  qed
qed

lemma small_bits64: "bit v n \<Longrightarrow> v < 128 \<Longrightarrow> n < 7" for v :: "64 word"
proof -
  assume b: "bit v n" and "v < 128"
  then have "take_bit 7 v = v" by (simp add: word_unat_eq_iff unsigned_take_bit_eq take_bit_nat_eq_self_iff word_less_nat_alt)
  with b show "n < 7" by (metis bit_take_bit_iff)
qed

lemma small_bits8: "bit v n \<Longrightarrow> v < 128 \<Longrightarrow> n < 7" for v :: "8 word"
proof -
  assume b: "bit v n" and "v < 128"
  then have "take_bit 7 v = v" by (simp add: word_unat_eq_iff unsigned_take_bit_eq take_bit_nat_eq_self_iff word_less_nat_alt)
  with b show "n < 7" by (metis bit_take_bit_iff)
qed

lemma and_127: "w AND 127 = take_bit 7 w" for w :: "'a::len word"
proof -
  have "mask 7 = (127 :: 'a word)" by (simp add: mask_eq_exp_minus_1)
  then show ?thesis by (simp only: take_bit_eq_mask)
qed

lemma bit_128: "bit (128 :: 'a::len word) n \<longleftrightarrow> n < LENGTH('a) \<and> n = 7"
proof -
  have "bit (2 ^ 7 :: 'a word) n \<longleftrightarrow> n < LENGTH('a) \<and> n = 7"
    by (auto simp only: bit_exp_iff possible_bit_word)
  moreover have "(2 :: 'a word) ^ 7 = 128" by simp
  ultimately show ?thesis by (simp only:)
qed

lemma ucast_and_127: "v < 128 \<Longrightarrow> (ucast v :: 8 word) AND 127 = ucast v" for v :: "64 word"
  unfolding and_127 by (rule bit_word_eqI) (auto simp: bit_simps dest: small_bits64)

lemma ucast_less_128: "v < 128 \<Longrightarrow> (ucast v :: 8 word) < 128" for v :: "64 word"
  by (simp add: word_less_nat_alt unsigned_ucast_eq take_bit_nat_def)

lemma ucast_ucast_small: "v < 128 \<Longrightarrow> (ucast (ucast v :: 8 word) :: 'a::len word) = ucast v" for v :: "64 word"
  by (rule bit_word_eqI) (auto simp: bit_simps dest: small_bits64)

lemma cont_byte: "\<not> (ucast (v AND 127 OR 128) :: 8 word) < 128" for v :: "64 word"
proof
  assume a: "(ucast (v AND 127 OR 128) :: 8 word) < 128"
  have "bit (ucast (v AND 127 OR 128) :: 8 word) 7" by (simp add: bit_simps bit_128)
  from small_bits8 [OF this a] show False by simp
qed

lemma low_7: "(ucast ((ucast (v AND 127 OR 128) :: 8 word) AND 127) :: 'a::len word) = ucast (take_bit 7 v)"
  for v :: "64 word"
proof (rule bit_word_eqI)
  fix n assume "n < LENGTH('a)"
  have "bit (128 :: 64 word) n \<longleftrightarrow> n = 7" by (simp only: bit_128) auto
  then show "bit (ucast ((ucast (v AND 127 OR 128) :: 8 word) AND 127) :: 'a word) n =
      bit (ucast (take_bit 7 v) :: 'a word) n"
    unfolding and_127 bit_unsigned_iff bit_take_bit_iff bit_or_iff by auto
qed

lemma split_7: "push_bit s (ucast (take_bit 7 v)) OR push_bit (s + 7) (ucast (drop_bit 7 v)) =
    (push_bit s (ucast v) :: 'a::len word)" for v :: "64 word"
proof (rule bit_word_eqI)
  fix n assume n: "n < LENGTH('a)"
  consider "n < s" | "s \<le> n" "n < s + 7" | "s + 7 \<le> n" by linarith
  then show "bit (push_bit s (ucast (take_bit 7 v)) OR push_bit (s + 7) (ucast (drop_bit 7 v)) :: 'a word) n =
      bit (push_bit s (ucast v) :: 'a word) n"
  proof cases
    case 3
    then have "7 + (n - (s + 7)) = n - s" by simp
    with 3 n show ?thesis
      by (auto simp: bit_or_iff bit_push_bit_iff bit_unsigned_iff bit_take_bit_iff bit_drop_bit_eq)
  qed (use n in \<open>auto simp: bit_or_iff bit_push_bit_iff bit_unsigned_iff bit_take_bit_iff\<close>)
qed

lemma more_room: "unat (v::64 word) < 2 ^ (64 - s) \<Longrightarrow> 128 \<le> v \<Longrightarrow> s + 7 < 64"
proof -
  assume a: "unat v < 2 ^ (64 - s)" and "128 \<le> v"
  then have "2 ^ 7 < (2::nat) ^ (64 - s)" by (simp add: word_le_nat_alt)
  then have "7 < 64 - s" using power_less_imp_less_exp by (metis one_less_numeral_iff semiring_norm(76))
  then show ?thesis by simp
qed

lemma drop_7_bound: "unat (v::64 word) < 2 ^ (64 - s) \<Longrightarrow> s + 7 < 64 \<Longrightarrow> unat (drop_bit 7 v) < 2 ^ (64 - (s + 7))"
proof -
  assume a: "unat v < 2 ^ (64 - s)" and s: "s + 7 < 64"
  then have "64 - s = 7 + (64 - (s + 7))" by simp
  with a have "unat v < 2 ^ 7 * 2 ^ (64 - (s + 7))" by (metis power_add)
  then have "unat v div 2 ^ 7 < 2 ^ (64 - (s + 7))" by (simp only: less_mult_imp_div_less mult.commute)
  then show ?thesis by (simp add: unat_drop_bit_eq drop_bit_eq_div unat_div)
qed

text \<open>Reading what was written: the accumulator receives the value, cut to its own width.\<close>

lemma read_encodeVarint:
  fixes acc :: "'a::len word"
  assumes "unat v < 2 ^ (64 - s)" and "s < 64"
  shows "read_varint s acc (encodeVarintMessage v @ rest) = Inr (acc OR push_bit s (ucast v), rest)"
  using assms
proof (induction v arbitrary: s acc rule: encodeVarintMessage.induct)
  case (1 v)
  show ?case
  proof (cases "128 \<le> v")
    case False
    then show ?thesis using 1(3)
      by (simp add: encodeVarintMessage.simps [of v] ucast_and_127 ucast_less_128 ucast_ucast_small Let_def)
  next
    case True
    let ?b = "ucast (v AND 127 OR 128) :: 8 word"
    let ?acc = "acc OR push_bit s (ucast (?b AND 127))"
    have s: "s + 7 < 64" by (rule more_room [OF 1(2) True])
    have v: "unat (drop_bit 7 v) < 2 ^ (64 - (s + 7))" by (rule drop_7_bound [OF 1(2) s])
    have "?acc OR push_bit (s + 7) (ucast (drop_bit 7 v)) = acc OR push_bit s (ucast v)"
      unfolding low_7 or.assoc split_7 ..
    moreover have "read_varint s acc (encodeVarintMessage v @ rest) =
        read_varint (s + 7) ?acc (encodeVarintMessage (drop_bit 7 v) @ rest)"
      using True 1(3) cont_byte [of v] by (simp add: encodeVarintMessage.simps [of v] Let_def)
    ultimately show ?thesis using 1(1) [OF True v s, of ?acc] by simp
  qed
qed

lemma read_varint_encode [simp]:
  "read_varint 0 (0 :: 'a::len word) (encodeVarintMessage v @ rest) = Inr (ucast v, rest)"
  using read_encodeVarint [of v 0 "0 :: 'a word" rest] unsigned_less [of v, where 'a = nat] by simp

lemma sov_bounds: "1 \<le> sovMessage v \<and> sovMessage v \<le> 10"
proof -
  have "Len (unat (v OR 1)) \<le> 64" using unsigned_less [of "v OR 1", where 'a = nat] by (intro Len_le) simp
  moreover have "v OR 1 \<noteq> 0" using bit_or_iff [of v 1 0] by auto
  then have "0 < unat (v OR 1)" by (simp add: unat_gt_0)
  then have "0 < Len (unat (v OR 1))" by (simp add: Len_pos)
  ultimately show ?thesis unfolding sovMessage_def by linarith
qed

text \<open>A varint takes exactly the one to ten bytes that the bit-length formula of sovMessage computes, and
reading it back gives the value and the bytes that follow it.\<close>

theorem varint_exact:
  "length (encodeVarintMessage v) = sovMessage v \<and> 1 \<le> sovMessage v \<and> sovMessage v \<le> 10 \<and>
   read_varint 0 0 (encodeVarintMessage v @ rest) = Inr (v, rest)"
  using sov_bounds [of v] by (simp add: length_encodeVarint)

end
