(* ===== verification/PbMessage.thy ===== *)
theory PbMessage
  imports PbWire Wantlist
begin

unbundle bit_operations_syntax

text \<open>
  The protobuf messages of \<^verbatim>\<open>message/pb/message.pb.go\<close> and the cid wrapper of \<^verbatim>\<open>message/pb/cid.go\<close>:
  \<^verbatim>\<open>Size\<close>, \<^verbatim>\<open>MarshalTo\<close> and \<^verbatim>\<open>Unmarshal\<close> of each message type. \<^verbatim>\<open>MarshalTo\<close> is modelled by the bytes it
  writes; that they fit the buffer \<^verbatim>\<open>Marshal\<close> allocates is the lemma that their number is \<^verbatim>\<open>Size\<close>.
  \<^verbatim>\<open>cid.Cast\<close> of go-cid is the parameter \<open>cast\<close>.
\<close>

section \<open>Cid\<close>

text \<open>A cid is its \<^verbatim>\<open>KeyString\<close>, a Go string of raw bytes.\<close>

definition cid_KeyString :: "cid \<Rightarrow> bytes" where
  "cid_KeyString c = map of_char c"

definition Cid_Size :: "cid \<Rightarrow> nat" where
  "Cid_Size c = length (cid_KeyString c)"

definition Cid_MarshalTo :: "cid \<Rightarrow> bytes" where
  "Cid_MarshalTo c = take (Cid_Size c) (cid_KeyString c)"

definition Cid_Marshal :: "cid \<Rightarrow> bytes" where
  "Cid_Marshal c = cid_KeyString c"

type_synonym cid_cast = "bytes \<Rightarrow> string + cid"

definition Cid_Unmarshal :: "cid_cast \<Rightarrow> bytes \<Rightarrow> pb_error + cid" where
  "Cid_Unmarshal cast d = (case cast d of Inl e \<Rightarrow> Inl (ErrCid e) | Inr c \<Rightarrow> Inr c)"

text \<open>\<^verbatim>\<open>Equal\<close> compares its receiver with itself.\<close>

definition Cid_Equal :: "cid \<Rightarrow> cid \<Rightarrow> bool" where
  "Cid_Equal c other \<longleftrightarrow> c = c"

text \<open>go-cid documents that \<^verbatim>\<open>Cast\<close> parses what \<^verbatim>\<open>Bytes\<close> produces.\<close>

definition cast_ok :: "cid_cast \<Rightarrow> cid \<Rightarrow> bool" where
  "cast_ok cast c \<longleftrightarrow> cast (cid_KeyString c) = Inr c"

lemma Cid_MarshalTo_eq [simp]: "Cid_MarshalTo c = cid_KeyString c"
  by (simp add: Cid_MarshalTo_def Cid_Size_def)

section \<open>Messages\<close>

record pb_Entry =
  pbe_Block :: cid
  pbe_Priority :: int32
  pbe_Cancel :: bool
  pbe_WantType :: WantType
  pbe_SendDontHave :: bool
  pbe_Auth :: bytes

record pb_Wantlist =
  pbw_Entries :: "pb_Entry list"
  pbw_Full :: bool

record pb_Block =
  pbb_Prefix :: bytes
  pbb_Data :: bytes
  pbb_Auth :: bytes

text \<open>The enum \<^verbatim>\<open>Message_BlockPresenceType\<close> is an \<^verbatim>\<open>int32\<close>.\<close>

type_synonym BlockPresenceType = int32

abbreviation (input) Message_Have :: BlockPresenceType where
  "Message_Have \<equiv> 0"

abbreviation (input) Message_DontHave :: BlockPresenceType where
  "Message_DontHave \<equiv> 1"

record pb_BlockPresence =
  pbp_Cid :: cid
  pbp_Type :: BlockPresenceType
  pbp_Auth :: bytes

record pb_Message =
  pbm_Wantlist :: pb_Wantlist
  pbm_Blocks :: "bytes list"
  pbm_Payload :: "pb_Block list"
  pbm_BlockPresences :: "pb_BlockPresence list"
  pbm_PendingBytes :: int32

text \<open>The zero values.\<close>

definition pb_Entry0 :: pb_Entry where
  "pb_Entry0 = \<lparr>pbe_Block = cid_Undef, pbe_Priority = 0, pbe_Cancel = False, pbe_WantType = 0,
     pbe_SendDontHave = False, pbe_Auth = []\<rparr>"

definition pb_Wantlist0 :: pb_Wantlist where
  "pb_Wantlist0 = \<lparr>pbw_Entries = [], pbw_Full = False\<rparr>"

definition pb_Block0 :: pb_Block where
  "pb_Block0 = \<lparr>pbb_Prefix = [], pbb_Data = [], pbb_Auth = []\<rparr>"

definition pb_BlockPresence0 :: pb_BlockPresence where
  "pb_BlockPresence0 = \<lparr>pbp_Cid = cid_Undef, pbp_Type = 0, pbp_Auth = []\<rparr>"

definition pb_Message0 :: pb_Message where
  "pb_Message0 = \<lparr>pbm_Wantlist = pb_Wantlist0, pbm_Blocks = [], pbm_Payload = [],
     pbm_BlockPresences = [], pbm_PendingBytes = 0\<rparr>"

section \<open>Size\<close>

text \<open>The size of a length-delimited field of \<open>l\<close> bytes, tag and length included; an \<^verbatim>\<open>int32\<close> is
sign-extended to 64 bits before it is written.\<close>

definition field_size :: "nat \<Rightarrow> nat" where
  "field_size l = 1 + l + sovMessage (of_nat l)"

definition Entry_Size :: "pb_Entry \<Rightarrow> nat" where
  "Entry_Size m =
     field_size (Cid_Size (pbe_Block m)) +
     (if pbe_Priority m \<noteq> 0 then 1 + sovMessage (scast (pbe_Priority m)) else 0) +
     (if pbe_Cancel m then 2 else 0) +
     (if pbe_WantType m \<noteq> 0 then 1 + sovMessage (scast (pbe_WantType m)) else 0) +
     (if pbe_SendDontHave m then 2 else 0) +
     (if length (pbe_Auth m) > 0 then field_size (length (pbe_Auth m)) else 0)"

definition Wantlist_Size :: "pb_Wantlist \<Rightarrow> nat" where
  "Wantlist_Size m =
     sum_list (map (\<lambda>e. field_size (Entry_Size e)) (pbw_Entries m)) + (if pbw_Full m then 2 else 0)"

definition Block_Size :: "pb_Block \<Rightarrow> nat" where
  "Block_Size m =
     (if length (pbb_Prefix m) > 0 then field_size (length (pbb_Prefix m)) else 0) +
     (if length (pbb_Data m) > 0 then field_size (length (pbb_Data m)) else 0) +
     (if length (pbb_Auth m) > 0 then field_size (length (pbb_Auth m)) else 0)"

definition BlockPresence_Size :: "pb_BlockPresence \<Rightarrow> nat" where
  "BlockPresence_Size m =
     field_size (Cid_Size (pbp_Cid m)) +
     (if pbp_Type m \<noteq> 0 then 1 + sovMessage (scast (pbp_Type m)) else 0) +
     (if length (pbp_Auth m) > 0 then field_size (length (pbp_Auth m)) else 0)"

definition Message_Size :: "pb_Message \<Rightarrow> nat" where
  "Message_Size m =
     field_size (Wantlist_Size (pbm_Wantlist m)) +
     sum_list (map (\<lambda>b. field_size (length b)) (pbm_Blocks m)) +
     sum_list (map (\<lambda>e. field_size (Block_Size e)) (pbm_Payload m)) +
     sum_list (map (\<lambda>e. field_size (BlockPresence_Size e)) (pbm_BlockPresences m)) +
     (if pbm_PendingBytes m \<noteq> 0 then 1 + sovMessage (scast (pbm_PendingBytes m)) else 0)"

section \<open>Marshal\<close>

text \<open>A length-delimited field is written as its tag, the \<^verbatim>\<open>Size\<close> of the content and the content.\<close>

definition put_field :: "byte \<Rightarrow> nat \<Rightarrow> bytes \<Rightarrow> bytes" where
  "put_field tag n content = tag # encodeVarintMessage (of_nat n) @ content"

definition Entry_MarshalTo :: "pb_Entry \<Rightarrow> bytes" where
  "Entry_MarshalTo m =
     put_field 10 (Cid_Size (pbe_Block m)) (Cid_MarshalTo (pbe_Block m)) @
     (if pbe_Priority m \<noteq> 0 then 16 # encodeVarintMessage (scast (pbe_Priority m)) else []) @
     (if pbe_Cancel m then [24, if pbe_Cancel m then 1 else 0] else []) @
     (if pbe_WantType m \<noteq> 0 then 32 # encodeVarintMessage (scast (pbe_WantType m)) else []) @
     (if pbe_SendDontHave m then [40, if pbe_SendDontHave m then 1 else 0] else []) @
     (if length (pbe_Auth m) > 0 then put_field 50 (length (pbe_Auth m)) (pbe_Auth m) else [])"

definition Wantlist_MarshalTo :: "pb_Wantlist \<Rightarrow> bytes" where
  "Wantlist_MarshalTo m =
     concat (map (\<lambda>e. put_field 10 (Entry_Size e) (Entry_MarshalTo e)) (pbw_Entries m)) @
     (if pbw_Full m then [16, if pbw_Full m then 1 else 0] else [])"

definition Block_MarshalTo :: "pb_Block \<Rightarrow> bytes" where
  "Block_MarshalTo m =
     (if length (pbb_Prefix m) > 0 then put_field 10 (length (pbb_Prefix m)) (pbb_Prefix m) else []) @
     (if length (pbb_Data m) > 0 then put_field 18 (length (pbb_Data m)) (pbb_Data m) else []) @
     (if length (pbb_Auth m) > 0 then put_field 26 (length (pbb_Auth m)) (pbb_Auth m) else [])"

definition BlockPresence_MarshalTo :: "pb_BlockPresence \<Rightarrow> bytes" where
  "BlockPresence_MarshalTo m =
     put_field 10 (Cid_Size (pbp_Cid m)) (Cid_MarshalTo (pbp_Cid m)) @
     (if pbp_Type m \<noteq> 0 then 16 # encodeVarintMessage (scast (pbp_Type m)) else []) @
     (if length (pbp_Auth m) > 0 then put_field 26 (length (pbp_Auth m)) (pbp_Auth m) else [])"

definition Message_MarshalTo :: "pb_Message \<Rightarrow> bytes" where
  "Message_MarshalTo m =
     put_field 10 (Wantlist_Size (pbm_Wantlist m)) (Wantlist_MarshalTo (pbm_Wantlist m)) @
     concat (map (\<lambda>b. put_field 18 (length b) b) (pbm_Blocks m)) @
     concat (map (\<lambda>b. put_field 26 (Block_Size b) (Block_MarshalTo b)) (pbm_Payload m)) @
     concat (map (\<lambda>b. put_field 34 (BlockPresence_Size b) (BlockPresence_MarshalTo b)) (pbm_BlockPresences m)) @
     (if pbm_PendingBytes m \<noteq> 0 then 40 # encodeVarintMessage (scast (pbm_PendingBytes m)) else [])"

text \<open>\<^verbatim>\<open>Marshal\<close> allocates \<^verbatim>\<open>Size\<close> bytes, fills them and returns the part written. Writing past the end
would panic: \<open>None\<close>.\<close>

definition Message_Marshal :: "pb_Message \<Rightarrow> bytes option" where
  "Message_Marshal m =
     (let dAtA = Message_MarshalTo m
      in if length dAtA > Message_Size m then None else Some dAtA)"

lemma length_put_field [simp]: "length (put_field t n c) = 1 + sovMessage (of_nat n) + length c"
  by (simp add: put_field_def length_encodeVarint)

lemma Entry_length: "length (Entry_MarshalTo m) = Entry_Size m"
  by (simp add: Entry_MarshalTo_def Entry_Size_def field_size_def Cid_Size_def length_encodeVarint)

lemma Wantlist_length: "length (Wantlist_MarshalTo m) = Wantlist_Size m"
  by (simp add: Wantlist_MarshalTo_def Wantlist_Size_def length_concat field_size_def Entry_length
      comp_def ac_simps)

lemma Block_length: "length (Block_MarshalTo m) = Block_Size m"
  by (simp add: Block_MarshalTo_def Block_Size_def field_size_def)

lemma BlockPresence_length: "length (BlockPresence_MarshalTo m) = BlockPresence_Size m"
  by (simp add: BlockPresence_MarshalTo_def BlockPresence_Size_def field_size_def Cid_Size_def
      length_encodeVarint)

lemma Message_length: "length (Message_MarshalTo m) = Message_Size m"
  by (simp add: Message_MarshalTo_def Message_Size_def length_concat field_size_def Wantlist_length
      Block_length BlockPresence_length length_encodeVarint comp_def ac_simps)

section \<open>Unmarshal\<close>

text \<open>Each \<^verbatim>\<open>Unmarshal\<close> is a loop over fields: the tag, then the \<^verbatim>\<open>switch\<close> on the field number. \<open>pre\<close> is the
slice from the tag on, \<open>rest\<close> the slice after it.\<close>

definition Entry_field ::
  "cid_cast \<Rightarrow> nat \<Rightarrow> int32 \<Rightarrow> nat \<Rightarrow> bytes \<Rightarrow> bytes \<Rightarrow> pb_Entry \<Rightarrow> pb_error + pb_Entry \<times> bytes" where
  "Entry_field cast l fieldNum wireType pre rest m =
     (if fieldNum = 1 then
        (case read_bytes l wireType rest of
           Inl e \<Rightarrow> Inl e
         | Inr (d, rest1) \<Rightarrow>
             (case Cid_Unmarshal cast d of
                Inl e \<Rightarrow> Inl e
              | Inr c \<Rightarrow> Inr (m\<lparr>pbe_Block := c\<rparr>, rest1)))
      else if fieldNum = 2 then
        (case read_int32 wireType rest of
           Inl e \<Rightarrow> Inl e | Inr (v, rest1) \<Rightarrow> Inr (m\<lparr>pbe_Priority := v\<rparr>, rest1))
      else if fieldNum = 3 then
        (case read_bool wireType rest of
           Inl e \<Rightarrow> Inl e | Inr (v, rest1) \<Rightarrow> Inr (m\<lparr>pbe_Cancel := v\<rparr>, rest1))
      else if fieldNum = 4 then
        (case read_int32 wireType rest of
           Inl e \<Rightarrow> Inl e | Inr (v, rest1) \<Rightarrow> Inr (m\<lparr>pbe_WantType := v\<rparr>, rest1))
      else if fieldNum = 5 then
        (case read_bool wireType rest of
           Inl e \<Rightarrow> Inl e | Inr (v, rest1) \<Rightarrow> Inr (m\<lparr>pbe_SendDontHave := v\<rparr>, rest1))
      else if fieldNum = 6 then
        (case read_bytes l wireType rest of
           Inl e \<Rightarrow> Inl e | Inr (d, rest1) \<Rightarrow> Inr (m\<lparr>pbe_Auth := d\<rparr>, rest1))
      else
        (case skip_field l pre of Inl e \<Rightarrow> Inl e | Inr rest1 \<Rightarrow> Inr (m, rest1)))"

definition Block_field ::
  "nat \<Rightarrow> int32 \<Rightarrow> nat \<Rightarrow> bytes \<Rightarrow> bytes \<Rightarrow> pb_Block \<Rightarrow> pb_error + pb_Block \<times> bytes" where
  "Block_field l fieldNum wireType pre rest m =
     (if fieldNum = 1 then
        (case read_bytes l wireType rest of
           Inl e \<Rightarrow> Inl e | Inr (d, rest1) \<Rightarrow> Inr (m\<lparr>pbb_Prefix := d\<rparr>, rest1))
      else if fieldNum = 2 then
        (case read_bytes l wireType rest of
           Inl e \<Rightarrow> Inl e | Inr (d, rest1) \<Rightarrow> Inr (m\<lparr>pbb_Data := d\<rparr>, rest1))
      else if fieldNum = 3 then
        (case read_bytes l wireType rest of
           Inl e \<Rightarrow> Inl e | Inr (d, rest1) \<Rightarrow> Inr (m\<lparr>pbb_Auth := d\<rparr>, rest1))
      else
        (case skip_field l pre of Inl e \<Rightarrow> Inl e | Inr rest1 \<Rightarrow> Inr (m, rest1)))"

definition BlockPresence_field ::
  "cid_cast \<Rightarrow> nat \<Rightarrow> int32 \<Rightarrow> nat \<Rightarrow> bytes \<Rightarrow> bytes \<Rightarrow> pb_BlockPresence \<Rightarrow> pb_error + pb_BlockPresence \<times> bytes" where
  "BlockPresence_field cast l fieldNum wireType pre rest m =
     (if fieldNum = 1 then
        (case read_bytes l wireType rest of
           Inl e \<Rightarrow> Inl e
         | Inr (d, rest1) \<Rightarrow>
             (case Cid_Unmarshal cast d of
                Inl e \<Rightarrow> Inl e
              | Inr c \<Rightarrow> Inr (m\<lparr>pbp_Cid := c\<rparr>, rest1)))
      else if fieldNum = 2 then
        (case read_int32 wireType rest of
           Inl e \<Rightarrow> Inl e | Inr (v, rest1) \<Rightarrow> Inr (m\<lparr>pbp_Type := v\<rparr>, rest1))
      else if fieldNum = 3 then
        (case read_bytes l wireType rest of
           Inl e \<Rightarrow> Inl e | Inr (d, rest1) \<Rightarrow> Inr (m\<lparr>pbp_Auth := d\<rparr>, rest1))
      else
        (case skip_field l pre of Inl e \<Rightarrow> Inl e | Inr rest1 \<Rightarrow> Inr (m, rest1)))"

lemmas field_shorter = read_bytes_shorter read_int32_shorter read_bool_shorter skip_field_shorter

lemma Entry_field_shorter:
  "Entry_field cast l f w pre rest m = Inr (m', rest') \<Longrightarrow> length rest < length pre \<Longrightarrow> length rest' < length pre"
  by (fastforce simp: Entry_field_def split: if_splits sum.splits dest: field_shorter)

lemma Block_field_shorter:
  "Block_field l f w pre rest m = Inr (m', rest') \<Longrightarrow> length rest < length pre \<Longrightarrow> length rest' < length pre"
  by (fastforce simp: Block_field_def split: if_splits sum.splits dest: field_shorter)

lemma BlockPresence_field_shorter:
  "BlockPresence_field cast l f w pre rest m = Inr (m', rest') \<Longrightarrow> length rest < length pre \<Longrightarrow> length rest' < length pre"
  by (fastforce simp: BlockPresence_field_def split: if_splits sum.splits dest: field_shorter)

function Entry_loop :: "cid_cast \<Rightarrow> nat \<Rightarrow> bytes \<Rightarrow> pb_Entry \<Rightarrow> pb_error + pb_Entry" where
  "Entry_loop cast l pre m =
     (if pre = [] then Inr m
      else case read_tag pre of
             Inl e \<Rightarrow> Inl e
           | Inr (fieldNum, wireType, rest) \<Rightarrow>
               (case Entry_field cast l fieldNum wireType pre rest m of
                  Inl e \<Rightarrow> Inl e
                | Inr (m1, rest1) \<Rightarrow> Entry_loop cast l rest1 m1))"
  by auto
termination
  by (relation "measure (\<lambda>(_, _, pre, _). length pre)") (auto dest!: Entry_field_shorter dest: read_tag_shorter)

function Block_loop :: "nat \<Rightarrow> bytes \<Rightarrow> pb_Block \<Rightarrow> pb_error + pb_Block" where
  "Block_loop l pre m =
     (if pre = [] then Inr m
      else case read_tag pre of
             Inl e \<Rightarrow> Inl e
           | Inr (fieldNum, wireType, rest) \<Rightarrow>
               (case Block_field l fieldNum wireType pre rest m of
                  Inl e \<Rightarrow> Inl e
                | Inr (m1, rest1) \<Rightarrow> Block_loop l rest1 m1))"
  by auto
termination
  by (relation "measure (\<lambda>(_, pre, _). length pre)") (auto dest!: Block_field_shorter dest: read_tag_shorter)

function BlockPresence_loop ::
  "cid_cast \<Rightarrow> nat \<Rightarrow> bytes \<Rightarrow> pb_BlockPresence \<Rightarrow> pb_error + pb_BlockPresence" where
  "BlockPresence_loop cast l pre m =
     (if pre = [] then Inr m
      else case read_tag pre of
             Inl e \<Rightarrow> Inl e
           | Inr (fieldNum, wireType, rest) \<Rightarrow>
               (case BlockPresence_field cast l fieldNum wireType pre rest m of
                  Inl e \<Rightarrow> Inl e
                | Inr (m1, rest1) \<Rightarrow> BlockPresence_loop cast l rest1 m1))"
  by auto
termination
  by (relation "measure (\<lambda>(_, _, pre, _). length pre)") (auto dest!: BlockPresence_field_shorter dest: read_tag_shorter)

declare Entry_loop.simps [simp del] Block_loop.simps [simp del] BlockPresence_loop.simps [simp del]

definition Entry_Unmarshal :: "cid_cast \<Rightarrow> bytes \<Rightarrow> pb_Entry \<Rightarrow> pb_error + pb_Entry" where
  "Entry_Unmarshal cast dAtA m = Entry_loop cast (length dAtA) dAtA m"

definition Block_Unmarshal :: "bytes \<Rightarrow> pb_Block \<Rightarrow> pb_error + pb_Block" where
  "Block_Unmarshal dAtA m = Block_loop (length dAtA) dAtA m"

definition BlockPresence_Unmarshal :: "cid_cast \<Rightarrow> bytes \<Rightarrow> pb_BlockPresence \<Rightarrow> pb_error + pb_BlockPresence" where
  "BlockPresence_Unmarshal cast dAtA m = BlockPresence_loop cast (length dAtA) dAtA m"

definition Wantlist_field ::
  "cid_cast \<Rightarrow> nat \<Rightarrow> int32 \<Rightarrow> nat \<Rightarrow> bytes \<Rightarrow> bytes \<Rightarrow> pb_Wantlist \<Rightarrow> pb_error + pb_Wantlist \<times> bytes" where
  "Wantlist_field cast l fieldNum wireType pre rest m =
     (if fieldNum = 1 then
        (case read_bytes l wireType rest of
           Inl e \<Rightarrow> Inl e
         | Inr (d, rest1) \<Rightarrow>
             (case Entry_Unmarshal cast d pb_Entry0 of
                Inl e \<Rightarrow> Inl e
              | Inr x \<Rightarrow> Inr (m\<lparr>pbw_Entries := pbw_Entries m @ [x]\<rparr>, rest1)))
      else if fieldNum = 2 then
        (case read_bool wireType rest of
           Inl e \<Rightarrow> Inl e | Inr (v, rest1) \<Rightarrow> Inr (m\<lparr>pbw_Full := v\<rparr>, rest1))
      else
        (case skip_field l pre of Inl e \<Rightarrow> Inl e | Inr rest1 \<Rightarrow> Inr (m, rest1)))"

lemma Wantlist_field_shorter:
  "Wantlist_field cast l f w pre rest m = Inr (m', rest') \<Longrightarrow> length rest < length pre \<Longrightarrow> length rest' < length pre"
  by (fastforce simp: Wantlist_field_def split: if_splits sum.splits dest: field_shorter)

function Wantlist_loop :: "cid_cast \<Rightarrow> nat \<Rightarrow> bytes \<Rightarrow> pb_Wantlist \<Rightarrow> pb_error + pb_Wantlist" where
  "Wantlist_loop cast l pre m =
     (if pre = [] then Inr m
      else case read_tag pre of
             Inl e \<Rightarrow> Inl e
           | Inr (fieldNum, wireType, rest) \<Rightarrow>
               (case Wantlist_field cast l fieldNum wireType pre rest m of
                  Inl e \<Rightarrow> Inl e
                | Inr (m1, rest1) \<Rightarrow> Wantlist_loop cast l rest1 m1))"
  by auto
termination
  by (relation "measure (\<lambda>(_, _, pre, _). length pre)") (auto dest!: Wantlist_field_shorter dest: read_tag_shorter)

definition Wantlist_Unmarshal :: "cid_cast \<Rightarrow> bytes \<Rightarrow> pb_Wantlist \<Rightarrow> pb_error + pb_Wantlist" where
  "Wantlist_Unmarshal cast dAtA m = Wantlist_loop cast (length dAtA) dAtA m"

definition Message_field ::
  "cid_cast \<Rightarrow> nat \<Rightarrow> int32 \<Rightarrow> nat \<Rightarrow> bytes \<Rightarrow> bytes \<Rightarrow> pb_Message \<Rightarrow> pb_error + pb_Message \<times> bytes" where
  "Message_field cast l fieldNum wireType pre rest m =
     (if fieldNum = 1 then
        (case read_bytes l wireType rest of
           Inl e \<Rightarrow> Inl e
         | Inr (d, rest1) \<Rightarrow>
             (case Wantlist_Unmarshal cast d (pbm_Wantlist m) of
                Inl e \<Rightarrow> Inl e
              | Inr x \<Rightarrow> Inr (m\<lparr>pbm_Wantlist := x\<rparr>, rest1)))
      else if fieldNum = 2 then
        (case read_bytes l wireType rest of
           Inl e \<Rightarrow> Inl e
         | Inr (d, rest1) \<Rightarrow> Inr (m\<lparr>pbm_Blocks := pbm_Blocks m @ [d]\<rparr>, rest1))
      else if fieldNum = 3 then
        (case read_bytes l wireType rest of
           Inl e \<Rightarrow> Inl e
         | Inr (d, rest1) \<Rightarrow>
             (case Block_Unmarshal d pb_Block0 of
                Inl e \<Rightarrow> Inl e
              | Inr x \<Rightarrow> Inr (m\<lparr>pbm_Payload := pbm_Payload m @ [x]\<rparr>, rest1)))
      else if fieldNum = 4 then
        (case read_bytes l wireType rest of
           Inl e \<Rightarrow> Inl e
         | Inr (d, rest1) \<Rightarrow>
             (case BlockPresence_Unmarshal cast d pb_BlockPresence0 of
                Inl e \<Rightarrow> Inl e
              | Inr x \<Rightarrow> Inr (m\<lparr>pbm_BlockPresences := pbm_BlockPresences m @ [x]\<rparr>, rest1)))
      else if fieldNum = 5 then
        (case read_int32 wireType rest of
           Inl e \<Rightarrow> Inl e | Inr (v, rest1) \<Rightarrow> Inr (m\<lparr>pbm_PendingBytes := v\<rparr>, rest1))
      else
        (case skip_field l pre of Inl e \<Rightarrow> Inl e | Inr rest1 \<Rightarrow> Inr (m, rest1)))"

lemma Message_field_shorter:
  "Message_field cast l f w pre rest m = Inr (m', rest') \<Longrightarrow> length rest < length pre \<Longrightarrow> length rest' < length pre"
  by (fastforce simp: Message_field_def split: if_splits sum.splits dest: field_shorter)

function Message_loop :: "cid_cast \<Rightarrow> nat \<Rightarrow> bytes \<Rightarrow> pb_Message \<Rightarrow> pb_error + pb_Message" where
  "Message_loop cast l pre m =
     (if pre = [] then Inr m
      else case read_tag pre of
             Inl e \<Rightarrow> Inl e
           | Inr (fieldNum, wireType, rest) \<Rightarrow>
               (case Message_field cast l fieldNum wireType pre rest m of
                  Inl e \<Rightarrow> Inl e
                | Inr (m1, rest1) \<Rightarrow> Message_loop cast l rest1 m1))"
  by auto
termination
  by (relation "measure (\<lambda>(_, _, pre, _). length pre)") (auto dest!: Message_field_shorter dest: read_tag_shorter)

declare Wantlist_loop.simps [simp del] Message_loop.simps [simp del]

definition Message_Unmarshal :: "cid_cast \<Rightarrow> bytes \<Rightarrow> pb_Message \<Rightarrow> pb_error + pb_Message" where
  "Message_Unmarshal cast dAtA m = Message_loop cast (length dAtA) dAtA m"

section \<open>Round trip\<close>

lemma read_tags:
  "read_tag (10 # rest) = Inr (1, 2, rest)" "read_tag (18 # rest) = Inr (2, 2, rest)"
  "read_tag (26 # rest) = Inr (3, 2, rest)" "read_tag (34 # rest) = Inr (4, 2, rest)"
  "read_tag (50 # rest) = Inr (6, 2, rest)" "read_tag (16 # rest) = Inr (2, 0, rest)"
  "read_tag (24 # rest) = Inr (3, 0, rest)" "read_tag (32 # rest) = Inr (4, 0, rest)"
  "read_tag (40 # rest) = Inr (5, 0, rest)"
  by (simp_all add: read_tag_def Let_def)

lemma read_bytes_encode:
  assumes "length c + length rest \<le> l" and "l < max_int"
  shows "read_bytes l 2 (encodeVarintMessage (of_nat (length c)) @ c @ rest) = Inr (c, rest)"
proof -
  have c: "length c < 2 ^ 63" using assms by (simp add: max_int_def)
  then have u: "unat (of_nat (length c) :: 64 word) = length c"
    by (simp add: unat_of_nat)
  have "sint (word_of_int (int (length c)) :: 64 word) = int (length c)"
    unfolding sint_sbintrunc' using c by (intro signed_take_bit_int_eq_self) simp_all
  then have "0 \<le> sint (of_nat (length c) :: 64 word)" by simp
  then show ?thesis using assms by (simp add: read_bytes_def take_len_def u Let_def)
qed

lemma read_int32_encode: "read_int32 0 (encodeVarintMessage (scast v) @ rest) = Inr (v, rest)" for v :: int32
proof -
  have "(ucast (scast v :: 64 word) :: int32) = v" by (rule bit_word_eqI) (simp add: bit_simps)
  then show ?thesis by (simp add: read_int32_def)
qed

lemma read_bool_true: "read_bool 0 (1 # rest) = Inr (True, rest)"
  by (simp add: read_bool_def Let_def)

text \<open>What every \<^verbatim>\<open>Unmarshal\<close> loop shares: fields are read one after another, each by the \<^verbatim>\<open>switch\<close> of its type.\<close>

locale unmarshal_loop =
  fixes fld :: "nat \<Rightarrow> int32 \<Rightarrow> nat \<Rightarrow> bytes \<Rightarrow> bytes \<Rightarrow> 'm \<Rightarrow> pb_error + 'm \<times> bytes"
    and loop :: "nat \<Rightarrow> bytes \<Rightarrow> 'm \<Rightarrow> pb_error + 'm"
  assumes loop_eq:
    "loop l pre m =
       (if pre = [] then Inr m
        else case read_tag pre of
               Inl e \<Rightarrow> Inl e
             | Inr (fieldNum, wireType, rest) \<Rightarrow>
                 (case fld l fieldNum wireType pre rest m of
                    Inl e \<Rightarrow> Inl e
                  | Inr (m1, rest1) \<Rightarrow> loop l rest1 m1))"
begin

lemma loop_end: "loop l [] m = Inr m"
  by (simp add: loop_eq)

lemma loop_field:
  assumes "read_tag (t # body @ rest) = Inr (f, w, body @ rest)"
    and "\<And>pre. fld l f w pre (body @ rest) m = Inr (m1, rest)"
  shows "loop l ((t # body) @ rest) m = loop l rest m1"
  by (subst loop_eq) (simp add: assms)

lemma loop_optional:
  assumes "b \<Longrightarrow> read_tag (t # body @ rest) = Inr (f, w, body @ rest)"
    and "\<And>pre. b \<Longrightarrow> fld l f w pre (body @ rest) m = Inr (m1, rest)"
    and "\<not> b \<Longrightarrow> m1 = m"
  shows "loop l ((if b then t # body else []) @ rest) m = loop l rest m1"
  using assms loop_field by auto

lemma loop_repeated:
  assumes "\<And>rest. read_tag (t # rest) = Inr (f, w, rest)"
    and "\<And>x m pre rest. x \<in> set xs \<Longrightarrow> length (body x @ rest) \<le> l \<Longrightarrow>
           fld l f w pre (body x @ rest) m = Inr (upd x m, rest)"
    and "length (concat (map (\<lambda>x. t # body x) xs) @ rest) \<le> l"
    and "m1 = fold upd xs m"
  shows "loop l (concat (map (\<lambda>x. t # body x) xs) @ rest) m = loop l rest m1"
  unfolding assms(4) using assms(2,3)
proof (induction xs arbitrary: m)
  case (Cons x xs)
  let ?rest = "concat (map (\<lambda>x. t # body x) xs) @ rest"
  have "loop l ((t # body x) @ ?rest) m = loop l ?rest (upd x m)"
    using Cons.prems by (intro loop_field [where f = f and w = w]) (auto simp: assms(1))
  also have "\<dots> = loop l rest (fold upd xs (upd x m))"
    using Cons.prems by (intro Cons.IH) auto
  finally show ?case by simp
qed simp

end

interpretation ue: unmarshal_loop "Entry_field cast" "Entry_loop cast" for cast
  by unfold_locales (rule Entry_loop.simps)

interpretation uw: unmarshal_loop "Wantlist_field cast" "Wantlist_loop cast" for cast
  by unfold_locales (rule Wantlist_loop.simps)

interpretation ub: unmarshal_loop Block_field Block_loop
  by unfold_locales (rule Block_loop.simps)

interpretation up: unmarshal_loop "BlockPresence_field cast" "BlockPresence_loop cast" for cast
  by unfold_locales (rule BlockPresence_loop.simps)

interpretation um: unmarshal_loop "Message_field cast" "Message_loop cast" for cast
  by unfold_locales (rule Message_loop.simps)

text \<open>Each field of an entry, read back.\<close>

lemma Entry_put_Block:
  "cast_ok cast c \<Longrightarrow> Cid_Size c + length rest \<le> l \<Longrightarrow> l < max_int \<Longrightarrow>
   Entry_loop cast l (put_field 10 (Cid_Size c) (cid_KeyString c) @ rest) m =
   Entry_loop cast l rest (m\<lparr>pbe_Block := c\<rparr>)"
  unfolding put_field_def Cid_Size_def
  by (rule ue.loop_field [where f = 1 and w = 2])
     (simp_all add: read_tags Entry_field_def read_bytes_encode cast_ok_def Cid_Unmarshal_def)

lemma Entry_put_Priority:
  "pbe_Priority m = 0 \<Longrightarrow>
   Entry_loop cast l ((if p \<noteq> 0 then 16 # encodeVarintMessage (scast p) else []) @ rest) m =
   Entry_loop cast l rest (m\<lparr>pbe_Priority := p\<rparr>)"
  by (rule ue.loop_optional [where f = 2 and w = 0])
     (simp_all add: read_tags Entry_field_def read_int32_encode)

lemma Entry_put_Cancel:
  "\<not> pbe_Cancel m \<Longrightarrow>
   Entry_loop cast l ((if b then [24, if b then 1 else 0] else []) @ rest) m =
   Entry_loop cast l rest (m\<lparr>pbe_Cancel := b\<rparr>)"
  by (rule ue.loop_optional [where f = 3 and w = 0])
     (simp_all add: read_tags Entry_field_def read_bool_true)

lemma Entry_put_WantType:
  "pbe_WantType m = 0 \<Longrightarrow>
   Entry_loop cast l ((if p \<noteq> 0 then 32 # encodeVarintMessage (scast p) else []) @ rest) m =
   Entry_loop cast l rest (m\<lparr>pbe_WantType := p\<rparr>)"
  by (rule ue.loop_optional [where f = 4 and w = 0])
     (simp_all add: read_tags Entry_field_def read_int32_encode)

lemma Entry_put_SendDontHave:
  "\<not> pbe_SendDontHave m \<Longrightarrow>
   Entry_loop cast l ((if b then [40, if b then 1 else 0] else []) @ rest) m =
   Entry_loop cast l rest (m\<lparr>pbe_SendDontHave := b\<rparr>)"
  by (rule ue.loop_optional [where f = 5 and w = 0])
     (simp_all add: read_tags Entry_field_def read_bool_true)

lemma Entry_put_Auth:
  "pbe_Auth m = [] \<Longrightarrow> length a + length rest \<le> l \<Longrightarrow> l < max_int \<Longrightarrow>
   Entry_loop cast l ((if length a > 0 then put_field 50 (length a) a else []) @ rest) m =
   Entry_loop cast l rest (m\<lparr>pbe_Auth := a\<rparr>)"
  unfolding put_field_def
  by (rule ue.loop_optional [where f = 6 and w = 2])
     (simp_all add: read_tags Entry_field_def read_bytes_encode)

lemma Entry_round_trip:
  assumes "cast_ok cast (pbe_Block e)" and "Entry_Size e < max_int"
  shows "Entry_Unmarshal cast (Entry_MarshalTo e) pb_Entry0 = Inr e"
proof -
  let ?l = "Entry_Size e"
  let ?auth = "if length (pbe_Auth e) > 0 then put_field 50 (length (pbe_Auth e)) (pbe_Auth e) else []"
  have auth: "length (pbe_Auth e) \<le> ?l" by (simp add: Entry_Size_def field_size_def)
  have "Entry_loop cast ?l (Entry_MarshalTo e) pb_Entry0 =
      Entry_loop cast ?l (?auth @ []) (e\<lparr>pbe_Auth := []\<rparr>)"
    unfolding Entry_MarshalTo_def Cid_MarshalTo_eq
    apply (subst Entry_put_Block)
    subgoal by (rule assms)
    subgoal by (simp add: Entry_Size_def field_size_def length_encodeVarint)
    subgoal by (rule assms)
    apply (subst Entry_put_Priority, simp add: pb_Entry0_def)
    apply (subst Entry_put_Cancel, simp add: pb_Entry0_def)
    apply (subst Entry_put_WantType, simp add: pb_Entry0_def)
    apply (subst Entry_put_SendDontHave, simp add: pb_Entry0_def)
    by (cases e) (simp add: pb_Entry0_def)
  also have "\<dots> = Entry_loop cast ?l [] e"
    by (subst Entry_put_Auth) (use assms auth in simp_all)
  finally show ?thesis by (simp add: Entry_Unmarshal_def Entry_length ue.loop_end)
qed

text \<open>Blocks and block presences.\<close>

lemma Block_put_Prefix:
  "pbb_Prefix m = [] \<Longrightarrow> length a + length rest \<le> l \<Longrightarrow> l < max_int \<Longrightarrow>
   Block_loop l ((if length a > 0 then put_field 10 (length a) a else []) @ rest) m =
   Block_loop l rest (m\<lparr>pbb_Prefix := a\<rparr>)"
  unfolding put_field_def
  by (rule ub.loop_optional [where f = 1 and w = 2])
     (simp_all add: read_tags Block_field_def read_bytes_encode)

lemma Block_put_Data:
  "pbb_Data m = [] \<Longrightarrow> length a + length rest \<le> l \<Longrightarrow> l < max_int \<Longrightarrow>
   Block_loop l ((if length a > 0 then put_field 18 (length a) a else []) @ rest) m =
   Block_loop l rest (m\<lparr>pbb_Data := a\<rparr>)"
  unfolding put_field_def
  by (rule ub.loop_optional [where f = 2 and w = 2])
     (simp_all add: read_tags Block_field_def read_bytes_encode)

lemma Block_put_Auth:
  "pbb_Auth m = [] \<Longrightarrow> length a + length rest \<le> l \<Longrightarrow> l < max_int \<Longrightarrow>
   Block_loop l ((if length a > 0 then put_field 26 (length a) a else []) @ rest) m =
   Block_loop l rest (m\<lparr>pbb_Auth := a\<rparr>)"
  unfolding put_field_def
  by (rule ub.loop_optional [where f = 3 and w = 2])
     (simp_all add: read_tags Block_field_def read_bytes_encode)

lemma Block_round_trip:
  assumes "Block_Size e < max_int"
  shows "Block_Unmarshal (Block_MarshalTo e) pb_Block0 = Inr e"
proof -
  let ?l = "Block_Size e"
  let ?auth = "if length (pbb_Auth e) > 0 then put_field 26 (length (pbb_Auth e)) (pbb_Auth e) else []"
  have "Block_loop ?l (Block_MarshalTo e) pb_Block0 = Block_loop ?l (?auth @ []) (e\<lparr>pbb_Auth := []\<rparr>)"
    unfolding Block_MarshalTo_def
    apply (subst Block_put_Prefix)
    subgoal by (simp add: pb_Block0_def)
    subgoal by (simp add: Block_Size_def field_size_def)
    subgoal by (rule assms)
    apply (subst Block_put_Data)
    subgoal by (simp add: pb_Block0_def)
    subgoal by (simp add: Block_Size_def field_size_def)
    subgoal by (rule assms)
    by (cases e) (simp add: pb_Block0_def)
  also have "\<dots> = Block_loop ?l [] e"
    by (subst Block_put_Auth) (use assms in \<open>simp_all add: Block_Size_def field_size_def\<close>)
  finally show ?thesis by (simp add: Block_Unmarshal_def Block_length ub.loop_end)
qed

lemma BlockPresence_put_Cid:
  "cast_ok cast c \<Longrightarrow> Cid_Size c + length rest \<le> l \<Longrightarrow> l < max_int \<Longrightarrow>
   BlockPresence_loop cast l (put_field 10 (Cid_Size c) (cid_KeyString c) @ rest) m =
   BlockPresence_loop cast l rest (m\<lparr>pbp_Cid := c\<rparr>)"
  unfolding put_field_def Cid_Size_def
  by (rule up.loop_field [where f = 1 and w = 2])
     (simp_all add: read_tags BlockPresence_field_def read_bytes_encode cast_ok_def Cid_Unmarshal_def)

lemma BlockPresence_put_Type:
  "pbp_Type m = 0 \<Longrightarrow>
   BlockPresence_loop cast l ((if p \<noteq> 0 then 16 # encodeVarintMessage (scast p) else []) @ rest) m =
   BlockPresence_loop cast l rest (m\<lparr>pbp_Type := p\<rparr>)"
  by (rule up.loop_optional [where f = 2 and w = 0])
     (simp_all add: read_tags BlockPresence_field_def read_int32_encode)

lemma BlockPresence_put_Auth:
  "pbp_Auth m = [] \<Longrightarrow> length a + length rest \<le> l \<Longrightarrow> l < max_int \<Longrightarrow>
   BlockPresence_loop cast l ((if length a > 0 then put_field 26 (length a) a else []) @ rest) m =
   BlockPresence_loop cast l rest (m\<lparr>pbp_Auth := a\<rparr>)"
  unfolding put_field_def
  by (rule up.loop_optional [where f = 3 and w = 2])
     (simp_all add: read_tags BlockPresence_field_def read_bytes_encode)

lemma BlockPresence_round_trip:
  assumes "cast_ok cast (pbp_Cid e)" and "BlockPresence_Size e < max_int"
  shows "BlockPresence_Unmarshal cast (BlockPresence_MarshalTo e) pb_BlockPresence0 = Inr e"
proof -
  let ?l = "BlockPresence_Size e"
  let ?auth = "if length (pbp_Auth e) > 0 then put_field 26 (length (pbp_Auth e)) (pbp_Auth e) else []"
  have "BlockPresence_loop cast ?l (BlockPresence_MarshalTo e) pb_BlockPresence0 =
      BlockPresence_loop cast ?l (?auth @ []) (e\<lparr>pbp_Auth := []\<rparr>)"
    unfolding BlockPresence_MarshalTo_def Cid_MarshalTo_eq
    apply (subst BlockPresence_put_Cid)
    subgoal by (rule assms)
    subgoal by (simp add: BlockPresence_Size_def field_size_def length_encodeVarint)
    subgoal by (rule assms)
    apply (subst BlockPresence_put_Type, simp add: pb_BlockPresence0_def)
    by (cases e) (simp add: pb_BlockPresence0_def)
  also have "\<dots> = BlockPresence_loop cast ?l [] e"
    by (subst BlockPresence_put_Auth) (use assms in \<open>simp_all add: BlockPresence_Size_def field_size_def\<close>)
  finally show ?thesis by (simp add: BlockPresence_Unmarshal_def BlockPresence_length up.loop_end)
qed

text \<open>Wantlists and messages: nested messages are appended one by one.\<close>

lemma Entry_Size_le: "e \<in> set (pbw_Entries m) \<Longrightarrow> Entry_Size e \<le> Wantlist_Size m"
  using member_le_sum_list [of "field_size (Entry_Size e)" "map (\<lambda>e. field_size (Entry_Size e)) (pbw_Entries m)"]
  by (auto simp: Wantlist_Size_def field_size_def)

lemma fold_append_Entries: "fold (\<lambda>x m. m\<lparr>pbw_Entries := pbw_Entries m @ [x]\<rparr>) xs m = m\<lparr>pbw_Entries := pbw_Entries m @ xs\<rparr>"
  by (induction xs arbitrary: m) simp_all

lemma Wantlist_put_Entries:
  assumes "\<forall>e \<in> set es. cast_ok cast (pbe_Block e)" and l: "l < max_int"
    and "length (concat (map (\<lambda>e. put_field 10 (Entry_Size e) (Entry_MarshalTo e)) es) @ rest) \<le> l"
  shows "Wantlist_loop cast l (concat (map (\<lambda>e. put_field 10 (Entry_Size e) (Entry_MarshalTo e)) es) @ rest) m =
         Wantlist_loop cast l rest (m\<lparr>pbw_Entries := pbw_Entries m @ es\<rparr>)"
  using assms(3) unfolding put_field_def
proof (intro uw.loop_repeated [where f = 1 and w = 2 and upd = "\<lambda>x m. m\<lparr>pbw_Entries := pbw_Entries m @ [x]\<rparr>"])
  fix x m pre rest
  assume "x \<in> set es" and "length ((encodeVarintMessage (word_of_nat (Entry_Size x)) @ Entry_MarshalTo x) @ rest) \<le> l"
  then show "Wantlist_field cast l 1 2 pre ((encodeVarintMessage (word_of_nat (Entry_Size x)) @ Entry_MarshalTo x) @ rest) m =
      Inr (m\<lparr>pbw_Entries := pbw_Entries m @ [x]\<rparr>, rest)"
    using assms(1) l read_bytes_encode [of "Entry_MarshalTo x" rest l] Entry_round_trip [of cast x]
    by (simp add: Wantlist_field_def Entry_length)
qed (simp_all add: read_tags fold_append_Entries)

lemma Wantlist_put_Full:
  "\<not> pbw_Full m \<Longrightarrow>
   Wantlist_loop cast l ((if b then [16, if b then 1 else 0] else []) @ rest) m =
   Wantlist_loop cast l rest (m\<lparr>pbw_Full := b\<rparr>)"
  by (rule uw.loop_optional [where f = 2 and w = 0])
     (simp_all add: read_tags Wantlist_field_def read_bool_true)

lemma Wantlist_round_trip:
  assumes "\<forall>e \<in> set (pbw_Entries w). cast_ok cast (pbe_Block e)" and "Wantlist_Size w < max_int"
  shows "Wantlist_Unmarshal cast (Wantlist_MarshalTo w) pb_Wantlist0 = Inr w"
proof -
  let ?l = "Wantlist_Size w"
  let ?full = "if pbw_Full w then [16, if pbw_Full w then 1 else 0] else []"
  have "Wantlist_loop cast ?l (Wantlist_MarshalTo w) pb_Wantlist0 =
      Wantlist_loop cast ?l (?full @ []) (w\<lparr>pbw_Full := False\<rparr>)"
    unfolding Wantlist_MarshalTo_def
    apply (subst Wantlist_put_Entries [OF assms])
    subgoal by (simp add: Wantlist_length [symmetric] Wantlist_MarshalTo_def)
    by (cases w) (simp add: pb_Wantlist0_def)
  also have "\<dots> = Wantlist_loop cast ?l [] w" by (subst Wantlist_put_Full) simp_all
  finally show ?thesis by (simp add: Wantlist_Unmarshal_def Wantlist_length uw.loop_end)
qed

lemma Message_put_Wantlist:
  assumes "\<forall>e \<in> set (pbw_Entries w). cast_ok cast (pbe_Block e)" and "l < max_int"
    and "length (put_field 10 (Wantlist_Size w) (Wantlist_MarshalTo w) @ rest) \<le> l" and "pbm_Wantlist m = pb_Wantlist0"
  shows "Message_loop cast l (put_field 10 (Wantlist_Size w) (Wantlist_MarshalTo w) @ rest) m =
         Message_loop cast l rest (m\<lparr>pbm_Wantlist := w\<rparr>)"
  unfolding put_field_def
proof (rule um.loop_field [where f = 1 and w = 2])
  fix pre
  have "Wantlist_Unmarshal cast (Wantlist_MarshalTo w) pb_Wantlist0 = Inr w"
    using assms by (intro Wantlist_round_trip) (simp_all add: Wantlist_length)
  then show "Message_field cast l 1 2 pre ((encodeVarintMessage (word_of_nat (Wantlist_Size w)) @ Wantlist_MarshalTo w) @ rest) m =
      Inr (m\<lparr>pbm_Wantlist := w\<rparr>, rest)"
    using assms read_bytes_encode [of "Wantlist_MarshalTo w" rest l]
    by (simp add: Message_field_def Wantlist_length)
qed (simp add: read_tags)

lemma fold_append_Blocks: "fold (\<lambda>x m. m\<lparr>pbm_Blocks := pbm_Blocks m @ [x]\<rparr>) xs m = m\<lparr>pbm_Blocks := pbm_Blocks m @ xs\<rparr>"
  by (induction xs arbitrary: m) simp_all

lemma fold_append_Payload: "fold (\<lambda>x m. m\<lparr>pbm_Payload := pbm_Payload m @ [x]\<rparr>) xs m = m\<lparr>pbm_Payload := pbm_Payload m @ xs\<rparr>"
  by (induction xs arbitrary: m) simp_all

lemma fold_append_BlockPresences:
  "fold (\<lambda>x m. m\<lparr>pbm_BlockPresences := pbm_BlockPresences m @ [x]\<rparr>) xs m =
   m\<lparr>pbm_BlockPresences := pbm_BlockPresences m @ xs\<rparr>"
  by (induction xs arbitrary: m) simp_all

lemma Message_put_Blocks:
  assumes l: "l < max_int" and "length (concat (map (\<lambda>b. put_field 18 (length b) b) bs) @ rest) \<le> l"
  shows "Message_loop cast l (concat (map (\<lambda>b. put_field 18 (length b) b) bs) @ rest) m =
         Message_loop cast l rest (m\<lparr>pbm_Blocks := pbm_Blocks m @ bs\<rparr>)"
  using assms(2) unfolding put_field_def
proof (intro um.loop_repeated [where f = 2 and w = 2 and upd = "\<lambda>x m. m\<lparr>pbm_Blocks := pbm_Blocks m @ [x]\<rparr>"])
  fix x :: bytes and m pre rest
  assume "length ((encodeVarintMessage (word_of_nat (length x)) @ x) @ rest) \<le> l"
  then show "Message_field cast l 2 2 pre ((encodeVarintMessage (word_of_nat (length x)) @ x) @ rest) m =
      Inr (m\<lparr>pbm_Blocks := pbm_Blocks m @ [x]\<rparr>, rest)"
    using l read_bytes_encode [of x rest l] by (simp add: Message_field_def)
qed (simp_all add: read_tags fold_append_Blocks)

lemma Message_put_Payload:
  assumes l: "l < max_int" and "length (concat (map (\<lambda>b. put_field 26 (Block_Size b) (Block_MarshalTo b)) bs) @ rest) \<le> l"
  shows "Message_loop cast l (concat (map (\<lambda>b. put_field 26 (Block_Size b) (Block_MarshalTo b)) bs) @ rest) m =
         Message_loop cast l rest (m\<lparr>pbm_Payload := pbm_Payload m @ bs\<rparr>)"
  using assms(2) unfolding put_field_def
proof (intro um.loop_repeated [where f = 3 and w = 2 and upd = "\<lambda>x m. m\<lparr>pbm_Payload := pbm_Payload m @ [x]\<rparr>"])
  fix x m pre rest
  assume "length ((encodeVarintMessage (word_of_nat (Block_Size x)) @ Block_MarshalTo x) @ rest) \<le> l"
  then show "Message_field cast l 3 2 pre ((encodeVarintMessage (word_of_nat (Block_Size x)) @ Block_MarshalTo x) @ rest) m =
      Inr (m\<lparr>pbm_Payload := pbm_Payload m @ [x]\<rparr>, rest)"
    using l read_bytes_encode [of "Block_MarshalTo x" rest l] Block_round_trip [of x]
    by (simp add: Message_field_def Block_length)
qed (simp_all add: read_tags fold_append_Payload)

lemma Message_put_BlockPresences:
  assumes "\<forall>b \<in> set bs. cast_ok cast (pbp_Cid b)" and l: "l < max_int"
    and "length (concat (map (\<lambda>b. put_field 34 (BlockPresence_Size b) (BlockPresence_MarshalTo b)) bs) @ rest) \<le> l"
  shows "Message_loop cast l (concat (map (\<lambda>b. put_field 34 (BlockPresence_Size b) (BlockPresence_MarshalTo b)) bs) @ rest) m =
         Message_loop cast l rest (m\<lparr>pbm_BlockPresences := pbm_BlockPresences m @ bs\<rparr>)"
  using assms(3) unfolding put_field_def
proof (intro um.loop_repeated [where f = 4 and w = 2 and upd = "\<lambda>x m. m\<lparr>pbm_BlockPresences := pbm_BlockPresences m @ [x]\<rparr>"])
  fix x m pre rest
  assume "x \<in> set bs" and "length ((encodeVarintMessage (word_of_nat (BlockPresence_Size x)) @ BlockPresence_MarshalTo x) @ rest) \<le> l"
  then show "Message_field cast l 4 2 pre ((encodeVarintMessage (word_of_nat (BlockPresence_Size x)) @ BlockPresence_MarshalTo x) @ rest) m =
      Inr (m\<lparr>pbm_BlockPresences := pbm_BlockPresences m @ [x]\<rparr>, rest)"
    using assms(1) l read_bytes_encode [of "BlockPresence_MarshalTo x" rest l] BlockPresence_round_trip [of cast x]
    by (simp add: Message_field_def BlockPresence_length)
qed (simp_all add: read_tags fold_append_BlockPresences)

lemma Message_put_PendingBytes:
  "pbm_PendingBytes m = 0 \<Longrightarrow>
   Message_loop cast l ((if p \<noteq> 0 then 40 # encodeVarintMessage (scast p) else []) @ rest) m =
   Message_loop cast l rest (m\<lparr>pbm_PendingBytes := p\<rparr>)"
  by (rule um.loop_optional [where f = 5 and w = 0])
     (simp_all add: read_tags Message_field_def read_int32_encode)

definition pb_cids :: "pb_Message \<Rightarrow> cid set" where
  "pb_cids m = pbe_Block ` set (pbw_Entries (pbm_Wantlist m)) \<union> pbp_Cid ` set (pbm_BlockPresences m)"

lemma Message_round_trip:
  assumes cids: "\<forall>c \<in> pb_cids m. cast_ok cast c" and l: "Message_Size m < max_int"
  shows "Message_Unmarshal cast (Message_MarshalTo m) pb_Message0 = Inr m"
proof -
  let ?l = "Message_Size m"
  let ?pend = "if pbm_PendingBytes m \<noteq> 0 then 40 # encodeVarintMessage (scast (pbm_PendingBytes m)) else []"
  have len: "length (Message_MarshalTo m) \<le> ?l" by (simp add: Message_length)
  have "Message_loop cast ?l (Message_MarshalTo m) pb_Message0 =
      Message_loop cast ?l (?pend @ []) (m\<lparr>pbm_PendingBytes := 0\<rparr>)"
    unfolding Message_MarshalTo_def
    apply (subst Message_put_Wantlist [OF _ l])
    subgoal using cids by (simp add: pb_cids_def)
    subgoal using len by (simp add: Message_MarshalTo_def)
    subgoal by (simp add: pb_Message0_def)
    apply (subst Message_put_Blocks [OF l])
    subgoal using len by (simp add: Message_MarshalTo_def)
    apply (subst Message_put_Payload [OF l])
    subgoal using len by (simp add: Message_MarshalTo_def)
    apply (subst Message_put_BlockPresences [OF _ l])
    subgoal using cids by (simp add: pb_cids_def)
    subgoal using len by (simp add: Message_MarshalTo_def)
    by (cases m) (simp add: pb_Message0_def)
  also have "\<dots> = Message_loop cast ?l [] m" by (subst Message_put_PendingBytes) simp_all
  finally show ?thesis by (simp add: Message_Unmarshal_def Message_length um.loop_end)
qed

text \<open>C10. Marshal never writes past the buffer it allocates with Size, fills it exactly, and Unmarshal of the
bytes gives the message back, for every message whose cids parse and whose size is an \<^verbatim>\<open>int\<close>.\<close>

theorem Message_Marshal_round_trip:
  assumes "\<forall>c \<in> pb_cids m. cast_ok cast c" and "Message_Size m < max_int"
  shows "\<exists>d. Message_Marshal m = Some d \<and> length d = Message_Size m \<and> Message_Unmarshal cast d pb_Message0 = Inr m"
  using assms by (simp add: Message_Marshal_def Let_def Message_length Message_round_trip)

definition sample_pb :: pb_Message where
  "sample_pb = \<lparr>pbm_Wantlist = \<lparr>pbw_Entries = [\<lparr>pbe_Block = ''q'', pbe_Priority = 7, pbe_Cancel = True,
       pbe_WantType = 1, pbe_SendDontHave = True, pbe_Auth = [1, 2]\<rparr>], pbw_Full = True\<rparr>,
     pbm_Blocks = [[9]], pbm_Payload = [\<lparr>pbb_Prefix = [1], pbb_Data = [5, 6], pbb_Auth = []\<rparr>],
     pbm_BlockPresences = [\<lparr>pbp_Cid = ''r'', pbp_Type = 1, pbp_Auth = [3]\<rparr>], pbm_PendingBytes = 300\<rparr>"

lemma sample_pb_Size: "Message_Size sample_pb = 46"
  by code_simp

lemma cast_ok_raw: "cast_ok (\<lambda>d. Inr (map (\<lambda>b. char_of (unat b)) d)) c"
proof -
  have "unat (of_char x :: 8 word) = of_char x" for x
  proof -
    have h: "(of_nat (horner_sum of_bool 2 bs) :: 8 word) = horner_sum of_bool 2 bs" for bs
      by (induction bs) simp_all
    have "unat (of_nat (of_char x) :: 8 word) = of_char x" by (simp only: unat_of_nat) simp
    then show ?thesis unfolding of_char_def h .
  qed
  then show ?thesis by (simp add: cast_ok_def cid_KeyString_def comp_def)
qed

theorem Message_Marshal_round_trip_witness:
  "\<exists>d. Message_Marshal sample_pb = Some d \<and> length d = Message_Size sample_pb \<and>
       Message_Unmarshal (\<lambda>d. Inr (map (\<lambda>b. char_of (unat b)) d)) d pb_Message0 = Inr sample_pb"
  by (rule Message_Marshal_round_trip) (simp_all add: cast_ok_raw sample_pb_Size max_int_def)

end
