(* ===== verification/Message.thy ===== *)
theory Message
  imports PbMessage
begin

text \<open>
  Package \<^verbatim>\<open>message\<close> (\<^verbatim>\<open>message/message.go\<close>): the message a peer assembles entry by entry, its protobuf forms
  for the two wire versions, and the reading of a received message. An authorisation string travels as
  the bytes its hexadecimal digits stand for. The CID and block packages (\<^verbatim>\<open>go-cid\<close>, \<^verbatim>\<open>go-block-format\<close>) are
  the record \<open>cid_pkg\<close> of functions; the framed reader of \<^verbatim>\<open>go-msgio\<close> is represented by what \<^verbatim>\<open>ReadMsg\<close> returns.
\<close>

unbundle bit_operations_syntax

section \<open>Hexadecimal strings\<close>

text \<open>\<^verbatim>\<open>encoding/hex\<close>: lower-case digits are written, both cases are read. \<^verbatim>\<open>DecodeString\<close> returns the bytes decoded
before the first error, and its callers here ignore the error.\<close>

definition hextable :: "char list" where
  "hextable = ''0123456789abcdef''"

definition hexChar :: "byte \<Rightarrow> char" where
  "hexChar n = hextable ! unat n"

definition fromHexChar :: "char \<Rightarrow> byte option" where
  "fromHexChar c =
     (let n = of_char c :: nat
      in if 48 \<le> n \<and> n \<le> 57 then Some (of_nat (n - 48))
         else if 97 \<le> n \<and> n \<le> 102 then Some (of_nat (n - 97 + 10))
         else if 65 \<le> n \<and> n \<le> 70 then Some (of_nat (n - 65 + 10))
         else None)"

definition EncodeToString :: "bytes \<Rightarrow> string" where
  "EncodeToString src = concat (map (\<lambda>b. [hexChar (drop_bit 4 b), hexChar (b AND 15)]) src)"

fun DecodeString :: "string \<Rightarrow> bytes" where
  "DecodeString (p # q # s) =
     (case fromHexChar p of
        None \<Rightarrow> []
      | Some a \<Rightarrow>
          (case fromHexChar q of
             None \<Rightarrow> []
           | Some b \<Rightarrow> (push_bit 4 a OR b) # DecodeString s))"
| "DecodeString _ = []"

text \<open>The strings that survive the wire: an even number of lower-case digits.\<close>

fun hex_ok :: "string \<Rightarrow> bool" where
  "hex_ok [] \<longleftrightarrow> True"
| "hex_ok [p] \<longleftrightarrow> False"
| "hex_ok (p # q # s) \<longleftrightarrow> p \<in> set hextable \<and> q \<in> set hextable \<and> hex_ok s"

lemma fromHexChar_hexChar: "n < 16 \<Longrightarrow> fromHexChar (hexChar n) = Some n"
proof -
  assume "n < 16"
  then have "unat n < 16" by (simp add: word_less_nat_alt)
  then have "unat n \<in> {0..<16}" by simp
  moreover have "\<forall>k \<in> {0..<16}. fromHexChar (hextable ! k) = Some (of_nat k)" by code_simp
  ultimately have "fromHexChar (hextable ! unat n) = Some (of_nat (unat n))" by blast
  then show ?thesis by (simp add: hexChar_def)
qed

lemma hexChar_fromHexChar:
  assumes "c \<in> set hextable"
  shows "\<exists>n < 16. fromHexChar c = Some n \<and> hexChar n = c"
proof -
  have "\<forall>c \<in> set hextable. case fromHexChar c of None \<Rightarrow> False | Some n \<Rightarrow> n < 16 \<and> hexChar n = c" by code_simp
  then show ?thesis using assms by (auto split: option.splits dest!: bspec)
qed

lemma low_nibble: "b AND 15 = take_bit 4 b" for b :: byte
  by (simp add: take_bit_eq_mask mask_eq_exp_minus_1)

lemma nibbles: "push_bit 4 (drop_bit 4 b) OR (b AND 15) = b" for b :: byte
  unfolding low_nibble by (rule bit_word_eqI) (auto simp: bit_simps)

lemma nibble_bounds: "drop_bit 4 b < 16" "b AND 15 < 16" for b :: byte
proof -
  have "unat b < 256" using unsigned_less [of b, where 'a = nat] by simp
  then have "unat b div 16 < 16" by linarith
  then show "drop_bit 4 b < 16" by (simp add: word_less_nat_alt unat_drop_bit_eq drop_bit_eq_div unat_div)
  show "b AND 15 < 16" unfolding low_nibble
    by (simp add: word_less_nat_alt unat_mod take_bit_eq_mod)
qed

lemma split_nibbles:
  "a < 16 \<Longrightarrow> b < 16 \<Longrightarrow> drop_bit 4 (push_bit 4 a OR b) = a \<and> (push_bit 4 a OR b) AND 15 = b" for a b :: byte
proof -
  assume ab: "a < 16" "b < 16"
  then have "take_bit 4 a = a" "take_bit 4 b = b"
    by (simp_all add: word_eq_iff_unsigned [where 'a = nat] unsigned_take_bit_eq take_bit_nat_eq_self word_less_nat_alt)
  then have "\<not> bit a n" "\<not> bit b n" if "4 \<le> n" for n
    using that by (metis bit_take_bit_iff not_le)+
  then show ?thesis unfolding low_nibble
    by (auto intro!: bit_word_eqI simp: bit_simps) (metis not_le)+
qed

lemma Decode_Encode [simp]: "DecodeString (EncodeToString bs) = bs"
  by (induction bs) (simp_all add: EncodeToString_def fromHexChar_hexChar nibbles nibble_bounds)

lemma Encode_Decode: "hex_ok s \<Longrightarrow> EncodeToString (DecodeString s) = s"
proof (induction s rule: hex_ok.induct)
  case (3 p q s)
  obtain a b where ab: "a < 16" "b < 16" "fromHexChar p = Some a" "fromHexChar q = Some b" "hexChar a = p" "hexChar b = q"
    using 3(2) hexChar_fromHexChar [of p] hexChar_fromHexChar [of q] by auto
  show ?case using 3 split_nibbles [OF ab(1,2)] ab(3-) by (simp add: EncodeToString_def)
qed (simp_all add: EncodeToString_def)

lemma hex_ok_Encode: "hex_ok (EncodeToString bs)"
proof (induction bs)
  case (Cons b bs)
  have "hexChar n \<in> set hextable" if "n < 16" for n
    unfolding hexChar_def using that by (intro nth_mem) (simp add: word_less_nat_alt hextable_def)
  then show ?case using Cons nibble_bounds [of b] by (simp add: EncodeToString_def)
qed (simp add: EncodeToString_def)

section \<open>Data\<close>

text \<open>The entry of a message embeds the entry of a wantlist.\<close>

record msg_Entry =
  me_Entry :: Entry
  me_Cancel :: bool
  me_SendDontHave :: bool

record msg_BlockPresence =
  mbp_Want :: Want
  mbp_Type :: BlockPresenceType

record impl =
  im_full :: bool
  im_wantlist :: "Want \<rightharpoonup> msg_Entry"
  im_blocks :: "Want \<rightharpoonup> AuthBlockImpl"
  im_rawData :: "Want \<rightharpoonup> bytes"
  im_blockPresences :: "Want \<rightharpoonup> BlockPresenceType"
  im_pendingBytes :: int32

definition ToPB :: "msg_Entry \<Rightarrow> pb_Entry" where
  "ToPB e = \<lparr>pbe_Block = want_Cid (e_Want (me_Entry e)), pbe_Priority = e_Priority (me_Entry e),
     pbe_Cancel = me_Cancel e, pbe_WantType = e_WantType (me_Entry e), pbe_SendDontHave = me_SendDontHave e,
     pbe_Auth = DecodeString (want_Auth (e_Want (me_Entry e)))\<rparr>"

definition msg_Entry_Size :: "msg_Entry \<Rightarrow> nat" where
  "msg_Entry_Size e = Entry_Size (ToPB e)"

text \<open>The cid of the sample entry, \<^verbatim>\<open>cid.NewCidV0(u.Hash([]byte("cid")))\<close>, is the argument.\<close>

definition maxEntrySize :: "cid \<Rightarrow> nat" where
  "maxEntrySize c =
     (let maxInt32 = push_bit 31 1 - 1 :: int32;
          a = replicate 120 CHR ''A'';
          e = \<lparr>me_Entry = \<lparr>e_Want = Want c a, e_Priority = maxInt32, e_WantType = Message_Wantlist_Have\<rparr>,
               me_Cancel = True, me_SendDontHave = True\<rparr>
      in msg_Entry_Size e)"

section \<open>Building a message\<close>

definition newMsg :: "bool \<Rightarrow> impl" where
  "newMsg full = \<lparr>im_full = full, im_wantlist = Map.empty, im_blocks = Map.empty, im_rawData = Map.empty,
     im_blockPresences = Map.empty, im_pendingBytes = 0\<rparr>"

text \<open>\<^verbatim>\<open>Clone\<close> copies three of the four maps. (It copies the pointers to entries: the clone and the original share them.)\<close>

definition impl_Clone :: "(Want set \<Rightarrow> Want list) \<Rightarrow> impl \<Rightarrow> impl" where
  "impl_Clone itw m =
     (let msg = newMsg (im_full m);
          msg = fold (\<lambda>k msg. msg\<lparr>im_wantlist := (im_wantlist msg)(k := im_wantlist m k)\<rparr>) (itw (dom (im_wantlist m))) msg;
          msg = fold (\<lambda>k msg. msg\<lparr>im_blocks := (im_blocks msg)(k := im_blocks m k)\<rparr>) (itw (dom (im_blocks m))) msg;
          msg = fold (\<lambda>k msg. msg\<lparr>im_blockPresences := (im_blockPresences msg)(k := im_blockPresences m k)\<rparr>)
                  (itw (dom (im_blockPresences m))) msg
      in msg\<lparr>im_pendingBytes := im_pendingBytes m\<rparr>)"

definition impl_Reset :: "(Want set \<Rightarrow> Want list) \<Rightarrow> bool \<Rightarrow> impl \<Rightarrow> impl" where
  "impl_Reset itw full m =
     (let m = m\<lparr>im_full := full\<rparr>;
          m = fold (\<lambda>k m. m\<lparr>im_wantlist := (im_wantlist m)(k := None)\<rparr>) (itw (dom (im_wantlist m))) m;
          m = fold (\<lambda>k m. m\<lparr>im_blocks := (im_blocks m)(k := None)\<rparr>) (itw (dom (im_blocks m))) m;
          m = fold (\<lambda>k m. m\<lparr>im_blockPresences := (im_blockPresences m)(k := None)\<rparr>) (itw (dom (im_blockPresences m))) m
      in m\<lparr>im_pendingBytes := 0\<rparr>)"

definition impl_Full :: "impl \<Rightarrow> bool" where
  "impl_Full m = im_full m"

definition impl_Empty :: "impl \<Rightarrow> bool" where
  "impl_Empty m \<longleftrightarrow> dom (im_blocks m) = {} \<and> dom (im_wantlist m) = {} \<and> dom (im_blockPresences m) = {}"

definition impl_Wantlist :: "(Want set \<Rightarrow> Want list) \<Rightarrow> impl \<Rightarrow> msg_Entry list" where
  "impl_Wantlist itw m = map_values itw (im_wantlist m)"

definition impl_Blocks :: "(Want set \<Rightarrow> Want list) \<Rightarrow> impl \<Rightarrow> AuthBlockImpl list" where
  "impl_Blocks itw m = map_values itw (im_blocks m)"

definition map_pairs :: "('k set \<Rightarrow> 'k list) \<Rightarrow> ('k \<rightharpoonup> 'v) \<Rightarrow> ('k \<times> 'v) list" where
  "map_pairs it m = List.map_filter (\<lambda>k. map_option (Pair k) (m k)) (it (dom m))"

definition impl_BlockPresences :: "(Want set \<Rightarrow> Want list) \<Rightarrow> impl \<Rightarrow> msg_BlockPresence list" where
  "impl_BlockPresences itw m =
     map (\<lambda>(c, t). \<lparr>mbp_Want = c, mbp_Type = t\<rparr>) (map_pairs itw (im_blockPresences m))"

definition getBlockPresenceByType :: "(Want set \<Rightarrow> Want list) \<Rightarrow> BlockPresenceType \<Rightarrow> impl \<Rightarrow> Want list" where
  "getBlockPresenceByType itw t m = map fst (filter (\<lambda>(c, bpt). bpt = t) (map_pairs itw (im_blockPresences m)))"

definition impl_Haves :: "(Want set \<Rightarrow> Want list) \<Rightarrow> impl \<Rightarrow> Want list" where
  "impl_Haves itw m = getBlockPresenceByType itw Message_Have m"

definition impl_DontHaves :: "(Want set \<Rightarrow> Want list) \<Rightarrow> impl \<Rightarrow> Want list" where
  "impl_DontHaves itw m = getBlockPresenceByType itw Message_DontHave m"

definition impl_PendingBytes :: "impl \<Rightarrow> int32" where
  "impl_PendingBytes m = im_pendingBytes m"

definition impl_SetPendingBytes :: "int32 \<Rightarrow> impl \<Rightarrow> impl" where
  "impl_SetPendingBytes pendingBytes m = m\<lparr>im_pendingBytes := pendingBytes\<rparr>"

definition impl_Remove :: "Want \<Rightarrow> impl \<Rightarrow> impl" where
  "impl_Remove w m = m\<lparr>im_wantlist := (im_wantlist m)(w := None)\<rparr>"

definition merge_entry :: "int32 \<Rightarrow> bool \<Rightarrow> WantType \<Rightarrow> bool \<Rightarrow> msg_Entry \<Rightarrow> msg_Entry" where
  "merge_entry priority cancel wantType sendDontHave e =
     (let e = (if e_WantType (me_Entry e) = wantType
               then e\<lparr>me_Entry := (me_Entry e)\<lparr>e_Priority := priority\<rparr>\<rparr> else e);
          e = (if cancel then e\<lparr>me_Cancel := cancel\<rparr> else e);
          e = (if sendDontHave then e\<lparr>me_SendDontHave := sendDontHave\<rparr> else e)
      in if wantType = Message_Wantlist_Block \<and> e_WantType (me_Entry e) = Message_Wantlist_Have
         then e\<lparr>me_Entry := (me_Entry e)\<lparr>e_WantType := wantType\<rparr>\<rparr> else e)"

definition impl_addEntry :: "Want \<Rightarrow> int32 \<Rightarrow> bool \<Rightarrow> WantType \<Rightarrow> bool \<Rightarrow> impl \<Rightarrow> nat \<times> impl" where
  "impl_addEntry w priority cancel wantType sendDontHave m =
     (case im_wantlist m w of
        Some e \<Rightarrow>
          (0, m\<lparr>im_wantlist := (im_wantlist m)(w \<mapsto> merge_entry priority cancel wantType sendDontHave e)\<rparr>)
      | None \<Rightarrow>
          let e = \<lparr>me_Entry = \<lparr>e_Want = w, e_Priority = priority, e_WantType = wantType\<rparr>,
                   me_Cancel = cancel, me_SendDontHave = sendDontHave\<rparr>
          in (msg_Entry_Size e, m\<lparr>im_wantlist := (im_wantlist m)(w \<mapsto> e)\<rparr>))"

definition impl_Cancel :: "Want \<Rightarrow> impl \<Rightarrow> nat \<times> impl" where
  "impl_Cancel w m = impl_addEntry w 0 True Message_Wantlist_Block False m"

definition impl_AddEntry :: "Want \<Rightarrow> int32 \<Rightarrow> WantType \<Rightarrow> bool \<Rightarrow> impl \<Rightarrow> nat \<times> impl" where
  "impl_AddEntry w priority wantType sendDontHave m = impl_addEntry w priority False wantType sendDontHave m"

definition impl_AddBlock :: "block \<Rightarrow> string \<Rightarrow> impl \<Rightarrow> impl" where
  "impl_AddBlock b a m =
     (let w = Want (block_Cid b) a;
          m = m\<lparr>im_blockPresences := (im_blockPresences m)(w := None)\<rparr>;
          m = m\<lparr>im_blocks := (im_blocks m)(w \<mapsto> NewBlock b a)\<rparr>
      in m\<lparr>im_rawData := (im_rawData m)(w \<mapsto> block_RawData b)\<rparr>)"

definition impl_AddBlockPresence :: "Want \<Rightarrow> BlockPresenceType \<Rightarrow> impl \<Rightarrow> impl" where
  "impl_AddBlockPresence c t m =
     (case im_blocks m c of
        Some _ \<Rightarrow> m
      | None \<Rightarrow> m\<lparr>im_blockPresences := (im_blockPresences m)(c \<mapsto> t)\<rparr>)"

definition impl_AddHave :: "Want \<Rightarrow> impl \<Rightarrow> impl" where
  "impl_AddHave c m = impl_AddBlockPresence c Message_Have m"

definition impl_AddDontHave :: "Want \<Rightarrow> impl \<Rightarrow> impl" where
  "impl_AddDontHave c m = impl_AddBlockPresence c Message_DontHave m"

definition BlockPresenceSize :: "Want \<Rightarrow> nat" where
  "BlockPresenceSize w =
     BlockPresence_Size \<lparr>pbp_Cid = want_Cid w, pbp_Type = Message_Have, pbp_Auth = DecodeString (want_Auth w)\<rparr>"

definition impl_Size :: "(Want set \<Rightarrow> Want list) \<Rightarrow> impl \<Rightarrow> int" where
  "impl_Size itw m =
     (let size = fold (\<lambda>block size. size + AuthBlock_Size block) (map_values itw (im_blocks m)) 0;
          size = fold (\<lambda>c size. size + int (BlockPresenceSize c)) (itw (dom (im_blockPresences m))) size
      in fold (\<lambda>e size. size + int (msg_Entry_Size e)) (map_values itw (im_wantlist m)) size)"

section \<open>Protobuf forms\<close>

text \<open>go-cid and go-block-format: the prefix of a cid as bytes, parsing a prefix, hashing data under a prefix,
the two block constructors, and \<^verbatim>\<open>cid.Cast\<close>.\<close>

record 'p cid_pkg =
  pkg_Cast :: cid_cast
  pkg_PrefixBytes :: "cid \<Rightarrow> bytes"
  pkg_PrefixFromBytes :: "bytes \<Rightarrow> string + 'p"
  pkg_Sum :: "'p \<Rightarrow> bytes \<Rightarrow> string + cid"
  pkg_NewBlock :: "bytes \<Rightarrow> block"
  pkg_NewBlockWithCid :: "bytes \<Rightarrow> cid \<Rightarrow> string + block"

datatype msg_error = ErrRead string | ErrPb pb_error | errCidMissing | ErrBlock string

definition raw_of :: "impl \<Rightarrow> Want \<Rightarrow> bytes" where
  "raw_of m c = (case im_rawData m c of None \<Rightarrow> [] | Some d \<Rightarrow> d)"

definition ToProtoV0 :: "(Want set \<Rightarrow> Want list) \<Rightarrow> impl \<Rightarrow> pb_Message" where
  "ToProtoV0 itw m = pb_Message0
     \<lparr>pbm_Wantlist := \<lparr>pbw_Entries = map ToPB (map_values itw (im_wantlist m)), pbw_Full = im_full m\<rparr>,
      pbm_Blocks := map (raw_of m) (itw (dom (im_blocks m)))\<rparr>"

definition payload_of :: "'p cid_pkg \<Rightarrow> impl \<Rightarrow> Want \<times> AuthBlockImpl \<Rightarrow> pb_Block" where
  "payload_of K m cb = (case cb of (c, b) \<Rightarrow>
     \<lparr>pbb_Prefix = pkg_PrefixBytes K (AuthBlock_Cid b), pbb_Data = raw_of m c,
      pbb_Auth = DecodeString (want_Auth (AuthBlock_Want b))\<rparr>)"

definition presence_pb :: "Want \<times> BlockPresenceType \<Rightarrow> pb_BlockPresence" where
  "presence_pb ct = (case ct of (c, t) \<Rightarrow>
     \<lparr>pbp_Cid = want_Cid c, pbp_Type = t, pbp_Auth = DecodeString (want_Auth c)\<rparr>)"

definition ToProtoV1 :: "'p cid_pkg \<Rightarrow> (Want set \<Rightarrow> Want list) \<Rightarrow> impl \<Rightarrow> pb_Message" where
  "ToProtoV1 K itw m = pb_Message0
     \<lparr>pbm_Wantlist := \<lparr>pbw_Entries = map ToPB (map_values itw (im_wantlist m)), pbw_Full = im_full m\<rparr>,
      pbm_Payload := map (payload_of K m) (map_pairs itw (im_blocks m)),
      pbm_BlockPresences := map presence_pb (map_pairs itw (im_blockPresences m)),
      pbm_PendingBytes := impl_PendingBytes m\<rparr>"

fun proto_entries :: "pb_Entry list \<Rightarrow> impl \<Rightarrow> msg_error + impl" where
  "proto_entries [] m = Inr m"
| "proto_entries (e # es) m =
     (if \<not> cid_Defined (pbe_Block e) then Inl errCidMissing
      else proto_entries es
             (snd (impl_addEntry (Want (pbe_Block e) (EncodeToString (pbe_Auth e)))
                (pbe_Priority e) (pbe_Cancel e) (pbe_WantType e) (pbe_SendDontHave e) m)))"

fun proto_payload :: "'p cid_pkg \<Rightarrow> pb_Block list \<Rightarrow> impl \<Rightarrow> msg_error + impl" where
  "proto_payload K [] m = Inr m"
| "proto_payload K (b # bs) m =
     (case pkg_PrefixFromBytes K (pbb_Prefix b) of
        Inl e \<Rightarrow> Inl (ErrBlock e)
      | Inr pref \<Rightarrow>
          (case pkg_Sum K pref (pbb_Data b) of
             Inl e \<Rightarrow> Inl (ErrBlock e)
           | Inr c \<Rightarrow>
               (case pkg_NewBlockWithCid K (pbb_Data b) c of
                  Inl e \<Rightarrow> Inl (ErrBlock e)
                | Inr blk \<Rightarrow> proto_payload K bs (impl_AddBlock blk (EncodeToString (pbb_Auth b)) m))))"

fun proto_presences :: "pb_BlockPresence list \<Rightarrow> impl \<Rightarrow> msg_error + impl" where
  "proto_presences [] m = Inr m"
| "proto_presences (bi # bis) m =
     (if \<not> cid_Defined (pbp_Cid bi) then Inl errCidMissing
      else proto_presences bis
             (impl_AddBlockPresence (Want (pbp_Cid bi) (EncodeToString (pbp_Auth bi))) (pbp_Type bi) m))"

definition newMessageFromProto :: "'p cid_pkg \<Rightarrow> pb_Message \<Rightarrow> msg_error + impl" where
  "newMessageFromProto K pbm =
     (case proto_entries (pbw_Entries (pbm_Wantlist pbm)) (newMsg (pbw_Full (pbm_Wantlist pbm))) of
        Inl e \<Rightarrow> Inl e
      | Inr m \<Rightarrow>
          let m = fold (\<lambda>d m. impl_AddBlock (pkg_NewBlock K d) [] m) (pbm_Blocks pbm) m
          in case proto_payload K (pbm_Payload pbm) m of
               Inl e \<Rightarrow> Inl e
             | Inr m \<Rightarrow>
                 (case proto_presences (pbm_BlockPresences pbm) m of
                    Inl e \<Rightarrow> Inl e
                  | Inr m \<Rightarrow> Inr (m\<lparr>im_pendingBytes := pbm_PendingBytes pbm\<rparr>)))"

text \<open>\<open>r\<close> is what \<^verbatim>\<open>ReadMsg\<close> returns: an error or the bytes of one frame.\<close>

definition FromMsgReader :: "'p cid_pkg \<Rightarrow> string + bytes \<Rightarrow> msg_error + impl" where
  "FromMsgReader K r =
     (case r of
        Inl e \<Rightarrow> Inl (ErrRead e)
      | Inr msg \<Rightarrow>
          (case Message_Unmarshal (pkg_Cast K) msg pb_Message0 of
             Inl e \<Rightarrow> Inl (ErrPb e)
           | Inr p \<Rightarrow> newMessageFromProto K p))"

text \<open>\<^verbatim>\<open>binary.PutUvarint\<close>, and the bytes \<^verbatim>\<open>write\<close> hands to the writer. The buffer has \<open>size + 10\<close> bytes; writing
past it would panic: \<open>None\<close>.\<close>

function PutUvarint :: "uint64 \<Rightarrow> bytes" where
  "PutUvarint x = (if x \<ge> 128 then (ucast x OR 128) # PutUvarint (drop_bit 7 x) else [ucast x])"
  by auto
termination
proof (relation "measure unat")
  fix x :: uint64
  assume "x \<ge> 128"
  then have "128 \<le> unat x" by (simp add: word_le_nat_alt)
  then show "(drop_bit 7 x, x) \<in> measure unat" by (simp add: unat_drop_bit_eq drop_bit_eq_div unat_div)
qed simp

declare PutUvarint.simps [simp del]

definition write_msg :: "pb_Message \<Rightarrow> bytes option" where
  "write_msg m =
     (let size = Message_Size m;
          buf = size + 10;
          out = PutUvarint (of_nat size) @ Message_MarshalTo m
      in if length out > buf then None else Some out)"

definition ToNetV0 :: "(Want set \<Rightarrow> Want list) \<Rightarrow> impl \<Rightarrow> bytes option" where
  "ToNetV0 itw m = write_msg (ToProtoV0 itw m)"

definition ToNetV1 :: "'p cid_pkg \<Rightarrow> (Want set \<Rightarrow> Want list) \<Rightarrow> impl \<Rightarrow> bytes option" where
  "ToNetV1 K itw m = write_msg (ToProtoV1 K itw m)"

section \<open>Well-formed messages\<close>

text \<open>Entries and blocks are filed under their own want, the data of every block is at hand, and no want
has both a block and a presence.\<close>

definition impl_wf :: "impl \<Rightarrow> bool" where
  "impl_wf m \<longleftrightarrow>
     finite (dom (im_wantlist m)) \<and> finite (dom (im_blocks m)) \<and> finite (dom (im_blockPresences m)) \<and>
     (\<forall>w e. im_wantlist m w = Some e \<longrightarrow> e_Want (me_Entry e) = w) \<and>
     (\<forall>w b. im_blocks m w = Some b \<longrightarrow>
        ab_want b = w \<and> block_Cid (ab_block b) = want_Cid w \<and>
        im_rawData m w = Some (block_RawData (ab_block b))) \<and>
     dom (im_blocks m) \<inter> dom (im_blockPresences m) = {}"

lemma impl_wfD:
  assumes "impl_wf m"
  shows "finite (dom (im_wantlist m))" "finite (dom (im_blocks m))" "finite (dom (im_blockPresences m))"
    "im_wantlist m w = Some e \<Longrightarrow> e_Want (me_Entry e) = w"
    "im_blocks m w = Some b \<Longrightarrow> ab_want b = w"
    "im_blocks m w = Some b \<Longrightarrow> block_Cid (ab_block b) = want_Cid w"
    "im_blocks m w = Some b \<Longrightarrow> im_rawData m w = Some (block_RawData (ab_block b))"
    "im_blocks m w = Some b \<Longrightarrow> im_blockPresences m w = None"
  using assms unfolding impl_wf_def by auto

lemma newMsg_wf [inv_intros]: "impl_wf (newMsg full)"
  by (simp add: impl_wf_def newMsg_def)

lemma merge_entry_Want [simp]: "e_Want (me_Entry (merge_entry p c t d e)) = e_Want (me_Entry e)"
  by (simp add: merge_entry_def Let_def)

lemma addEntry_wf [inv_intros]: "impl_wf m \<Longrightarrow> impl_wf (snd (impl_addEntry w p c t d m))"
  by (auto simp: impl_wf_def impl_addEntry_def Let_def split: option.splits)

lemma Cancel_wf [inv_intros]: "impl_wf m \<Longrightarrow> impl_wf (snd (impl_Cancel w m))"
  by (simp add: impl_Cancel_def addEntry_wf)

lemma AddEntry_wf [inv_intros]: "impl_wf m \<Longrightarrow> impl_wf (snd (impl_AddEntry w p t d m))"
  by (simp add: impl_AddEntry_def addEntry_wf)

lemma Remove_wf [inv_intros]: "impl_wf m \<Longrightarrow> impl_wf (impl_Remove w m)"
  by (auto simp: impl_wf_def impl_Remove_def)

lemma NewBlock_block [simp]: "ab_block (NewBlock b a) = b"
  by (simp add: NewBlock_def)

lemma AddBlock_wf [inv_intros]: "impl_wf m \<Longrightarrow> impl_wf (impl_AddBlock b a m)"
  unfolding impl_wf_def impl_AddBlock_def Let_def
  by (auto simp: NewBlock_def NewWant_def)

lemma AddBlockPresence_wf [inv_intros]: "impl_wf m \<Longrightarrow> impl_wf (impl_AddBlockPresence c t m)"
  by (auto simp: impl_wf_def impl_AddBlockPresence_def split: option.splits)

lemma SetPendingBytes_wf [inv_intros]: "impl_wf m \<Longrightarrow> impl_wf (impl_SetPendingBytes n m)"
  by (simp add: impl_wf_def impl_SetPendingBytes_def)

lemma NewBlock_collapse: "ab_want b = w \<Longrightarrow> block_Cid (ab_block b) = want_Cid w \<Longrightarrow> NewBlock (ab_block b) (want_Auth w) = b"
  by (cases b) (auto simp: NewBlock_def NewWant_def)

lemma delete_all_keys: "iterates it \<Longrightarrow> finite (dom f) \<Longrightarrow> fold (\<lambda>k f. f(k := None)) (it (dom f)) f = Map.empty"
  by (simp add: fold_map_delete) (auto simp: restrict_map_def fun_eq_iff)

lemma copy_all_keys:
  "iterates it \<Longrightarrow> finite (dom f) \<Longrightarrow> fold (\<lambda>k g. g(k := f k)) (it (dom f)) Map.empty = f"
proof -
  have "fold (\<lambda>k g. g(k := f k)) ks g = (\<lambda>k. if k \<in> set ks then f k else g k)" for ks g
    by (induction ks arbitrary: g) (auto simp: fun_eq_iff)
  then show "iterates it \<Longrightarrow> finite (dom f) \<Longrightarrow> ?thesis" by (auto simp: fun_eq_iff dom_def)
qed

lemma fold_wantlist: "fold (\<lambda>k m. m\<lparr>im_wantlist := (im_wantlist m)(k := f k)\<rparr>) ks m =
    m\<lparr>im_wantlist := fold (\<lambda>k g. g(k := f k)) ks (im_wantlist m)\<rparr>"
  by (induction ks arbitrary: m) simp_all

lemma fold_blocks: "fold (\<lambda>k m. m\<lparr>im_blocks := (im_blocks m)(k := f k)\<rparr>) ks m =
    m\<lparr>im_blocks := fold (\<lambda>k g. g(k := f k)) ks (im_blocks m)\<rparr>"
  by (induction ks arbitrary: m) simp_all

lemma fold_presences: "fold (\<lambda>k m. m\<lparr>im_blockPresences := (im_blockPresences m)(k := f k)\<rparr>) ks m =
    m\<lparr>im_blockPresences := fold (\<lambda>k g. g(k := f k)) ks (im_blockPresences m)\<rparr>"
  by (induction ks arbitrary: m) simp_all

lemma Reset_eq:
  assumes "impl_wf m" and "iterates itw"
  shows "impl_Reset itw full m =
    \<lparr>im_full = full, im_wantlist = Map.empty, im_blocks = Map.empty, im_rawData = im_rawData m,
     im_blockPresences = Map.empty, im_pendingBytes = 0\<rparr>"
  using assms impl_wfD(1-3) [OF assms(1)]
  by (simp add: impl_Reset_def Let_def fold_wantlist fold_blocks fold_presences delete_all_keys)

lemma Reset_wf [inv_intros]: "impl_wf m \<Longrightarrow> iterates itw \<Longrightarrow> impl_wf (impl_Reset itw full m)"
  by (simp add: Reset_eq impl_wf_def)

lemma Clone_eq:
  assumes "impl_wf m" and "iterates itw"
  shows "impl_Clone itw m = m\<lparr>im_rawData := Map.empty\<rparr>"
  using assms impl_wfD(1-3) [OF assms(1)]
  by (simp add: impl_Clone_def newMsg_def Let_def fold_wantlist fold_blocks fold_presences copy_all_keys)

lemma map_pairs_eq:
  "iterates it \<Longrightarrow> finite (dom m) \<Longrightarrow> map_pairs it m = map (\<lambda>k. (k, the (m k))) (it (dom m))"
proof -
  have "set ks \<subseteq> dom m \<Longrightarrow> List.map_filter (\<lambda>k. map_option (Pair k) (m k)) ks = map (\<lambda>k. (k, the (m k))) ks" for ks
    by (induction ks) (auto simp: List.map_filter_def)
  then show "iterates it \<Longrightarrow> finite (dom m) \<Longrightarrow> ?thesis" by (simp add: map_pairs_def)
qed

section \<open>Across the wire\<close>

text \<open>What go-cid and go-block-format document of a block whose cid is the hash of its data: the prefix of the
cid parses, hashing the data under it gives the cid, and the block constructor accepts the pair.\<close>

definition block_ok :: "'p cid_pkg \<Rightarrow> block \<Rightarrow> bool" where
  "block_ok K b \<longleftrightarrow>
     (case pkg_PrefixFromBytes K (pkg_PrefixBytes K (block_Cid b)) of
        Inl _ \<Rightarrow> False
      | Inr p \<Rightarrow> pkg_Sum K p (block_RawData b) = Inr (block_Cid b)) \<and>
     pkg_NewBlockWithCid K (block_RawData b) (block_Cid b) = Inr b"

definition want_sendable :: "Want \<Rightarrow> bool" where
  "want_sendable w \<longleftrightarrow> cid_Defined (want_Cid w) \<and> hex_ok (want_Auth w)"

definition impl_sendable :: "'p cid_pkg \<Rightarrow> impl \<Rightarrow> bool" where
  "impl_sendable K m \<longleftrightarrow>
     (\<forall>w \<in> dom (im_wantlist m) \<union> dom (im_blocks m) \<union> dom (im_blockPresences m). want_sendable w) \<and>
     (\<forall>w \<in> dom (im_wantlist m) \<union> dom (im_blockPresences m). cast_ok (pkg_Cast K) (want_Cid w)) \<and>
     (\<forall>b \<in> ran (im_blocks m). block_ok K (ab_block b))"

lemma proto_entries_ToPB:
  assumes "distinct ks" and "set ks \<subseteq> dom wl" and "set ks \<inter> dom (im_wantlist m0) = {}"
    and "\<And>w e. wl w = Some e \<Longrightarrow> e_Want (me_Entry e) = w" and "\<forall>w \<in> set ks. want_sendable w"
  shows "proto_entries (map (ToPB \<circ> (the \<circ> wl)) ks) m0 = Inr (m0\<lparr>im_wantlist := im_wantlist m0 ++ (wl |` set ks)\<rparr>)"
  using assms
proof (induction ks arbitrary: m0)
  case (Cons k ks)
  obtain e where e: "wl k = Some e" using Cons.prems(2) by auto
  have k: "e_Want (me_Entry e) = k" using Cons.prems(4) e by blast
  have s: "cid_Defined (want_Cid k)" "EncodeToString (DecodeString (want_Auth k)) = want_Auth k"
    using Cons.prems(5) by (simp_all add: want_sendable_def Encode_Decode)
  have n: "im_wantlist m0 k = None" using Cons.prems(3) by auto
  let ?m = "m0\<lparr>im_wantlist := (im_wantlist m0)(k \<mapsto> e)\<rparr>"
  have "proto_entries (map (ToPB \<circ> (the \<circ> wl)) (k # ks)) m0 = proto_entries (map (ToPB \<circ> (the \<circ> wl)) ks) ?m"
    using e k s n by (cases e; cases "me_Entry e") (simp add: ToPB_def impl_addEntry_def Let_def)
  also have "\<dots> = Inr (?m\<lparr>im_wantlist := im_wantlist ?m ++ (wl |` set ks)\<rparr>)"
    using Cons.prems by (intro Cons.IH) (auto split: if_splits)
  also have "im_wantlist ?m ++ (wl |` set ks) = im_wantlist m0 ++ (wl |` set (k # ks))"
    using Cons.prems(1) e by (auto simp: fun_eq_iff map_add_def restrict_map_def split: option.splits)
  finally show ?case by simp
qed simp

lemma AddBlock_eq:
  "impl_AddBlock b a m = m\<lparr>im_blockPresences := (im_blockPresences m)(Want (block_Cid b) a := None),
     im_blocks := (im_blocks m)(Want (block_Cid b) a \<mapsto> NewBlock b a),
     im_rawData := (im_rawData m)(Want (block_Cid b) a \<mapsto> block_RawData b)\<rparr>"
  by (simp add: impl_AddBlock_def Let_def)

lemma proto_payload_of:
  assumes "impl_wf m" and "set ks \<subseteq> dom (im_blocks m)"
    and "\<forall>w \<in> set ks. want_sendable w \<and> block_ok K (ab_block (the (im_blocks m w)))"
    and "im_blockPresences m0 = Map.empty"
  shows "proto_payload K (map (payload_of K m \<circ> (\<lambda>k. (k, the (im_blocks m k)))) ks) m0 =
    Inr (m0\<lparr>im_blocks := im_blocks m0 ++ (im_blocks m |` set ks), im_rawData := im_rawData m0 ++ (im_rawData m |` set ks)\<rparr>)"
  using assms(2-)
proof (induction ks arbitrary: m0)
  case (Cons k ks)
  obtain b where b: "im_blocks m k = Some b" using Cons.prems(1) by auto
  note wf = impl_wfD(5-7) [OF assms(1) b]
  have s: "EncodeToString (DecodeString (want_Auth k)) = want_Auth k" and ok: "block_ok K (ab_block b)"
    using Cons.prems(2) b by (simp_all add: want_sendable_def Encode_Decode)
  let ?m = "m0\<lparr>im_blocks := (im_blocks m0)(k \<mapsto> b), im_rawData := (im_rawData m0)(k \<mapsto> block_RawData (ab_block b))\<rparr>"
  have kw: "Want (want_Cid k) (want_Auth k) = k" by simp
  have add: "impl_AddBlock (ab_block b) (want_Auth k) m0 = ?m"
    using Cons.prems(3) wf NewBlock_collapse [OF wf(1,2)] by (simp add: AddBlock_eq)
  obtain pref where p: "pkg_PrefixFromBytes K (pkg_PrefixBytes K (block_Cid (ab_block b))) = Inr pref"
    "pkg_Sum K pref (block_RawData (ab_block b)) = Inr (block_Cid (ab_block b))"
    "pkg_NewBlockWithCid K (block_RawData (ab_block b)) (block_Cid (ab_block b)) = Inr (ab_block b)"
    using ok by (auto simp: block_ok_def split: sum.splits)
  have "proto_payload K (map (payload_of K m \<circ> (\<lambda>k. (k, the (im_blocks m k)))) (k # ks)) m0 =
      proto_payload K (map (payload_of K m \<circ> (\<lambda>k. (k, the (im_blocks m k)))) ks) ?m"
    using p add wf s b
    by (simp add: payload_of_def raw_of_def AuthBlock_Cid_def AuthBlock_Want_def)
  also have "\<dots> = Inr (?m\<lparr>im_blocks := im_blocks ?m ++ (im_blocks m |` set ks), im_rawData := im_rawData ?m ++ (im_rawData m |` set ks)\<rparr>)"
    using Cons.prems by (intro Cons.IH) auto
  also have "im_blocks ?m ++ (im_blocks m |` set ks) = im_blocks m0 ++ (im_blocks m |` set (k # ks))"
    using b by (auto simp: fun_eq_iff map_add_def restrict_map_def split: option.splits)
  also have "im_rawData ?m ++ (im_rawData m |` set ks) = im_rawData m0 ++ (im_rawData m |` set (k # ks))"
    using wf by (auto simp: fun_eq_iff map_add_def restrict_map_def split: option.splits)
  finally show ?case by simp
qed simp

lemma proto_presences_pb:
  assumes "set ks \<subseteq> dom ps" and "\<forall>w \<in> set ks. want_sendable w" and "set ks \<inter> dom (im_blocks m0) = {}"
  shows "proto_presences (map (presence_pb \<circ> (\<lambda>k. (k, the (ps k)))) ks) m0 =
    Inr (m0\<lparr>im_blockPresences := im_blockPresences m0 ++ (ps |` set ks)\<rparr>)"
  using assms
proof (induction ks arbitrary: m0)
  case (Cons k ks)
  obtain t where t: "ps k = Some t" using Cons.prems(1) by auto
  have s: "cid_Defined (want_Cid k)" "EncodeToString (DecodeString (want_Auth k)) = want_Auth k"
    using Cons.prems(2) by (simp_all add: want_sendable_def Encode_Decode)
  have n: "im_blocks m0 k = None" using Cons.prems(3) by auto
  let ?m = "m0\<lparr>im_blockPresences := (im_blockPresences m0)(k \<mapsto> t)\<rparr>"
  have "proto_presences (map (presence_pb \<circ> (\<lambda>k. (k, the (ps k)))) (k # ks)) m0 =
      proto_presences (map (presence_pb \<circ> (\<lambda>k. (k, the (ps k)))) ks) ?m"
    using t s n by (simp add: presence_pb_def impl_AddBlockPresence_def)
  also have "\<dots> = Inr (?m\<lparr>im_blockPresences := im_blockPresences ?m ++ (ps |` set ks)\<rparr>)"
    using Cons.prems by (intro Cons.IH) auto
  also have "im_blockPresences ?m ++ (ps |` set ks) = im_blockPresences m0 ++ (ps |` set (k # ks))"
    using t by (auto simp: fun_eq_iff map_add_def restrict_map_def split: option.splits)
  finally show ?case by simp
qed simp

lemma restrict_dom [simp]: "m |` dom m = m"
proof
  show "(m |` dom m) x = m x" for x by (cases "m x") (auto simp: restrict_map_def)
qed

lemma FromProto_ToProtoV1:
  assumes wf: "impl_wf m" and it: "iterates itw" and ok: "impl_sendable K m"
    and raw: "dom (im_rawData m) = dom (im_blocks m)"
  shows "newMessageFromProto K (ToProtoV1 K itw m) = Inr m"
proof -
  note fin = impl_wfD(1-3) [OF wf]
  let ?m0 = "newMsg (im_full m)"
  let ?m1 = "?m0\<lparr>im_wantlist := im_wantlist m\<rparr>"
  let ?m2 = "?m1\<lparr>im_blocks := im_blocks m, im_rawData := im_rawData m\<rparr>"
  have 1: "proto_entries (map ToPB (map_values itw (im_wantlist m))) ?m0 = Inr ?m1"
    using proto_entries_ToPB [of "itw (dom (im_wantlist m))" "im_wantlist m" ?m0] ok it fin impl_wfD(4) [OF wf]
    by (simp add: map_values_eq impl_sendable_def newMsg_def)
  have 2: "proto_payload K (map (payload_of K m) (map_pairs itw (im_blocks m))) ?m1 = Inr ?m2"
  proof -
    have "block_ok K (ab_block (the (im_blocks m w)))" if "w \<in> dom (im_blocks m)" for w
      using that ok by (auto simp: impl_sendable_def ranI)
    moreover have "want_sendable w" if "w \<in> dom (im_blocks m)" for w using that ok by (simp add: impl_sendable_def)
    moreover have "im_rawData m |` dom (im_blocks m) = im_rawData m" using restrict_dom [of "im_rawData m"] raw by simp
    ultimately show ?thesis
      using proto_payload_of [OF wf, of "itw (dom (im_blocks m))" K ?m1] it fin
      by (simp add: map_pairs_eq newMsg_def)
  qed
  have 3: "proto_presences (map presence_pb (map_pairs itw (im_blockPresences m))) ?m2 =
      Inr (?m2\<lparr>im_blockPresences := im_blockPresences m\<rparr>)"
  proof -
    have "dom (im_blockPresences m) \<inter> dom (im_blocks m) = {}" using wf by (auto simp: impl_wf_def)
    then show ?thesis
      using proto_presences_pb [of "itw (dom (im_blockPresences m))" "im_blockPresences m" ?m2] ok it fin
      by (simp add: map_pairs_eq impl_sendable_def newMsg_def)
  qed
  show ?thesis using 1 2 3
    by (cases m) (simp add: newMessageFromProto_def ToProtoV1_def pb_Message0_def impl_PendingBytes_def newMsg_def)
qed

lemma put_byte: "(ucast x OR 128 :: byte) = ucast (x AND 127 OR 128)" for x :: uint64
proof (rule bit_word_eqI)
  fix n
  show "bit (ucast x OR 128 :: byte) n = bit (ucast (x AND 127 OR 128) :: byte) n" if "n < LENGTH(8)"
    using that unfolding and_127 bit_or_iff bit_ucast_iff bit_take_bit_iff bit_128 by auto
qed

lemma PutUvarint_eq: "PutUvarint v = encodeVarintMessage v"
  by (induction v rule: PutUvarint.induct) (simp add: PutUvarint.simps encodeVarintMessage.simps put_byte)

lemma write_msg_eq: "write_msg m = Some (PutUvarint (of_nat (Message_Size m)) @ Message_MarshalTo m)"
  using sov_bounds [of "of_nat (Message_Size m)"]
  by (simp add: write_msg_def Let_def PutUvarint_eq length_encodeVarint Message_length)

text \<open>C9. A well-formed message whose authorisations are lower-case hexadecimal and whose cids are those of its
blocks is framed by ToNetV1 as a length and that many bytes, and FromMsgReader on those bytes gives back the
same message: wants, cancels, blocks, presences and pending bytes.\<close>

theorem ToNetV1_round_trip:
  assumes "impl_wf m" and "iterates itw" and "impl_sendable K m" and "dom (im_rawData m) = dom (im_blocks m)"
    and "Message_Size (ToProtoV1 K itw m) < max_int"
  shows "\<exists>d. ToNetV1 K itw m = Some (PutUvarint (of_nat (length d)) @ d) \<and> FromMsgReader K (Inr d) = Inr m"
proof (intro exI conjI)
  let ?d = "Message_MarshalTo (ToProtoV1 K itw m)"
  show "ToNetV1 K itw m = Some (PutUvarint (of_nat (length ?d)) @ ?d)"
    by (simp add: ToNetV1_def write_msg_eq Message_length)
  have "Message_Unmarshal (pkg_Cast K) ?d pb_Message0 = Inr (ToProtoV1 K itw m)"
    using assms impl_wfD(1,3,4) [OF assms(1)]
    by (intro Message_round_trip)
       (auto simp: pb_cids_def ToProtoV1_def pb_Message0_def ToPB_def map_values_eq map_pairs_eq
        presence_pb_def impl_sendable_def)
  then show "FromMsgReader K (Inr ?d) = Inr m"
    using FromProto_ToProtoV1 [OF assms(1-4)] by (simp add: FromMsgReader_def)
qed

definition sample_pkg :: "unit cid_pkg" where
  "sample_pkg = \<lparr>pkg_Cast = (\<lambda>d. Inr (map (\<lambda>b. char_of (unat b)) d)), pkg_PrefixBytes = (\<lambda>c. [18, 32]),
     pkg_PrefixFromBytes = (\<lambda>d. if d = [18, 32] then Inr () else Inl ''prefix''),
     pkg_Sum = (\<lambda>_ d. if d = [65, 66] then Inr ''hAB'' else Inl ''data''),
     pkg_NewBlock = (\<lambda>d. \<lparr>block_Cid = ''hAB'', block_RawData = d\<rparr>),
     pkg_NewBlockWithCid = (\<lambda>d c. Inr \<lparr>block_Cid = c, block_RawData = d\<rparr>)\<rparr>"

definition sample_msg :: impl where
  "sample_msg = impl_SetPendingBytes 7 (impl_AddHave (Want ''r'' ''0f'')
     (impl_AddBlock \<lparr>block_Cid = ''hAB'', block_RawData = [65, 66]\<rparr> ''c0de''
       (snd (impl_Cancel (Want ''p'' ''ab'') (snd (impl_AddEntry (Want ''q'' []) 5 Message_Wantlist_Have True (newMsg True)))))))"

lemma sample_msg_wf: "impl_wf sample_msg"
  unfolding sample_msg_def impl_AddHave_def by (intro inv_intros)

lemma sample_msg_eq:
  "sample_msg = \<lparr>im_full = True,
     im_wantlist = [Want ''q'' [] \<mapsto> \<lparr>me_Entry = \<lparr>e_Want = Want ''q'' [], e_Priority = 5, e_WantType = 1\<rparr>, me_Cancel = False, me_SendDontHave = True\<rparr>,
       Want ''p'' ''ab'' \<mapsto> \<lparr>me_Entry = \<lparr>e_Want = Want ''p'' ''ab'', e_Priority = 0, e_WantType = 0\<rparr>, me_Cancel = True, me_SendDontHave = False\<rparr>],
     im_blocks = [Want ''hAB'' ''c0de'' \<mapsto> NewBlock \<lparr>block_Cid = ''hAB'', block_RawData = [65, 66]\<rparr> ''c0de''],
     im_rawData = [Want ''hAB'' ''c0de'' \<mapsto> [65, 66]], im_blockPresences = [Want ''r'' ''0f'' \<mapsto> 0], im_pendingBytes = 7\<rparr>"
  by (simp add: sample_msg_def impl_SetPendingBytes_def impl_AddHave_def impl_AddBlockPresence_def AddBlock_eq
      impl_Cancel_def impl_AddEntry_def impl_addEntry_def newMsg_def Let_def)

lemma sample_msg_sendable: "impl_sendable sample_pkg sample_msg"
proof -
  have "cast_ok (pkg_Cast sample_pkg) c" for c by (simp add: sample_pkg_def cast_ok_raw)
  then show ?thesis
    by (auto simp: impl_sendable_def sample_msg_eq want_sendable_def cid_Defined_def hextable_def block_ok_def sample_pkg_def)
qed

lemma sample_msg_proto:
  "ToProtoV1 sample_pkg sorted_list_of_set sample_msg =
   \<lparr>pbm_Wantlist = \<lparr>pbw_Entries =
        [\<lparr>pbe_Block = ''p'', pbe_Priority = 0, pbe_Cancel = True, pbe_WantType = 0, pbe_SendDontHave = False, pbe_Auth = [171]\<rparr>,
         \<lparr>pbe_Block = ''q'', pbe_Priority = 5, pbe_Cancel = False, pbe_WantType = 1, pbe_SendDontHave = True, pbe_Auth = []\<rparr>],
      pbw_Full = True\<rparr>,
    pbm_Blocks = [], pbm_Payload = [\<lparr>pbb_Prefix = [18, 32], pbb_Data = [65, 66], pbb_Auth = [192, 222]\<rparr>],
    pbm_BlockPresences = [\<lparr>pbp_Cid = ''r'', pbp_Type = 0, pbp_Auth = [15]\<rparr>], pbm_PendingBytes = 7\<rparr>"
proof -
  have d: "DecodeString ''ab'' = [171]" "DecodeString ''c0de'' = [192, 222]" "DecodeString ''0f'' = [15]"
    by code_simp+
  show ?thesis
    by (simp add: ToProtoV1_def sample_msg_eq pb_Message0_def map_values_eq map_pairs_eq ToPB_def payload_of_def raw_of_def
        presence_pb_def impl_PendingBytes_def sample_pkg_def less_eq_Want_def d AuthBlock_Want_def NewBlock_def NewWant_def
        del: DecodeString.simps(1))
qed

lemma sample_msg_Size: "Message_Size (ToProtoV1 sample_pkg sorted_list_of_set sample_msg) = 49"
  unfolding sample_msg_proto by code_simp

theorem ToNetV1_round_trip_witness:
  "\<exists>d. ToNetV1 sample_pkg sorted_list_of_set sample_msg = Some (PutUvarint (of_nat (length d)) @ d) \<and>
       FromMsgReader sample_pkg (Inr d) = Inr sample_msg"
  by (rule ToNetV1_round_trip)
     (simp_all add: sample_msg_wf sample_msg_sendable sample_msg_Size max_int_def, simp add: sample_msg_eq)

section \<open>What a message holds\<close>

text \<open>Every message the package builds or reads.\<close>

inductive msg_built :: "'p cid_pkg \<Rightarrow> impl \<Rightarrow> bool" for K :: "'p cid_pkg" where
  new: "msg_built K (newMsg full)"
| add: "msg_built K m \<Longrightarrow> msg_built K (snd (impl_AddEntry w p t d m))"
| cancel: "msg_built K m \<Longrightarrow> msg_built K (snd (impl_Cancel w m))"
| remove: "msg_built K m \<Longrightarrow> msg_built K (impl_Remove w m)"
| block: "msg_built K m \<Longrightarrow> msg_built K (impl_AddBlock b a m)"
| presence: "msg_built K m \<Longrightarrow> msg_built K (impl_AddBlockPresence w t' m)"
| pending: "msg_built K m \<Longrightarrow> msg_built K (impl_SetPendingBytes n m)"
| reset: "msg_built K m \<Longrightarrow> iterates itw \<Longrightarrow> msg_built K (impl_Reset itw full m)"
| read: "FromMsgReader K r = Inr m \<Longrightarrow> msg_built K m"

lemma proto_entries_wf: "proto_entries es m = Inr m' \<Longrightarrow> impl_wf m \<Longrightarrow> impl_wf m'"
  by (induction es m rule: proto_entries.induct) (auto split: if_splits intro: addEntry_wf)

lemma proto_payload_wf: "proto_payload K bs m = Inr m' \<Longrightarrow> impl_wf m \<Longrightarrow> impl_wf m'"
  by (induction K bs m rule: proto_payload.induct) (auto split: sum.splits intro: AddBlock_wf)

lemma proto_presences_wf: "proto_presences bs m = Inr m' \<Longrightarrow> impl_wf m \<Longrightarrow> impl_wf m'"
  by (induction bs m rule: proto_presences.induct) (auto split: if_splits intro: AddBlockPresence_wf)

lemma newMessageFromProto_wf: "newMessageFromProto K pbm = Inr m \<Longrightarrow> impl_wf m"
proof -
  assume "newMessageFromProto K pbm = Inr m"
  then obtain m1 m2 m3 where m1: "proto_entries (pbw_Entries (pbm_Wantlist pbm)) (newMsg (pbw_Full (pbm_Wantlist pbm))) = Inr m1"
    and m2: "proto_payload K (pbm_Payload pbm) (fold (\<lambda>d m. impl_AddBlock (pkg_NewBlock K d) [] m) (pbm_Blocks pbm) m1) = Inr m2"
    and m3: "proto_presences (pbm_BlockPresences pbm) m2 = Inr m3" and m: "m = m3\<lparr>im_pendingBytes := pbm_PendingBytes pbm\<rparr>"
    by (auto simp: newMessageFromProto_def Let_def split: sum.splits)
  have "impl_wf m1" using proto_entries_wf [OF m1] newMsg_wf by blast
  then have "impl_wf (fold (\<lambda>d m. impl_AddBlock (pkg_NewBlock K d) [] m) (pbm_Blocks pbm) m1)"
    by (intro fold_invariant [where P = impl_wf] AddBlock_wf)
  then have "impl_wf m3" using proto_payload_wf [OF m2] proto_presences_wf [OF m3] by blast
  then show ?thesis using SetPendingBytes_wf [of m3 "pbm_PendingBytes pbm"] by (simp add: m impl_SetPendingBytes_def)
qed

lemma FromMsgReader_wf: "FromMsgReader K r = Inr m \<Longrightarrow> impl_wf m"
  by (auto simp: FromMsgReader_def split: sum.splits intro: newMessageFromProto_wf)



text \<open>The entry that a series of calls for one want leaves.\<close>

datatype add_call = AddCall (call_priority: int32) (call_cancel: bool) (call_type: WantType) (call_sendDontHave: bool)

fun apply_call :: "Want \<Rightarrow> add_call \<Rightarrow> impl \<Rightarrow> impl" where
  "apply_call w (AddCall p c t d) m = snd (impl_addEntry w p c t d m)"

definition entry_summary :: "msg_Entry \<Rightarrow> add_call list \<Rightarrow> bool" where
  "entry_summary e cs \<longleftrightarrow>
     me_Cancel e = (\<exists>c \<in> set cs. call_cancel c) \<and> me_SendDontHave e = (\<exists>c \<in> set cs. call_sendDontHave c) \<and>
     e_WantType (me_Entry e) = (if \<exists>c \<in> set cs. call_type c = Message_Wantlist_Block then Message_Wantlist_Block else Message_Wantlist_Have) \<and>
     (\<exists>c \<in> set cs. e_Priority (me_Entry e) = call_priority c)"

lemma merge_entry_sel:
  "me_Cancel (merge_entry p c t d e) \<longleftrightarrow> me_Cancel e \<or> c"
  "me_SendDontHave (merge_entry p c t d e) \<longleftrightarrow> me_SendDontHave e \<or> d"
  "e_WantType (me_Entry (merge_entry p c t d e)) =
     (if t = Message_Wantlist_Block \<and> e_WantType (me_Entry e) = Message_Wantlist_Have then Message_Wantlist_Block
      else e_WantType (me_Entry e))"
  "e_Priority (me_Entry (merge_entry p c t d e)) = (if e_WantType (me_Entry e) = t then p else e_Priority (me_Entry e))"
  by (simp_all add: merge_entry_def Let_def)

lemma merge_summary:
  assumes "entry_summary e cs" and "t = Message_Wantlist_Block \<or> t = Message_Wantlist_Have"
  shows "entry_summary (merge_entry p c t d e) (cs @ [AddCall p c t d])"
proof (cases "\<exists>c \<in> set cs. call_type c = Message_Wantlist_Block")
  case True
  then show ?thesis using assms by (simp add: entry_summary_def merge_entry_sel) blast
next
  case False
  then show ?thesis using assms by (simp add: entry_summary_def merge_entry_sel) blast
qed

text \<open>C33. However many times AddEntry and Cancel are called for a want that the message does not hold yet, the
message ends with one entry: it is a cancel iff some call was, asks for a DONT_HAVE iff some call did, is a
want-block iff some call was one, and no other entry changes.\<close>

theorem addEntry_history:
  assumes "cs \<noteq> []" and "\<forall>c \<in> set cs. call_type c = Message_Wantlist_Block \<or> call_type c = Message_Wantlist_Have"
    and "im_wantlist m w = None"
  shows "(\<exists>e. im_wantlist (fold (apply_call w) cs m) w = Some e \<and> e_Want (me_Entry e) = w \<and> entry_summary e cs) \<and>
    (\<forall>w'. w' \<noteq> w \<longrightarrow> im_wantlist (fold (apply_call w) cs m) w' = im_wantlist m w')"
  using assms(1,2)
proof (induction cs rule: rev_nonempty_induct)
  case (single c)
  then show ?case using assms(3)
    by (cases c) (auto simp: impl_addEntry_def Let_def entry_summary_def)
next
  case (snoc c cs)
  obtain e where e: "im_wantlist (fold (apply_call w) cs m) w = Some e" "e_Want (me_Entry e) = w" "entry_summary e cs"
    and o: "\<forall>w'. w' \<noteq> w \<longrightarrow> im_wantlist (fold (apply_call w) cs m) w' = im_wantlist m w'"
    using snoc by auto
  show ?case using snoc.prems e o merge_summary [OF e(3)] by (cases c) (auto simp: impl_addEntry_def)
qed

theorem addEntry_history_witness:
  "let cs = [AddCall 3 False Message_Wantlist_Have True, AddCall 9 False Message_Wantlist_Block False]
   in \<exists>e. im_wantlist (fold (apply_call (Want ''k'' [])) cs (newMsg False)) (Want ''k'' []) = Some e \<and>
          e_WantType (me_Entry e) = Message_Wantlist_Block \<and> me_SendDontHave e \<and> \<not> me_Cancel e"
  using addEntry_history [of "[AddCall 3 False Message_Wantlist_Have True, AddCall 9 False Message_Wantlist_Block False]"
      "newMsg False" "Want ''k'' []"]
  by (auto simp: newMsg_def entry_summary_def)

text \<open>C35. A clone of a well-formed message keeps the blocks but loses their bytes: every block the clone puts on the
wire has no data.\<close>

theorem Clone_drops_data:
  assumes "impl_wf m" and "iterates itw"
  shows "im_blocks (impl_Clone itw m) = im_blocks m \<and>
    (\<forall>b \<in> set (pbm_Payload (ToProtoV1 K itw (impl_Clone itw m))). pbb_Data b = [])"
  using assms by (auto simp: Clone_eq ToProtoV1_def payload_of_def raw_of_def)

theorem Clone_drops_data_witness:
  "im_blocks (impl_Clone sorted_list_of_set sample_msg) \<noteq> Map.empty \<and>
   pbb_Data ` set (pbm_Payload (ToProtoV1 sample_pkg sorted_list_of_set (impl_Clone sorted_list_of_set sample_msg))) \<subseteq> {[]}"
  using Clone_drops_data [OF sample_msg_wf iterates_sorted_list_of_set, of sample_pkg] by (auto simp: sample_msg_eq)

section \<open>Sizes\<close>

lemma sum_list_iter: "iterates it \<Longrightarrow> finite S \<Longrightarrow> sum_list (map f (it S)) = sum f S"
  by (simp add: sum_list_distinct_conv_sum_set)

lemma fold_plus: "fold (\<lambda>x n. n + f x) xs n = n + sum_list (map f xs)" for n :: int
  by (induction xs arbitrary: n) simp_all

lemma impl_Size_eq:
  assumes "impl_wf m" and "iterates itw"
  shows "impl_Size itw m =
    (\<Sum>w \<in> dom (im_blocks m). AuthBlock_Size (the (im_blocks m w))) +
    (\<Sum>w \<in> dom (im_blockPresences m). int (BlockPresenceSize w)) +
    (\<Sum>w \<in> dom (im_wantlist m). int (msg_Entry_Size (the (im_wantlist m w))))"
  using assms impl_wfD(1-3) [OF assms(1)]
  by (simp add: impl_Size_def Let_def fold_plus map_values_eq sum_list_iter comp_def)

text \<open>C34. The size of a message grows by exactly what adding an entry for a new want returns, and does not
depend on the order in which the maps are visited.\<close>

theorem addEntry_Size:
  assumes "impl_wf m" and "iterates itw" and "iterates itw'" and "im_wantlist m w = None"
  shows "impl_Size itw (snd (impl_addEntry w p c t d m)) = impl_Size itw' m + int (fst (impl_addEntry w p c t d m))"
proof -
  have "(\<Sum>v \<in> dom (im_wantlist m). int (msg_Entry_Size (the (((im_wantlist m)(w \<mapsto> e)) v)))) =
      (\<Sum>v \<in> dom (im_wantlist m). int (msg_Entry_Size (the (im_wantlist m v))))" for e
    using assms(4) by (intro sum.cong) auto
  moreover have "w \<notin> dom (im_wantlist m)" using assms(4) by auto
  ultimately show ?thesis
    using assms addEntry_wf [OF assms(1), of w p c t d] impl_wfD(1) [OF assms(1)]
    by (simp add: impl_Size_eq) (simp add: impl_addEntry_def Let_def)
qed

theorem addEntry_Size_witness:
  "impl_Size sorted_list_of_set (snd (impl_Cancel (Want ''z'' ''00'') sample_msg)) =
   impl_Size sorted_list_of_set sample_msg + int (fst (impl_Cancel (Want ''z'' ''00'') sample_msg))"
  unfolding impl_Cancel_def
  by (rule addEntry_Size [OF sample_msg_wf]) (simp_all add: sample_msg_eq)

lemma length_DecodeString: "length (DecodeString s) \<le> length s div 2"
  by (induction s rule: DecodeString.induct) (auto split: option.splits)

lemma sov_len: "n < 128 \<Longrightarrow> sovMessage (of_nat n) = 1"
proof (rule sov_small)
  assume "n < 128"
  then show "(of_nat n :: 64 word) < 128" by (simp add: word_less_nat_alt unat_of_nat)
qed

lemma sov_le: "unat v < 2 ^ (7 * Suc k) \<Longrightarrow> sovMessage v \<le> Suc k"
proof (induction k arbitrary: v)
  case 0
  then show ?case by (simp add: sov_small word_less_nat_alt)
next
  case (Suc k)
  show ?case
  proof (cases "v < 128")
    case True
    then show ?thesis by (simp add: sov_small)
  next
    case False
    have "7 * Suc (Suc k) = 7 * Suc k + 7" by simp
    then have "unat v < 2 ^ (7 * Suc k) * 2 ^ 7" using Suc.prems by (simp only: power_add)
    then have "unat (drop_bit 7 v) < 2 ^ (7 * Suc k)"
      by (simp only: drop_bit_eq_div unat_div) (simp add: less_mult_imp_div_less)
    then show ?thesis using Suc.IH False by (simp add: sov_step)
  qed
qed

lemma sov_priority: "0 \<le> sint p \<Longrightarrow> sovMessage (scast p) \<le> 5" for p :: int32
proof -
  assume p: "0 \<le> sint p"
  have lt: "sint p < 2 ^ 31" using sint_lt [of p] by simp
  have "uint (scast p :: 64 word) = take_bit 64 (sint p)" unfolding scast_eq by (simp only: unsigned_of_int) simp
  also have "\<dots> = sint p" using lt p by (intro take_bit_int_eq_self) auto
  finally have "unat (scast p :: 64 word) = nat (sint p)" by (metis unat_eq_nat_uint)
  also have "\<dots> < 2 ^ 35" using lt p by (simp add: nat_less_iff)
  finally show ?thesis using sov_le [of "scast p :: 64 word" 4] by simp
qed

text \<open>The bound on which the message queue sizes its messages: an entry whose cid is no longer than the 34
bytes of a version 0 cid and whose authorisation has at most 120 characters takes at most
MaxEntrySize bytes, which is 110.\<close>

theorem maxEntrySize_bound:
  assumes "length c = 34" and "length (want_Cid (e_Want (me_Entry e))) \<le> 34" and "length (want_Auth (e_Want (me_Entry e))) \<le> 120"
    and "0 \<le> sint (e_Priority (me_Entry e))" and "e_WantType (me_Entry e) = Message_Wantlist_Block \<or> e_WantType (me_Entry e) = Message_Wantlist_Have"
  shows "maxEntrySize c = 110 \<and> msg_Entry_Size e \<le> maxEntrySize c"
proof
  have d: "length (DecodeString (replicate 120 CHR ''A'')) = 60" by code_simp
  have s: "sovMessage (scast (push_bit 31 1 - 1 :: int32)) = 5" by (simp add: sov_step sov_small)
  show max: "maxEntrySize c = 110"
    using assms(1) s sov_len [of 34] sov_len [of 60]
    by (simp add: maxEntrySize_def Let_def msg_Entry_Size_def Entry_Size_def ToPB_def field_size_def Cid_Size_def
        cid_KeyString_def d sov_small flip: length_greater_0_conv)
  let ?e = "ToPB e"
  have "length (pbe_Auth ?e) \<le> 60" using length_DecodeString [of "want_Auth (e_Want (me_Entry e))"] assms(3) by (simp add: ToPB_def)
  then have "(if length (pbe_Auth ?e) > 0 then field_size (length (pbe_Auth ?e)) else 0) \<le> 62"
    by (simp add: field_size_def sov_len)
  moreover have "field_size (Cid_Size (pbe_Block ?e)) \<le> 36"
    using assms(2) by (simp add: field_size_def sov_len Cid_Size_def cid_KeyString_def ToPB_def)
  moreover have "(if pbe_Priority ?e \<noteq> 0 then 1 + sovMessage (scast (pbe_Priority ?e)) else 0) \<le> 6"
    using sov_priority [OF assms(4)] by (simp add: ToPB_def)
  moreover have "(if pbe_WantType ?e \<noteq> 0 then 1 + sovMessage (scast (pbe_WantType ?e)) else 0) \<le> 2"
    using assms(5) by (auto simp: ToPB_def sov_small)
  moreover have "(if pbe_Cancel ?e then 2 else 0) \<le> (2 :: nat)" "(if pbe_SendDontHave ?e then 2 else 0) \<le> (2 :: nat)" by simp_all
  ultimately show "msg_Entry_Size e \<le> maxEntrySize c"
    unfolding max msg_Entry_Size_def Entry_Size_def by linarith
qed

theorem maxEntrySize_bound_witness:
  "msg_Entry_Size \<lparr>me_Entry = \<lparr>e_Want = Want (replicate 34 CHR ''c'') (replicate 100 CHR ''f''), e_Priority = 77, e_WantType = Message_Wantlist_Have\<rparr>,
     me_Cancel = True, me_SendDontHave = True\<rparr> \<le> maxEntrySize (replicate 34 CHR ''q'')"
  by (rule maxEntrySize_bound [THEN conjunct2]) simp_all

end
