(* ===== verification/DontHaveTimeout.thy ===== *)
theory DontHaveTimeout
  imports Auth Complex_Main
begin

text \<open>
  \<^verbatim>\<open>internal/messagequeue/donthavetimeoutmgr.go\<close>: simulates a DONT_HAVE for wants that a peer does not answer in
  time. A pending want is shared by the map of active wants and the queue, and cancelling marks it through the
  map: pending wants live in a store \<open>dh_store\<close> and both hold addresses. The context is the flag \<open>dh_done\<close>; the
  goroutines \<^verbatim>\<open>fireTimeout\<close> started by a check are the lists in \<open>dh_firing\<close>; every operation that reads the clock
  takes the reading \<open>now\<close>. Durations are unbounded integers: a wrap would take a latency of decades. The
  weight \<^verbatim>\<open>alpha\<close> is a rational: it is \<open>1\<close> or \<open>1/2\<close>, for which \<^verbatim>\<open>float64\<close> arithmetic is exact below
  \<open>2 ^ 52\<close> nanoseconds.
\<close>

section \<open>Data\<close>

abbreviation (input) dontHaveTimeout :: duration where
  "dontHaveTimeout \<equiv> 5 * second"

abbreviation (input) maxExpectedWantProcessTime :: duration where
  "maxExpectedWantProcessTime \<equiv> 2 * second"

abbreviation (input) maxTimeout :: duration where
  "maxTimeout \<equiv> dontHaveTimeout + maxExpectedWantProcessTime"

record pendingWant =
  pw_c :: Want
  pw_active :: bool
  pw_sent :: time

record latencyEwma =
  le_alpha :: rat
  le_samples :: uint64
  le_latency :: duration

record dontHaveTimeoutMgr =
  dh_done :: bool
  dh_defaultTimeout :: duration
  dh_maxTimeout :: duration
  dh_pingLatencyMultiplier :: int
  dh_messageLatencyMultiplier :: int
  dh_maxExpectedWantProcessTime :: duration
  dh_started :: bool
  dh_store :: "nat \<rightharpoonup> pendingWant"
  dh_next :: nat
  dh_activeWants :: "Want \<rightharpoonup> nat"
  dh_wantQueue :: "nat list"
  dh_timeout :: duration
  dh_messageLatency :: latencyEwma
  dh_timer :: "timer option"
  dh_firing :: "Want list list"

definition newDontHaveTimeoutMgrWithParams ::
  "duration \<Rightarrow> duration \<Rightarrow> int \<Rightarrow> int \<Rightarrow> duration \<Rightarrow> dontHaveTimeoutMgr" where
  "newDontHaveTimeoutMgrWithParams defTimeout maxT pingMult msgMult procTime =
     \<lparr>dh_done = False, dh_defaultTimeout = defTimeout, dh_maxTimeout = maxT, dh_pingLatencyMultiplier = pingMult,
      dh_messageLatencyMultiplier = msgMult, dh_maxExpectedWantProcessTime = procTime, dh_started = False,
      dh_store = Map.empty, dh_next = 0, dh_activeWants = Map.empty, dh_wantQueue = [], dh_timeout = defTimeout,
      dh_messageLatency = \<lparr>le_alpha = 1/2, le_samples = 0, le_latency = 0\<rparr>, dh_timer = None, dh_firing = []\<rparr>"

definition newDontHaveTimeoutMgr :: dontHaveTimeoutMgr where
  "newDontHaveTimeoutMgr =
     newDontHaveTimeoutMgrWithParams dontHaveTimeout maxTimeout 3 2 maxExpectedWantProcessTime"

section \<open>Latency\<close>

text \<open>The conversion to \<^verbatim>\<open>time.Duration\<close> truncates towards zero.\<close>

definition truncate :: "rat \<Rightarrow> int" where
  "truncate x = (if x \<ge> 0 then floor x else ceiling x)"

definition ewma_update :: "duration \<Rightarrow> latencyEwma \<Rightarrow> latencyEwma" where
  "ewma_update elapsed le =
     (let le = le\<lparr>le_samples := le_samples le + 1\<rparr>;
          alpha = 1 / of_nat (unat (le_samples le));
          alpha = (if alpha < le_alpha le then le_alpha le else alpha)
      in le\<lparr>le_latency := truncate (of_int elapsed * alpha + (1 - alpha) * of_int (le_latency le))\<rparr>)"

definition calculateTimeoutFromPingLatency :: "duration \<Rightarrow> dontHaveTimeoutMgr \<Rightarrow> duration" where
  "calculateTimeoutFromPingLatency latency dhtm =
     (let timeout = dh_maxExpectedWantProcessTime dhtm + dh_pingLatencyMultiplier dhtm * latency
      in if timeout > dh_maxTimeout dhtm then dh_maxTimeout dhtm else timeout)"

definition calculateTimeoutFromMessageLatency :: "dontHaveTimeoutMgr \<Rightarrow> duration" where
  "calculateTimeoutFromMessageLatency dhtm =
     (let timeout = le_latency (dh_messageLatency dhtm) * dh_messageLatencyMultiplier dhtm
      in if timeout > dh_maxTimeout dhtm then dh_maxTimeout dhtm else timeout)"

section \<open>Checking for timeouts\<close>

text \<open>The loop over the queue: cancelled wants are dropped, expired ones collected and made inactive, and it
stops at the first active want that is young enough. A queue address is always in the store.\<close>

fun check_loop ::
  "(nat \<rightharpoonup> pendingWant) \<Rightarrow> time \<Rightarrow> duration \<Rightarrow> nat list \<Rightarrow> (Want \<rightharpoonup> nat) \<Rightarrow> Want list
     \<Rightarrow> nat list \<times> (Want \<rightharpoonup> nat) \<times> Want list" where
  "check_loop st now timeout [] active expired = ([], active, expired)"
| "check_loop st now timeout (i # q) active expired =
     (case st i of
        None \<Rightarrow> (i # q, active, expired)
      | Some pw \<Rightarrow>
          if pw_active pw then
            (if time_Sub now (pw_sent pw) < timeout then (i # q, active, expired)
             else check_loop st now timeout q (active(pw_c pw := None)) (expired @ [pw_c pw]))
          else check_loop st now timeout q active expired)"

definition sent_of :: "dontHaveTimeoutMgr \<Rightarrow> nat \<Rightarrow> time" where
  "sent_of dhtm i = (case dh_store dhtm i of None \<Rightarrow> 0 | Some pw \<Rightarrow> pw_sent pw)"

definition checkForTimeouts :: "time \<Rightarrow> dontHaveTimeoutMgr \<Rightarrow> dontHaveTimeoutMgr" where
  "checkForTimeouts now dhtm =
     (if dh_wantQueue dhtm = [] then dhtm
      else case check_loop (dh_store dhtm) now (dh_timeout dhtm) (dh_wantQueue dhtm) (dh_activeWants dhtm) [] of
             (q, active, expired) \<Rightarrow>
               let dhtm = dhtm\<lparr>dh_wantQueue := q, dh_activeWants := active\<rparr>;
                   dhtm = (if expired \<noteq> [] then dhtm\<lparr>dh_firing := dh_firing dhtm @ [expired]\<rparr> else dhtm)
               in case q of
                    [] \<Rightarrow> dhtm
                  | i # _ \<Rightarrow>
                      if dh_done dhtm then dhtm
                      else let oldestStart = sent_of dhtm i;
                               until = time_Sub (oldestStart + dh_timeout dhtm) now
                           in dhtm\<lparr>dh_timer := Some (Armed (now + until))\<rparr>)"

text \<open>One turn of \<^verbatim>\<open>consumeTimeouts\<close>, which takes the tick of the timer.\<close>

definition consumeTimeouts :: "time \<Rightarrow> dontHaveTimeoutMgr \<Rightarrow> dontHaveTimeoutMgr option" where
  "consumeTimeouts now dhtm =
     (if dh_timer dhtm = Some Fired
      then Some (checkForTimeouts now (dhtm\<lparr>dh_timer := Some Stopped\<rparr>)) else None)"

text \<open>The call of \<^verbatim>\<open>onDontHaveTimeout\<close> that the oldest waiting \<^verbatim>\<open>fireTimeout\<close> makes, if any.\<close>

definition fireTimeout :: "Want list \<Rightarrow> dontHaveTimeoutMgr \<Rightarrow> Want list option" where
  "fireTimeout pending dhtm = (if dh_done dhtm then None else Some pending)"

section \<open>Operations\<close>

definition dh_Shutdown :: "dontHaveTimeoutMgr \<Rightarrow> dontHaveTimeoutMgr" where
  "dh_Shutdown dhtm =
     (let dhtm = dhtm\<lparr>dh_done := True\<rparr>
      in case dh_timer dhtm of
           None \<Rightarrow> dhtm
         | Some Fired \<Rightarrow> dhtm
         | Some _ \<Rightarrow> dhtm\<lparr>dh_timer := Some Stopped\<rparr>)"

text \<open>\<open>latency\<close> is what \<^verbatim>\<open>peerConn.Latency()\<close> returns; the second result tells whether the goroutine that pings the
peer is started.\<close>

definition dh_Start :: "duration \<Rightarrow> dontHaveTimeoutMgr \<Rightarrow> dontHaveTimeoutMgr \<times> bool" where
  "dh_Start latency dhtm =
     (if dh_started dhtm then (dhtm, False)
      else let dhtm = dhtm\<lparr>dh_started := True\<rparr>
           in if latency > 0 then (dhtm\<lparr>dh_timeout := calculateTimeoutFromPingLatency latency dhtm\<rparr>, False)
              else (dhtm, True))"

definition dh_UpdateMessageLatency :: "time \<Rightarrow> duration \<Rightarrow> dontHaveTimeoutMgr \<Rightarrow> dontHaveTimeoutMgr" where
  "dh_UpdateMessageLatency now elapsed dhtm =
     (let oldTimeout = dh_timeout dhtm;
          dhtm = dhtm\<lparr>dh_messageLatency := ewma_update elapsed (dh_messageLatency dhtm)\<rparr>;
          dhtm = dhtm\<lparr>dh_timeout := calculateTimeoutFromMessageLatency dhtm\<rparr>
      in if dh_timeout dhtm < oldTimeout then checkForTimeouts now dhtm else dhtm)"

text \<open>\<open>ping\<close> is the outcome of the ping, with the average latency when it succeeded.\<close>

definition measurePingLatency :: "time \<Rightarrow> duration option \<Rightarrow> dontHaveTimeoutMgr \<Rightarrow> dontHaveTimeoutMgr" where
  "measurePingLatency now ping dhtm =
     (case ping of
        None \<Rightarrow> dhtm
      | Some latency \<Rightarrow>
          if le_samples (dh_messageLatency dhtm) > 0 then dhtm
          else checkForTimeouts now (dhtm\<lparr>dh_timeout := calculateTimeoutFromPingLatency latency dhtm\<rparr>))"

definition add_pending :: "time \<Rightarrow> Want \<Rightarrow> dontHaveTimeoutMgr \<Rightarrow> dontHaveTimeoutMgr" where
  "add_pending start c dhtm =
     (case dh_activeWants dhtm c of
        Some _ \<Rightarrow> dhtm
      | None \<Rightarrow>
          let i = dh_next dhtm; pw = \<lparr>pw_c = c, pw_active = True, pw_sent = start\<rparr>
          in dhtm\<lparr>dh_store := (dh_store dhtm)(i \<mapsto> pw), dh_next := Suc i,
                  dh_activeWants := (dh_activeWants dhtm)(c \<mapsto> i), dh_wantQueue := dh_wantQueue dhtm @ [i]\<rparr>)"

definition dh_AddPending :: "time \<Rightarrow> Want list \<Rightarrow> dontHaveTimeoutMgr \<Rightarrow> dontHaveTimeoutMgr" where
  "dh_AddPending now ks dhtm =
     (if ks = [] then dhtm
      else let queueWasEmpty = (dom (dh_activeWants dhtm) = {});
               dhtm = fold (add_pending now) ks dhtm
           in if queueWasEmpty then checkForTimeouts now dhtm else dhtm)"

definition cancel_pending :: "Want \<Rightarrow> dontHaveTimeoutMgr \<Rightarrow> dontHaveTimeoutMgr" where
  "cancel_pending c dhtm =
     (case dh_activeWants dhtm c of
        None \<Rightarrow> dhtm
      | Some i \<Rightarrow>
          dhtm\<lparr>dh_store := (dh_store dhtm)(i := map_option (\<lambda>pw. pw\<lparr>pw_active := False\<rparr>) (dh_store dhtm i)),
               dh_activeWants := (dh_activeWants dhtm)(c := None)\<rparr>)"

definition dh_CancelPending :: "Want list \<Rightarrow> dontHaveTimeoutMgr \<Rightarrow> dontHaveTimeoutMgr" where
  "dh_CancelPending ks dhtm = fold cancel_pending ks dhtm"

section \<open>The invariant\<close>

definition is_active :: "(nat \<rightharpoonup> pendingWant) \<Rightarrow> nat \<Rightarrow> bool" where
  "is_active st i \<longleftrightarrow> (case st i of None \<Rightarrow> False | Some pw \<Rightarrow> pw_active pw)"

definition want_of :: "(nat \<rightharpoonup> pendingWant) \<Rightarrow> nat \<Rightarrow> Want" where
  "want_of st i = (case st i of None \<Rightarrow> Undef | Some pw \<Rightarrow> pw_c pw)"

text \<open>The map of active wants and the queue agree through the store, and the queue is ordered by the time of sending.\<close>

definition dh_inv :: "time \<Rightarrow> dontHaveTimeoutMgr \<Rightarrow> bool" where
  "dh_inv now d \<longleftrightarrow>
     distinct (dh_wantQueue d) \<and> (\<forall>i \<in> set (dh_wantQueue d). i < dh_next d \<and> i \<in> dom (dh_store d)) \<and>
     (\<forall>c i. dh_activeWants d c = Some i \<longleftrightarrow>
        i \<in> set (dh_wantQueue d) \<and> is_active (dh_store d) i \<and> want_of (dh_store d) i = c) \<and>
     sorted (map (sent_of d) (dh_wantQueue d)) \<and> (\<forall>i \<in> set (dh_wantQueue d). sent_of d i \<le> now)"

text \<open>While a want is active a check is due no later than the moment it expires.\<close>

definition timer_ok :: "dontHaveTimeoutMgr \<Rightarrow> bool" where
  "timer_ok d \<longleftrightarrow>
     (\<not> dh_done d \<longrightarrow> dh_activeWants d \<noteq> Map.empty \<longrightarrow>
        dh_timer d = Some Fired \<or>
        (\<exists>t. dh_timer d = Some (Armed t) \<and> (\<forall>i \<in> ran (dh_activeWants d). t \<le> sent_of d i + dh_timeout d)))"

definition params_ok :: "dontHaveTimeoutMgr \<Rightarrow> bool" where
  "params_ok d \<longleftrightarrow>
     0 \<le> dh_timeout d \<and> dh_timeout d \<le> dh_maxTimeout d \<and> dh_maxTimeout d \<le> max_duration \<and>
     0 \<le> dh_pingLatencyMultiplier d \<and> 0 \<le> dh_messageLatencyMultiplier d \<and> 0 \<le> dh_maxExpectedWantProcessTime d \<and>
     0 \<le> le_latency (dh_messageLatency d) \<and> le_alpha (dh_messageLatency d) = 1/2"

section \<open>What a check does\<close>

definition gone :: "(nat \<rightharpoonup> pendingWant) \<Rightarrow> time \<Rightarrow> duration \<Rightarrow> nat \<Rightarrow> bool" where
  "gone st now timeout i \<longleftrightarrow>
     (case st i of None \<Rightarrow> False | Some pw \<Rightarrow> pw_active pw \<longrightarrow> \<not> time_Sub now (pw_sent pw) < timeout)"

definition expired_wants :: "(nat \<rightharpoonup> pendingWant) \<Rightarrow> time \<Rightarrow> duration \<Rightarrow> nat list \<Rightarrow> Want list" where
  "expired_wants st now timeout q =
     map (want_of st) (filter (is_active st) (takeWhile (gone st now timeout) q))"

lemma check_loop_eq:
  "check_loop st now timeout q active expired =
     (dropWhile (gone st now timeout) q,
      fold (\<lambda>c a. a(c := None)) (expired_wants st now timeout q) active,
      expired @ expired_wants st now timeout q)"
proof (induction st now timeout q active expired rule: check_loop.induct)
  case (2 st now timeout i q active expired)
  show ?case
  proof (cases "st i")
    case (Some pw)
    then show ?thesis
      using 2 [OF Some]
      by (cases "pw_active pw"; cases "time_Sub now (pw_sent pw) < timeout")
         (simp_all add: expired_wants_def gone_def [of st now timeout i] is_active_def [of st i] want_of_def [of st i]
          del: fun_upd_apply)
  qed (simp add: expired_wants_def gone_def [of st now timeout i])
qed (simp add: expired_wants_def)

lemma age_iff:
  "0 \<le> timeout \<Longrightarrow> timeout \<le> max_duration \<Longrightarrow> time_Sub now s < timeout \<longleftrightarrow> now - s < timeout"
  by (auto simp: time_Sub_def max_duration_def)

text \<open>With the queue in order, what stays in it is exactly what is too young to expire.\<close>

lemma gone_iff:
  assumes "params_ok d" and "i \<in> dom (dh_store d)"
  shows "gone (dh_store d) now (dh_timeout d) i \<longleftrightarrow>
    (is_active (dh_store d) i \<longrightarrow> dh_timeout d \<le> now - sent_of d i)"
  using assms age_iff [of "dh_timeout d" now]
  by (auto simp: gone_def is_active_def sent_of_def params_ok_def not_less split: option.splits)

lemma kept_young:
  assumes "dh_inv now d" and "params_ok d" and i: "i \<in> set (dropWhile (gone (dh_store d) now (dh_timeout d)) (dh_wantQueue d))"
  shows "now - sent_of d i < dh_timeout d"
proof -
  let ?P = "gone (dh_store d) now (dh_timeout d)"
  obtain j q where q: "dropWhile ?P (dh_wantQueue d) = j # q" using i by (cases "dropWhile ?P (dh_wantQueue d)") auto
  have j: "\<not> ?P j" "j \<in> set (dh_wantQueue d)"
    using q hd_dropWhile [of ?P "dh_wantQueue d"] set_dropWhileD [of j ?P "dh_wantQueue d"] by auto
  then have "now - sent_of d j < dh_timeout d"
    using assms(1) gone_iff [OF assms(2), of j now] by (auto simp: dh_inv_def)
  moreover have "sorted (map (sent_of d) (j # q))"
    using assms(1) q by (metis dh_inv_def sorted_dropWhile dropWhile_eq_drop drop_map sorted_wrt_drop)
  then have "sent_of d j \<le> sent_of d i" using i q by auto
  ultimately show ?thesis by linarith
qed

lemma active_in_queue:
  assumes "dh_inv now d"
  shows "dh_activeWants d c = Some i \<longleftrightarrow>
    i \<in> set (dh_wantQueue d) \<and> is_active (dh_store d) i \<and> want_of (dh_store d) i = c"
  using assms unfolding dh_inv_def by blast

lemma takeWhile_or_dropWhile: "x \<in> set xs \<longleftrightarrow> x \<in> set (takeWhile P xs) \<or> x \<in> set (dropWhile P xs)"
  by (metis Un_iff set_append takeWhile_dropWhile_id)

lemma set_expired:
  assumes inv: "dh_inv now d" and ok: "params_ok d"
  shows "set (expired_wants (dh_store d) now (dh_timeout d) (dh_wantQueue d)) =
    {c. \<exists>i. dh_activeWants d c = Some i \<and> dh_timeout d \<le> now - sent_of d i}"
proof -
  let ?P = "gone (dh_store d) now (dh_timeout d)"
  let ?q = "dh_wantQueue d"
  have "i \<in> set (takeWhile ?P ?q) \<longleftrightarrow> dh_timeout d \<le> now - sent_of d i" if "i \<in> set ?q" "is_active (dh_store d) i" for i
  proof
    assume "i \<in> set (takeWhile ?P ?q)"
    then have "?P i" by (meson set_takeWhileD)
    then show "dh_timeout d \<le> now - sent_of d i"
      using that inv gone_iff [OF ok, of i now] by (auto simp: dh_inv_def)
  next
    assume "dh_timeout d \<le> now - sent_of d i"
    then have "i \<notin> set (dropWhile ?P ?q)" using kept_young [OF inv ok] by force
    then show "i \<in> set (takeWhile ?P ?q)" using that(1) takeWhile_or_dropWhile by metis
  qed
  moreover have "i \<in> set (takeWhile ?P ?q) \<Longrightarrow> i \<in> set ?q" for i by (meson set_takeWhileD)
  ultimately show ?thesis unfolding active_in_queue [OF inv] by (auto simp: expired_wants_def)
qed

lemma want_of_inj:
  assumes "dh_inv now d"
  shows "inj_on (want_of (dh_store d)) {i \<in> set (dh_wantQueue d). is_active (dh_store d) i}"
proof (rule inj_onI)
  fix i j
  assume "i \<in> {i \<in> set (dh_wantQueue d). is_active (dh_store d) i}" "j \<in> {i \<in> set (dh_wantQueue d). is_active (dh_store d) i}"
    and "want_of (dh_store d) i = want_of (dh_store d) j"
  then have "dh_activeWants d (want_of (dh_store d) j) = Some i" "dh_activeWants d (want_of (dh_store d) j) = Some j"
    using active_in_queue [OF assms] by auto
  then show "i = j" by simp
qed

lemma distinct_expired:
  assumes "dh_inv now d"
  shows "distinct (expired_wants (dh_store d) now (dh_timeout d) (dh_wantQueue d))"
proof -
  let ?l = "filter (is_active (dh_store d)) (takeWhile (gone (dh_store d) now (dh_timeout d)) (dh_wantQueue d))"
  have "set ?l \<subseteq> {i \<in> set (dh_wantQueue d). is_active (dh_store d) i}" by (auto dest: set_takeWhileD)
  then have "inj_on (want_of (dh_store d)) (set ?l)" using want_of_inj [OF assms] inj_on_subset by blast
  moreover have "distinct ?l" using assms by (simp add: dh_inv_def)
  ultimately show ?thesis by (simp add: expired_wants_def distinct_map)
qed

text \<open>The state after a check.\<close>

lemma checkForTimeouts_sel:
  "dh_store (checkForTimeouts now d) = dh_store d" "dh_next (checkForTimeouts now d) = dh_next d"
  "dh_timeout (checkForTimeouts now d) = dh_timeout d" "dh_done (checkForTimeouts now d) = dh_done d"
  "dh_started (checkForTimeouts now d) = dh_started d" "dh_messageLatency (checkForTimeouts now d) = dh_messageLatency d"
  "dh_maxTimeout (checkForTimeouts now d) = dh_maxTimeout d"
  "dh_pingLatencyMultiplier (checkForTimeouts now d) = dh_pingLatencyMultiplier d"
  "dh_messageLatencyMultiplier (checkForTimeouts now d) = dh_messageLatencyMultiplier d"
  "dh_maxExpectedWantProcessTime (checkForTimeouts now d) = dh_maxExpectedWantProcessTime d"
  "sent_of (checkForTimeouts now d) = sent_of d"
  "dh_wantQueue (checkForTimeouts now d) = dropWhile (gone (dh_store d) now (dh_timeout d)) (dh_wantQueue d)"
  "dh_firing (checkForTimeouts now d) =
     (let e = expired_wants (dh_store d) now (dh_timeout d) (dh_wantQueue d) in dh_firing d @ (if e = [] then [] else [e]))"
  "dh_activeWants (checkForTimeouts now d) =
     dh_activeWants d |` (- set (expired_wants (dh_store d) now (dh_timeout d) (dh_wantQueue d)))"
  "dropWhile (gone (dh_store d) now (dh_timeout d)) (dh_wantQueue d) = i # q \<Longrightarrow> \<not> dh_done d \<Longrightarrow>
     dh_timer (checkForTimeouts now d) = Some (Armed (now + time_Sub (sent_of d i + dh_timeout d) now))"
  by (cases "dh_wantQueue d = []"; simp add: checkForTimeouts_def check_loop_eq sent_of_def fun_eq_iff Let_def
      expired_wants_def fold_map_delete split: list.splits)+

lemma in_kept:
  assumes inv: "dh_inv now d" and ok: "params_ok d" and i: "i \<in> set (dh_wantQueue d)" "is_active (dh_store d) i"
  shows "i \<in> set (dropWhile (gone (dh_store d) now (dh_timeout d)) (dh_wantQueue d)) \<longleftrightarrow> now - sent_of d i < dh_timeout d"
proof
  assume "now - sent_of d i < dh_timeout d"
  then have "\<not> gone (dh_store d) now (dh_timeout d) i"
    using inv i gone_iff [OF ok, of i now] by (auto simp: dh_inv_def)
  then show "i \<in> set (dropWhile (gone (dh_store d) now (dh_timeout d)) (dh_wantQueue d))"
    using i(1) takeWhile_or_dropWhile set_takeWhileD by metis
qed (rule kept_young [OF inv ok])

lemma check_inv:
  assumes inv: "dh_inv now d" and ok: "params_ok d"
  shows "dh_inv now (checkForTimeouts now d)"
proof -
  let ?q = "dropWhile (gone (dh_store d) now (dh_timeout d)) (dh_wantQueue d)"
  have sub: "i \<in> set (dh_wantQueue d)" if "i \<in> set ?q" for i using that by (rule set_dropWhileD)
  have "sorted (map (sent_of d) ?q)"
    using inv by (metis dh_inv_def dropWhile_eq_drop drop_map sorted_wrt_drop)
  moreover have "dh_activeWants (checkForTimeouts now d) c = Some i \<longleftrightarrow>
      i \<in> set ?q \<and> is_active (dh_store d) i \<and> want_of (dh_store d) i = c" for c i
  proof -
    have "dh_activeWants (checkForTimeouts now d) c = Some i \<longleftrightarrow>
        dh_activeWants d c = Some i \<and> now - sent_of d i < dh_timeout d"
      by (auto simp: checkForTimeouts_sel restrict_map_def set_expired [OF inv ok] split: if_splits)
    then show ?thesis using in_kept [OF inv ok] sub active_in_queue [OF inv] by blast
  qed
  ultimately show ?thesis
    using inv sub unfolding dh_inv_def checkForTimeouts_sel(1-12) by (simp add: checkForTimeouts_sel(1-12))
qed

lemma check_params: "params_ok d \<Longrightarrow> params_ok (checkForTimeouts now d)"
  by (simp add: params_ok_def checkForTimeouts_sel(1-12))

lemma check_timer:
  assumes inv: "dh_inv now d" and ok: "params_ok d"
  shows "timer_ok (checkForTimeouts now d)"
proof (unfold timer_ok_def, intro impI disjI2)
  let ?d = "checkForTimeouts now d"
  assume nd: "\<not> dh_done ?d" and ne: "dh_activeWants ?d \<noteq> Map.empty"
  note inv' = check_inv [OF inv ok]
  obtain c k where "dh_activeWants ?d c = Some k" using ne by (metis not_None_eq ext)
  then have "k \<in> set (dh_wantQueue ?d)" using active_in_queue [OF inv'] by blast
  then obtain j q where q: "dh_wantQueue ?d = j # q" by (cases "dh_wantQueue ?d") auto
  then have qd: "dropWhile (gone (dh_store d) now (dh_timeout d)) (dh_wantQueue d) = j # q" by (simp add: checkForTimeouts_sel)
  have t: "dh_timer ?d = Some (Armed (now + time_Sub (sent_of d j + dh_timeout d) now))"
    using checkForTimeouts_sel(15) [OF qd] nd by (simp add: checkForTimeouts_sel)
  have "now - sent_of d j < dh_timeout d" using kept_young [OF inv ok, of j] qd by simp
  then have "time_Sub (sent_of d j + dh_timeout d) now \<le> sent_of d j + dh_timeout d - now"
    by (auto simp: time_Sub_def max_duration_def)
  moreover have "sent_of d j \<le> sent_of d i" if "i \<in> ran (dh_activeWants ?d)" for i
  proof -
    have "i \<in> set (j # q)" using that active_in_queue [OF inv'] q by (auto simp: ran_def)
    moreover have "sorted (map (sent_of ?d) (j # q))" using inv' q by (simp add: dh_inv_def)
    ultimately show ?thesis by (auto simp: checkForTimeouts_sel)
  qed
  ultimately show "\<exists>t. dh_timer ?d = Some (Armed t) \<and> (\<forall>i \<in> ran (dh_activeWants ?d). t \<le> sent_of ?d i + dh_timeout ?d)"
    using t by (force simp: checkForTimeouts_sel)
qed

text \<open>C22. A check hands to the timeout callback exactly the active wants that were sent at least a timeout ago, each
once; the others stay active, and when any is left (and the manager runs) a check is due before it expires.\<close>

theorem checkForTimeouts_exact:
  assumes "dh_inv now d" and "params_ok d"
  defines "e \<equiv> {c. \<exists>i. dh_activeWants d c = Some i \<and> dh_timeout d \<le> now - sent_of d i}"
  shows "dh_activeWants (checkForTimeouts now d) = dh_activeWants d |` (- e) \<and> timer_ok (checkForTimeouts now d) \<and>
    (\<exists>ws. distinct ws \<and> set ws = e \<and> dh_firing (checkForTimeouts now d) = dh_firing d @ (if e = {} then [] else [ws]))"
proof (intro conjI exI)
  let ?ws = "expired_wants (dh_store d) now (dh_timeout d) (dh_wantQueue d)"
  show "set ?ws = e" unfolding e_def by (rule set_expired [OF assms(1,2)])
  then show "dh_activeWants (checkForTimeouts now d) = dh_activeWants d |` (- e)"
    and "dh_firing (checkForTimeouts now d) = dh_firing d @ (if e = {} then [] else [?ws])"
    by (auto simp: checkForTimeouts_sel Let_def)
  show "distinct ?ws" by (rule distinct_expired [OF assms(1)])
  show "timer_ok (checkForTimeouts now d)" by (rule check_timer [OF assms(1,2)])
qed

section \<open>Reachable states\<close>

text \<open>The operations in any order, with a clock that never goes back. The message queue starts the manager before it
adds the first want, and measured latencies are not negative.\<close>

inductive dh_reach :: "time \<Rightarrow> dontHaveTimeoutMgr \<Rightarrow> bool" where
  dh_new: "dh_reach now newDontHaveTimeoutMgr"
| dh_tick: "dh_reach now d \<Longrightarrow> now \<le> now' \<Longrightarrow> dh_reach now' d"
| dh_start: "dh_reach now d \<Longrightarrow> 0 \<le> latency \<Longrightarrow> dh_reach now (fst (dh_Start latency d))"
| dh_ping: "dh_reach now d \<Longrightarrow> \<forall>latency \<in> set_option ping. 0 \<le> latency \<Longrightarrow> dh_reach now (measurePingLatency now ping d)"
| dh_add: "dh_reach now d \<Longrightarrow> dh_started d \<Longrightarrow> dh_reach now (dh_AddPending now ks d)"
| dh_cancel: "dh_reach now d \<Longrightarrow> dh_reach now (dh_CancelPending ks d)"
| dh_update: "dh_reach now d \<Longrightarrow> 0 \<le> elapsed \<Longrightarrow> dh_reach now (dh_UpdateMessageLatency now elapsed d)"
| dh_timer_fires: "dh_reach now d \<Longrightarrow> dh_timer d = Some (Armed t) \<Longrightarrow> t \<le> now \<Longrightarrow> dh_reach now (d\<lparr>dh_timer := Some Fired\<rparr>)"
| dh_consume: "dh_reach now d \<Longrightarrow> consumeTimeouts now d = Some d' \<Longrightarrow> dh_reach now d'"
| dh_fire: "dh_reach now d \<Longrightarrow> dh_firing d = xs @ ws # ys \<Longrightarrow> dh_reach now (d\<lparr>dh_firing := xs @ ys\<rparr>)"
| dh_shutdown: "dh_reach now d \<Longrightarrow> dh_reach now (dh_Shutdown d)"

definition dh_ok :: "time \<Rightarrow> dontHaveTimeoutMgr \<Rightarrow> bool" where
  "dh_ok now d \<longleftrightarrow> dh_inv now d \<and> params_ok d \<and> timer_ok d \<and> (\<not> dh_started d \<longrightarrow> dh_wantQueue d = [])"

lemma check_ok: "dh_inv now d \<Longrightarrow> params_ok d \<Longrightarrow> dh_started d \<or> dh_wantQueue d = [] \<Longrightarrow> dh_ok now (checkForTimeouts now d)"
  by (auto simp: dh_ok_def check_inv check_params check_timer checkForTimeouts_sel(5,12))

text \<open>The invariant depends on the store, the map, the queue and the clock only.\<close>

lemma dh_inv_cong:
  assumes "dh_store d' = dh_store d" "dh_next d' = dh_next d" "dh_activeWants d' = dh_activeWants d" "dh_wantQueue d' = dh_wantQueue d"
  shows "dh_inv now d' \<longleftrightarrow> dh_inv now d"
  using assms by (simp add: dh_inv_def sent_of_def [abs_def])

lemma no_active: "dh_inv now d \<Longrightarrow> dh_wantQueue d = [] \<Longrightarrow> dh_activeWants d = Map.empty"
  by (rule ext) (metis active_in_queue empty_iff list.set(1) not_Some_eq)

lemma ping_timeout: "params_ok d \<Longrightarrow> 0 \<le> latency \<Longrightarrow> params_ok (d\<lparr>dh_timeout := calculateTimeoutFromPingLatency latency d\<rparr>)"
  by (simp add: params_ok_def calculateTimeoutFromPingLatency_def Let_def)

lemma ewma_nonneg:
  assumes "0 \<le> elapsed" and "0 \<le> le_latency le" and "le_alpha le = 1/2"
  shows "0 \<le> le_latency (ewma_update elapsed le)"
proof -
  have nonneg: "0 \<le> truncate x" if "0 \<le> x" for x using that by (simp add: truncate_def)
  have le1: "1 / of_nat n \<le> (1 :: rat)" for n by (cases n) (simp_all add: divide_simps)
  have "0 \<le> truncate (of_int elapsed * a + (1 - a) * of_int (le_latency le))" if "1/2 \<le> a" "a \<le> 1" for a :: rat
    using that assms by (intro nonneg add_nonneg_nonneg mult_nonneg_nonneg) simp_all
  then show ?thesis
    using assms(3) le1 by (simp add: ewma_update_def Let_def del: of_nat_unat)
qed

lemma update_params:
  assumes "params_ok d" and "0 \<le> elapsed"
  shows "params_ok (d\<lparr>dh_messageLatency := ewma_update elapsed (dh_messageLatency d),
     dh_timeout := calculateTimeoutFromMessageLatency (d\<lparr>dh_messageLatency := ewma_update elapsed (dh_messageLatency d)\<rparr>)\<rparr>)"
proof -
  have "0 \<le> le_latency (ewma_update elapsed (dh_messageLatency d))"
    using assms by (intro ewma_nonneg) (simp_all add: params_ok_def)
  moreover have "le_alpha (ewma_update elapsed (dh_messageLatency d)) = le_alpha (dh_messageLatency d)"
    by (simp add: ewma_update_def Let_def)
  ultimately show ?thesis using assms(1)
    by (simp add: params_ok_def calculateTimeoutFromMessageLatency_def Let_def)
qed

lemma update_ok:
  assumes ok: "dh_ok now d" and e: "0 \<le> elapsed"
  shows "dh_ok now (dh_UpdateMessageLatency now elapsed d)"
proof -
  let ?d = "d\<lparr>dh_messageLatency := ewma_update elapsed (dh_messageLatency d),
     dh_timeout := calculateTimeoutFromMessageLatency (d\<lparr>dh_messageLatency := ewma_update elapsed (dh_messageLatency d)\<rparr>)\<rparr>"
  have inv: "dh_inv now ?d" and par: "params_ok ?d"
    using ok e update_params [of d elapsed] dh_inv_cong [of ?d d now] by (simp_all add: dh_ok_def)
  have timer: "timer_ok ?d" if "dh_timeout d \<le> dh_timeout ?d"
    using ok that by (fastforce simp: dh_ok_def timer_ok_def sent_of_def)
  have "dh_UpdateMessageLatency now elapsed d =
      (if dh_timeout ?d < dh_timeout d then checkForTimeouts now ?d else ?d)"
    by (simp add: dh_UpdateMessageLatency_def Let_def)
  moreover have "dh_ok now (checkForTimeouts now ?d)"
    using ok by (intro check_ok inv par) (auto simp: dh_ok_def)
  ultimately show ?thesis using inv par timer ok by (simp add: dh_ok_def not_less)
qed

lemma sent_of_new [simp]:
  "sent_of (d\<lparr>dh_store := (dh_store d)(i \<mapsto> pw), dh_next := n, dh_activeWants := a, dh_wantQueue := q\<rparr>) j =
   (if j = i then pw_sent pw else sent_of d j)"
  by (simp add: sent_of_def)

lemma add_pending_inv:
  assumes inv: "dh_inv now d"
  shows "dh_inv now (add_pending now c d)"
proof (cases "dh_activeWants d c")
  case None
  let ?i = "dh_next d"
  let ?pw = "\<lparr>pw_c = c, pw_active = True, pw_sent = now\<rparr>"
  let ?st = "(dh_store d)(?i \<mapsto> ?pw)"
  let ?d = "add_pending now c d"
  have d: "?d = d\<lparr>dh_store := ?st, dh_next := Suc ?i, dh_activeWants := (dh_activeWants d)(c \<mapsto> ?i),
      dh_wantQueue := dh_wantQueue d @ [?i]\<rparr>"
    using None by (simp add: add_pending_def Let_def)
  have new: "?i \<notin> set (dh_wantQueue d)" using inv by (auto simp: dh_inv_def)
  have same: "is_active ?st j = is_active (dh_store d) j" "want_of ?st j = want_of (dh_store d) j" if "j \<noteq> ?i" for j
    using that by (simp_all add: is_active_def want_of_def)
  have at: "is_active ?st ?i" "want_of ?st ?i = c" by (simp_all add: is_active_def want_of_def)
  have act: "dh_activeWants ?d c' = Some j \<longleftrightarrow> j \<in> set (dh_wantQueue ?d) \<and> is_active ?st j \<and> want_of ?st j = c'" for c' j
  proof (cases "j = ?i")
    case True
    have "dh_activeWants d c' \<noteq> Some ?i" using new active_in_queue [OF inv] by blast
    then show ?thesis using True at by (auto simp: d)
  next
    case False
    then show ?thesis using None same [OF False] active_in_queue [OF inv, of c' j] by (auto simp: d)
  qed
  have "sorted (map (sent_of ?d) (dh_wantQueue ?d))"
  proof -
    have m: "map (sent_of ?d) (dh_wantQueue d) = map (sent_of d) (dh_wantQueue d)"
      using new by (intro map_cong) (auto simp: d)
    have q: "dh_wantQueue ?d = dh_wantQueue d @ [?i]" and i: "sent_of ?d ?i = now" by (simp_all add: d)
    show ?thesis unfolding q map_append m using inv i by (simp add: dh_inv_def sorted_append)
  qed
  then show ?thesis using inv act new unfolding dh_inv_def by (auto simp: d less_SucI)
qed (simp add: add_pending_def inv)

lemma add_pending_sel [simp]:
  "dh_done (add_pending now c d) = dh_done d" "dh_timer (add_pending now c d) = dh_timer d"
  "dh_started (add_pending now c d) = dh_started d" "dh_timeout (add_pending now c d) = dh_timeout d"
  "params_ok (add_pending now c d) = params_ok d"
  by (simp_all add: add_pending_def params_ok_def Let_def split: option.splits)

lemma add_pending_timer:
  assumes inv: "dh_inv now d" and t: "timer_ok d" and ne: "dh_activeWants d \<noteq> Map.empty"
  shows "timer_ok (add_pending now c d) \<and> dh_activeWants (add_pending now c d) \<noteq> Map.empty"
proof (cases "dh_activeWants d c")
  case None
  let ?d = "add_pending now c d"
  have d: "dh_activeWants ?d = (dh_activeWants d)(c \<mapsto> dh_next d)"
    "sent_of ?d j = (if j = dh_next d then now else sent_of d j)" for j
    using None by (simp_all add: add_pending_def Let_def)
  obtain c' k where k: "dh_activeWants d c' = Some k" using ne by (metis not_None_eq ext)
  then have le: "sent_of d k \<le> now" "k \<in> ran (dh_activeWants d)" using inv active_in_queue [OF inv] by (auto simp: dh_inv_def ranI)
  have "timer_ok ?d" unfolding timer_ok_def
  proof (intro impI)
    assume "\<not> dh_done ?d"
    then consider "dh_timer d = Some Fired"
      | t where "dh_timer d = Some (Armed t)" "\<forall>i \<in> ran (dh_activeWants d). t \<le> sent_of d i + dh_timeout d"
      using t ne by (auto simp: timer_ok_def)
    then show "dh_timer ?d = Some Fired \<or>
        (\<exists>t. dh_timer ?d = Some (Armed t) \<and> (\<forall>i \<in> ran (dh_activeWants ?d). t \<le> sent_of ?d i + dh_timeout ?d))"
    proof cases
      case 2
      then have "t \<le> now + dh_timeout d" using le by force
      moreover have "ran (dh_activeWants ?d) \<subseteq> insert (dh_next d) (ran (dh_activeWants d))"
        using None by (simp add: d)
      ultimately have "\<forall>i \<in> ran (dh_activeWants ?d). t \<le> sent_of ?d i + dh_timeout d" using 2(2) by (auto simp: d(2))
      then show ?thesis using 2(1) by simp
    qed simp
  qed
  then show ?thesis by (simp add: d(1))
qed (use t ne in \<open>simp add: add_pending_def\<close>)

lemma add_ok:
  assumes ok: "dh_ok now d" and s: "dh_started d"
  shows "dh_ok now (dh_AddPending now ks d)"
proof (cases "dh_activeWants d = Map.empty")
  case True
  have "dh_inv now (fold (add_pending now) ks d) \<and> params_ok (fold (add_pending now) ks d) \<and> dh_started (fold (add_pending now) ks d)"
    using ok s by (intro fold_invariant [where P = "\<lambda>d. dh_inv now d \<and> params_ok d \<and> dh_started d"])
       (auto simp: dh_ok_def add_pending_inv)
  then show ?thesis using True ok by (auto simp: dh_AddPending_def intro: check_ok)
next
  case False
  let ?P = "\<lambda>d. dh_inv now d \<and> params_ok d \<and> dh_started d \<and> timer_ok d \<and> dh_activeWants d \<noteq> Map.empty"
  have "?P (fold (add_pending now) ks d)"
    using ok s False add_pending_timer by (intro fold_invariant [where P = ?P]) (auto simp: dh_ok_def add_pending_inv)
  then show ?thesis using False ok by (auto simp: dh_AddPending_def dh_ok_def)
qed

lemma cancel_pending_ok:
  assumes ok: "dh_ok now d"
  shows "dh_ok now (cancel_pending c d)"
proof (cases "dh_activeWants d c")
  case (Some k)
  have inv: "dh_inv now d" using ok by (simp add: dh_ok_def)
  let ?st = "(dh_store d)(k := map_option (\<lambda>pw. pw\<lparr>pw_active := False\<rparr>) (dh_store d k))"
  let ?d = "cancel_pending c d"
  have d: "?d = d\<lparr>dh_store := ?st, dh_activeWants := (dh_activeWants d)(c := None)\<rparr>"
    using Some by (simp add: cancel_pending_def)
  have sent: "sent_of ?d j = sent_of d j" for j by (simp add: d sent_of_def split: option.splits)
  have k: "k \<in> set (dh_wantQueue d)" "want_of (dh_store d) k = c" using Some active_in_queue [OF inv] by auto
  have act: "is_active ?st j \<longleftrightarrow> j \<noteq> k \<and> is_active (dh_store d) j" "want_of ?st j = want_of (dh_store d) j" for j
    by (auto simp: is_active_def want_of_def split: option.splits)
  have "dh_activeWants ?d c' = Some j \<longleftrightarrow> j \<in> set (dh_wantQueue d) \<and> is_active ?st j \<and> want_of ?st j = c'" for c' j
    using Some active_in_queue [OF inv, of c' j] active_in_queue [OF inv, of c j] act [of j] k by (auto simp: d)
  moreover have "dom ?st = dom (dh_store d)" by (auto simp: dom_def)
  moreover have "map (sent_of ?d) = map (sent_of d)" by (simp add: fun_eq_iff sent)
  ultimately have "dh_inv now ?d" using inv unfolding dh_inv_def by (simp add: sent) (simp add: d)
  moreover have "ran (dh_activeWants ?d) \<subseteq> ran (dh_activeWants d)" by (auto simp: d ran_def)
  then have "timer_ok ?d" using ok sent
    by (fastforce simp: dh_ok_def timer_ok_def d)
  ultimately show ?thesis using ok by (simp add: dh_ok_def d params_ok_def)
qed (simp add: cancel_pending_def ok)

lemma cancel_ok: "dh_ok now d \<Longrightarrow> dh_ok now (dh_CancelPending ks d)"
  unfolding dh_CancelPending_def by (rule fold_invariant [where P = "dh_ok now"]) (auto intro: cancel_pending_ok)

lemma new_ok: "dh_ok now newDontHaveTimeoutMgr"
  by (simp add: dh_ok_def dh_inv_def params_ok_def timer_ok_def newDontHaveTimeoutMgr_def newDontHaveTimeoutMgrWithParams_def
      max_duration_def)

lemma start_ok:
  assumes ok: "dh_ok now d" and l: "0 \<le> latency"
  shows "dh_ok now (fst (dh_Start latency d))"
proof (cases "dh_started d")
  case False
  let ?d = "fst (dh_Start latency d)"
  have inv: "dh_inv now ?d"
    using ok by (subst dh_inv_cong [of _ d]) (simp_all add: dh_Start_def Let_def dh_ok_def)
  have q: "dh_wantQueue ?d = []" using False ok by (simp add: dh_Start_def Let_def dh_ok_def)
  have p: "params_ok (d\<lparr>dh_started := True\<rparr>)" using ok by (simp add: dh_ok_def params_ok_def)
  then have "params_ok ?d"
    using ping_timeout [OF p l] False by (simp add: dh_Start_def Let_def)
  then show ?thesis using inv q no_active [OF inv q] by (simp add: dh_ok_def timer_ok_def)
qed (simp add: dh_Start_def ok)

lemma ping_ok:
  assumes ok: "dh_ok now d" and l: "0 \<le> latency"
  shows "dh_ok now (measurePingLatency now (Some latency) d)"
proof -
  let ?d = "d\<lparr>dh_timeout := calculateTimeoutFromPingLatency latency d\<rparr>"
  have "dh_inv now ?d" using ok dh_inv_cong [of ?d d now] by (simp add: dh_ok_def)
  moreover have "params_ok ?d" using ok l ping_timeout by (simp add: dh_ok_def)
  ultimately have "dh_ok now (checkForTimeouts now ?d)" using ok by (intro check_ok) (auto simp: dh_ok_def)
  then show ?thesis using ok by (simp add: measurePingLatency_def)
qed

text \<open>Changes that leave the bookkeeping alone.\<close>

lemma dh_ok_timer:
  assumes "dh_ok now d" and "timer_ok (d\<lparr>dh_timer := t\<rparr>)"
  shows "dh_ok now (d\<lparr>dh_timer := t\<rparr>)"
  using assms dh_inv_cong [of "d\<lparr>dh_timer := t\<rparr>" d now] by (simp add: dh_ok_def params_ok_def)

lemma dh_ok_tick: "dh_ok now d \<Longrightarrow> now \<le> now' \<Longrightarrow> dh_ok now' d"
  by (auto simp: dh_ok_def dh_inv_def)

lemma dh_reach_ok: "dh_reach now d \<Longrightarrow> dh_ok now d"
proof (induction rule: dh_reach.induct)
  case (dh_ping now d ping)
  then show ?case by (cases ping) (auto simp: ping_ok, simp add: measurePingLatency_def)
next
  case (dh_timer_fires now d t)
  then show ?case by (intro dh_ok_timer) (auto simp: timer_ok_def)
next
  case (dh_consume now d d')
  let ?d = "d\<lparr>dh_timer := Some Stopped\<rparr>"
  have "dh_inv now ?d" "params_ok ?d"
    using dh_consume dh_inv_cong [of ?d d now] by (simp_all add: dh_ok_def params_ok_def)
  then have "dh_ok now (checkForTimeouts now ?d)" using dh_consume.IH by (intro check_ok) (auto simp: dh_ok_def)
  then show ?case using dh_consume.hyps by (simp add: consumeTimeouts_def split: if_splits)
next
  case (dh_fire now d xs ws ys)
  let ?d = "d\<lparr>dh_firing := xs @ ys\<rparr>"
  show ?case using dh_fire dh_inv_cong [of ?d d now] by (simp add: dh_ok_def params_ok_def timer_ok_def sent_of_def)
next
  case (dh_shutdown now d)
  have "dh_inv now (dh_Shutdown d)"
    using dh_shutdown by (subst dh_inv_cong [of _ d]) (auto simp: dh_Shutdown_def Let_def dh_ok_def split: option.splits timer.splits)
  then show ?case using dh_shutdown.IH
    by (auto simp: dh_ok_def params_ok_def timer_ok_def dh_Shutdown_def Let_def split: option.splits timer.splits)
qed (auto simp: new_ok intro: dh_ok_tick start_ok add_ok cancel_ok update_ok)

text \<open>C14. In every reachable state of the timeout manager the timeout is between zero and seven seconds, the queue is in
the order of sending and holds every active want, and while a want is active and the manager runs, a check has
fired or is due no later than the moment that want expires: no want waits for ever.\<close>

theorem dh_no_want_forgotten:
  assumes "dh_reach now d"
  shows "0 \<le> dh_timeout d \<and> dh_timeout d \<le> dh_maxTimeout d \<and> dh_inv now d \<and>
    (\<forall>c i. dh_activeWants d c = Some i \<longrightarrow> \<not> dh_done d \<longrightarrow>
       dh_timer d = Some Fired \<or> (\<exists>t. dh_timer d = Some (Armed t) \<and> t \<le> sent_of d i + dh_timeout d))"
proof -
  have ok: "dh_ok now d" by (rule dh_reach_ok [OF assms])
  then have "dh_timer d = Some Fired \<or> (\<exists>t. dh_timer d = Some (Armed t) \<and> t \<le> sent_of d i + dh_timeout d)"
    if "dh_activeWants d c = Some i" "\<not> dh_done d" for c i
    using that by (force simp: dh_ok_def timer_ok_def ranI)
  then show ?thesis using ok by (simp add: dh_ok_def params_ok_def)
qed

definition dh_ex :: dontHaveTimeoutMgr where
  "dh_ex = dh_AddPending 100 [Want ''a'' [], Want ''b'' []] (fst (dh_Start 0 newDontHaveTimeoutMgr))"

lemma dh_ex_reach: "dh_reach 100 dh_ex"
proof -
  have "dh_reach 100 (fst (dh_Start 0 newDontHaveTimeoutMgr))" by (rule dh_reach.dh_start [OF dh_reach.dh_new]) simp
  then show ?thesis unfolding dh_ex_def by (rule dh_reach.dh_add) (simp add: dh_Start_def)
qed

theorem dh_no_want_forgotten_witness:
  "dh_timeout dh_ex \<le> dh_maxTimeout dh_ex \<and> dh_inv 100 dh_ex"
  using dh_no_want_forgotten [OF dh_ex_reach] by simp

theorem checkForTimeouts_exact_witness:
  "timer_ok (checkForTimeouts 100 dh_ex)"
  using checkForTimeouts_exact [of 100 dh_ex] dh_reach_ok [OF dh_ex_reach] by (simp add: dh_ok_def)

end
