(* ===== verification/MessageQueue.thy ===== *)
theory MessageQueue
  imports Message DontHaveTimeout PeerManager
begin

text \<open>
  \<^verbatim>\<open>internal/messagequeue/messagequeue.go\<close>: the queue of wants and cancels for one peer. The fields under \<^verbatim>\<open>wllock\<close> are
  changed by the callers (\<open>AddWants\<close>, \<open>AddBroadcastWantHaves\<close>, \<open>AddCancels\<close>) and by the goroutine \<^verbatim>\<open>runQueue\<close>, which
  sends messages. Each critical section is one step, so the callers may act between any two sections of
  \<^verbatim>\<open>sendMessage\<close>: between the snapshot of the lists and marking the wants as sent, and while the message is on its
  way. \<open>mq_phase\<close> is the place the goroutine has reached, \<open>mq_workScheduled\<close> and \<open>mq_scheduleWork\<close> are its local
  variables. The clock is the field \<open>mq_now\<close>. The network is represented by the outcomes of its calls.
\<close>

section \<open>Constants\<close>

abbreviation (input) defaultRebroadcastInterval :: duration where
  "defaultRebroadcastInterval \<equiv> 30 * second"

abbreviation (input) maxMessageSize :: nat where
  "maxMessageSize \<equiv> 1024 * 1024 * 2"

abbreviation (input) maxPriority :: int32 where
  "maxPriority \<equiv> 2147483647"

abbreviation (input) sendMessageDebounce :: duration where
  "sendMessageDebounce \<equiv> millisecond"

abbreviation (input) sendMessageCutoff :: nat where
  "sendMessageCutoff \<equiv> 256"

abbreviation (input) sendMessageMaxDelay :: duration where
  "sendMessageMaxDelay \<equiv> 20 * millisecond"

abbreviation (input) maxValidLatency :: duration where
  "maxValidLatency \<equiv> 30 * second"

section \<open>Wantlists that can be recalled\<close>

record recallWantlist =
  rw_pending :: wantlist
  rw_sent :: wantlist
  rw_sentAt :: "Want \<rightharpoonup> time"

definition newRecallWantList :: recallWantlist where
  "newRecallWantList = \<lparr>rw_pending = Wantlist_New, rw_sent = Wantlist_New, rw_sentAt = Map.empty\<rparr>"

definition rw_Add :: "Want \<Rightarrow> int32 \<Rightarrow> WantType \<Rightarrow> recallWantlist \<Rightarrow> recallWantlist" where
  "rw_Add c priority wtype r = r\<lparr>rw_pending := snd (Wantlist_Add c priority wtype (rw_pending r))\<rparr>"

definition rw_Remove :: "Want \<Rightarrow> recallWantlist \<Rightarrow> recallWantlist" where
  "rw_Remove c r = r\<lparr>rw_pending := snd (Wantlist_Remove c (rw_pending r)),
     rw_sent := snd (Wantlist_Remove c (rw_sent r)), rw_sentAt := (rw_sentAt r)(c := None)\<rparr>"

definition rw_RemoveType :: "Want \<Rightarrow> WantType \<Rightarrow> recallWantlist \<Rightarrow> recallWantlist" where
  "rw_RemoveType c wtype r =
     (let r = r\<lparr>rw_pending := snd (Wantlist_RemoveType c wtype (rw_pending r))\<rparr>;
          r = r\<lparr>rw_sent := snd (Wantlist_RemoveType c wtype (rw_sent r))\<rparr>
      in if Wantlist_Contains (rw_sent r) c = None then r\<lparr>rw_sentAt := (rw_sentAt r)(c := None)\<rparr> else r)"

definition rw_MarkSent :: "Entry \<Rightarrow> recallWantlist \<Rightarrow> bool \<times> recallWantlist" where
  "rw_MarkSent e r =
     (case Wantlist_RemoveType (e_Want e) (e_WantType e) (rw_pending r) of
        (False, p) \<Rightarrow> (False, r\<lparr>rw_pending := p\<rparr>)
      | (True, p) \<Rightarrow>
          (True, r\<lparr>rw_pending := p, rw_sent := snd (Wantlist_Add (e_Want e) (e_Priority e) (e_WantType e) (rw_sent r))\<rparr>))"

definition rw_SentAt :: "Want \<Rightarrow> time \<Rightarrow> recallWantlist \<Rightarrow> recallWantlist" where
  "rw_SentAt c t r =
     (if Wantlist_Contains (rw_sent r) c \<noteq> None \<and> rw_sentAt r c = None
      then r\<lparr>rw_sentAt := (rw_sentAt r)(c \<mapsto> t)\<rparr> else r)"

definition rw_ClearSentAt :: "Want \<Rightarrow> recallWantlist \<Rightarrow> recallWantlist" where
  "rw_ClearSentAt c r = r\<lparr>rw_sentAt := (rw_sentAt r)(c := None)\<rparr>"

section \<open>The queue\<close>

text \<open>The slices a message is built from.\<close>

record extraction =
  ex_peer :: "Entry list"
  ex_bcst :: "Entry list"
  ex_cancels :: "Want list"

text \<open>Where \<^verbatim>\<open>runQueue\<close> is: not started, in its \<^verbatim>\<open>select\<close>, or inside \<^verbatim>\<open>sendMessage\<close> between two critical sections.
\<open>Blocked\<close> is waiting for a tick that no timer will send. \<open>Sending\<close>, \<open>Sent\<close> hold the entries put in the message (those withdrawn have the undefined want), \<open>Simulate\<close> and
\<open>AddingPending\<close> what is left to do once the message is out.\<close>

datatype phase =
    Created
  | Selecting
  | Building extraction
  | Sending "Entry list" "Entry list" "msg_Entry list"
  | Sent "Entry list" "Entry list" "msg_Entry list"
  | Simulate "msg_Entry list"
  | AddingPending "Want list"
  | Checking
  | Blocked
  | Exited

record MessageQueue =
  mq_p :: peer
  mq_now :: time
  mq_done :: bool
  mq_dhTimeoutMgr :: dontHaveTimeoutMgr
  mq_maxMessageSize :: nat
  mq_maxValidLatency :: duration
  mq_outgoingWork :: "time option"
  mq_responses :: "Want list list"
  mq_bcstWants :: recallWantlist
  mq_peerWants :: recallWantlist
  mq_cancels :: wset
  mq_priority :: int32
  mq_sender :: bool
  mq_rebroadcastInterval :: duration
  mq_rebroadcastTimer :: "timer option"
  mq_msg :: impl
  mq_workScheduled :: time
  mq_scheduleWork :: timer
  mq_phase :: phase

definition newMessageQueue :: "time \<Rightarrow> peer \<Rightarrow> nat \<Rightarrow> duration \<Rightarrow> dontHaveTimeoutMgr \<Rightarrow> MessageQueue" where
  "newMessageQueue now p maxMsgSize maxLatency dhtm =
     \<lparr>mq_p = p, mq_now = now, mq_done = False, mq_dhTimeoutMgr = dhtm, mq_maxMessageSize = maxMsgSize,
      mq_maxValidLatency = maxLatency, mq_outgoingWork = None, mq_responses = [], mq_bcstWants = newRecallWantList,
      mq_peerWants = newRecallWantList, mq_cancels = NewSet, mq_priority = maxPriority, mq_sender = False,
      mq_rebroadcastInterval = defaultRebroadcastInterval, mq_rebroadcastTimer = None, mq_msg = newMsg False,
      mq_workScheduled = 0, mq_scheduleWork = Stopped, mq_phase = Created\<rparr>"

definition mq_New :: "time \<Rightarrow> peer \<Rightarrow> MessageQueue" where
  "mq_New now p = newMessageQueue now p maxMessageSize maxValidLatency newDontHaveTimeoutMgr"

text \<open>The channel of signals holds one; sending to a full channel is skipped.\<close>

definition signalWorkReady :: "MessageQueue \<Rightarrow> MessageQueue" where
  "signalWorkReady mq =
     (case mq_outgoingWork mq of None \<Rightarrow> mq\<lparr>mq_outgoingWork := Some (mq_now mq)\<rparr> | Some _ \<Rightarrow> mq)"

definition add_broadcast :: "Want \<Rightarrow> MessageQueue \<Rightarrow> MessageQueue" where
  "add_broadcast c mq =
     (let mq = mq\<lparr>mq_bcstWants := rw_Add c (mq_priority mq) Message_Wantlist_Have (mq_bcstWants mq)\<rparr>;
          mq = mq\<lparr>mq_priority := mq_priority mq - 1\<rparr>
      in mq\<lparr>mq_cancels := Set_Remove c (mq_cancels mq)\<rparr>)"

definition mq_AddBroadcastWantHaves :: "Want list \<Rightarrow> MessageQueue \<Rightarrow> MessageQueue" where
  "mq_AddBroadcastWantHaves whs mq =
     (if whs = [] then mq else signalWorkReady (fold add_broadcast whs mq))"

definition add_want :: "WantType \<Rightarrow> Want \<Rightarrow> MessageQueue \<Rightarrow> MessageQueue" where
  "add_want wtype c mq =
     (let mq = mq\<lparr>mq_peerWants := rw_Add c (mq_priority mq) wtype (mq_peerWants mq)\<rparr>;
          mq = mq\<lparr>mq_priority := mq_priority mq - 1\<rparr>
      in mq\<lparr>mq_cancels := Set_Remove c (mq_cancels mq)\<rparr>)"

definition mq_AddWants :: "Want list \<Rightarrow> Want list \<Rightarrow> MessageQueue \<Rightarrow> MessageQueue" where
  "mq_AddWants wbs whs mq =
     (if wbs = [] \<and> whs = [] then mq
      else signalWorkReady
             (fold (add_want Message_Wantlist_Block) wbs
                (fold (add_want Message_Wantlist_Have) whs mq)))"

definition add_cancel :: "Want \<Rightarrow> MessageQueue \<times> bool \<Rightarrow> MessageQueue \<times> bool" where
  "add_cancel c st =
     (case st of (mq, workReady) \<Rightarrow>
        let wasSentBcst = (Wantlist_Contains (rw_sent (mq_bcstWants mq)) c \<noteq> None);
            wasSentPeer = (Wantlist_Contains (rw_sent (mq_peerWants mq)) c \<noteq> None);
            mq = mq\<lparr>mq_bcstWants := rw_Remove c (mq_bcstWants mq)\<rparr>;
            mq = mq\<lparr>mq_peerWants := rw_Remove c (mq_peerWants mq)\<rparr>
        in if wasSentBcst \<or> wasSentPeer then (mq\<lparr>mq_cancels := Set_Add c (mq_cancels mq)\<rparr>, True) else (mq, workReady))"

definition mq_AddCancels :: "Want list \<Rightarrow> MessageQueue \<Rightarrow> MessageQueue" where
  "mq_AddCancels cancelKs mq =
     (if cancelKs = [] then mq
      else let mq = mq\<lparr>mq_dhTimeoutMgr := dh_CancelPending cancelKs (mq_dhTimeoutMgr mq)\<rparr>
           in case fold add_cancel cancelKs (mq, False) of
                (mq, workReady) \<Rightarrow> if workReady then signalWorkReady mq else mq)"

text \<open>The channel of responses holds eight.\<close>

definition mq_ResponseReceived :: "Want list \<Rightarrow> MessageQueue \<Rightarrow> MessageQueue" where
  "mq_ResponseReceived ks mq =
     (if ks = [] then mq
      else if length (mq_responses mq) < 8 then mq\<lparr>mq_responses := mq_responses mq @ [ks]\<rparr> else mq)"

definition mq_SetRebroadcastInterval :: "duration \<Rightarrow> MessageQueue \<Rightarrow> MessageQueue" where
  "mq_SetRebroadcastInterval delay mq =
     (let mq = mq\<lparr>mq_rebroadcastInterval := delay\<rparr>
      in case mq_rebroadcastTimer mq of
           None \<Rightarrow> mq
         | Some _ \<Rightarrow> mq\<lparr>mq_rebroadcastTimer := Some (Armed (mq_now mq + delay))\<rparr>)"

text \<open>\<^verbatim>\<open>runQueue\<close> begins by making a stopped timer.\<close>

definition mq_Startup :: "MessageQueue \<Rightarrow> MessageQueue" where
  "mq_Startup mq =
     mq\<lparr>mq_rebroadcastTimer := Some (Armed (mq_now mq + mq_rebroadcastInterval mq)),
        mq_scheduleWork := Stopped, mq_workScheduled := 0, mq_phase := Selecting\<rparr>"

definition mq_Shutdown :: "MessageQueue \<Rightarrow> MessageQueue" where
  "mq_Shutdown mq = mq\<lparr>mq_done := True\<rparr>"

definition onShutdown :: "MessageQueue \<Rightarrow> MessageQueue" where
  "onShutdown mq = mq\<lparr>mq_dhTimeoutMgr := dh_Shutdown (mq_dhTimeoutMgr mq)\<rparr>"

section \<open>Building a message\<close>

definition pendingWorkCount :: "MessageQueue \<Rightarrow> nat" where
  "pendingWorkCount mq =
     Wantlist_Len (rw_pending (mq_bcstWants mq)) + Wantlist_Len (rw_pending (mq_peerWants mq)) + Set_Len (mq_cancels mq)"

definition hasPendingWork :: "MessageQueue \<Rightarrow> bool" where
  "hasPendingWork mq \<longleftrightarrow> pendingWorkCount mq > 0"

text \<open>The first critical section of \<^verbatim>\<open>extractOutgoingMessage\<close>. Towards a peer that does not know HAVE, the want-haves of
the peer list are dropped.\<close>

definition extract_snapshot :: "(Want set \<Rightarrow> Want list) \<Rightarrow> bool \<Rightarrow> MessageQueue \<Rightarrow> MessageQueue \<times> extraction" where
  "extract_snapshot itw supportsHave mq =
     (let peerEntries = Wantlist_Entries itw (rw_pending (mq_peerWants mq));
          bcstEntries = Wantlist_Entries itw (rw_pending (mq_bcstWants mq));
          cancels = Set_Keys itw (mq_cancels mq)
      in if supportsHave then (mq, \<lparr>ex_peer = peerEntries, ex_bcst = bcstEntries, ex_cancels = cancels\<rparr>)
         else (mq\<lparr>mq_peerWants := fold (\<lambda>e r. if e_WantType e = Message_Wantlist_Have
                     then rw_RemoveType (e_Want e) Message_Wantlist_Have r else r) peerEntries (mq_peerWants mq)\<rparr>,
               \<lparr>ex_peer = filter (\<lambda>e. e_WantType e \<noteq> Message_Wantlist_Have) peerEntries,
                ex_bcst = bcstEntries, ex_cancels = cancels\<rparr>))"

text \<open>A loop that adds to the message until it is full: whether it stopped for that reason, the size so far, the number of
items added, and the message.\<close>

fun build_loop ::
  "nat \<Rightarrow> ('a \<Rightarrow> impl \<Rightarrow> nat \<times> impl) \<Rightarrow> 'a list \<Rightarrow> nat \<Rightarrow> nat \<Rightarrow> impl \<Rightarrow> bool \<times> nat \<times> nat \<times> impl" where
  "build_loop maxSize add [] msgSize n msg = (False, msgSize, n, msg)"
| "build_loop maxSize add (x # xs) msgSize n msg =
     (case add x msg of (k, msg) \<Rightarrow>
        let msgSize = msgSize + k; n = n + 1
        in if msgSize \<ge> maxSize then (True, msgSize, n, msg) else build_loop maxSize add xs msgSize n msg)"

record built =
  bt_msg :: impl
  bt_size :: nat
  bt_peer :: "Entry list"
  bt_bcst :: "Entry list"
  bt_sentCancels :: nat
  bt_sentPeer :: nat
  bt_sentBcst :: nat

text \<open>The part between the critical sections, from its last loop to its first; \<open>maxEntry\<close> is \<^verbatim>\<open>bsmsg.MaxEntrySize\<close>.\<close>

definition order_entries :: "nat \<Rightarrow> nat \<Rightarrow> nat \<Rightarrow> Entry list \<Rightarrow> Entry list" where
  "order_entries maxEntry maxSize msgSize es =
     (if msgSize + length es * maxEntry > maxSize then SortEntries es else es)"

definition build_bcst :: "nat \<Rightarrow> bool \<Rightarrow> nat \<Rightarrow> Entry list \<Rightarrow> nat \<Rightarrow> nat \<Rightarrow> Entry list \<Rightarrow> nat \<Rightarrow> impl \<Rightarrow> built" where
  "build_bcst maxEntry supportsHave maxSize bcst nc np peerEntries msgSize msg =
     (let bcstEntries = order_entries maxEntry maxSize msgSize bcst;
          wantType = (if supportsHave then Message_Wantlist_Have else Message_Wantlist_Block)
      in case build_loop maxSize (\<lambda>e. impl_AddEntry (e_Want e) (e_Priority e) wantType False) bcstEntries msgSize 0 msg of
           (full, msgSize, nb, msg) \<Rightarrow>
             \<lparr>bt_msg = msg, bt_size = msgSize, bt_peer = peerEntries, bt_bcst = bcstEntries,
              bt_sentCancels = nc, bt_sentPeer = np, bt_sentBcst = nb\<rparr>)"

definition build_peer :: "nat \<Rightarrow> bool \<Rightarrow> nat \<Rightarrow> Entry list \<Rightarrow> nat \<Rightarrow> Entry list \<Rightarrow> nat \<Rightarrow> impl \<Rightarrow> built" where
  "build_peer maxEntry supportsHave maxSize bcst nc peer msgSize msg =
     (let peerEntries = order_entries maxEntry maxSize msgSize peer
      in case build_loop maxSize (\<lambda>e. impl_AddEntry (e_Want e) (e_Priority e) (e_WantType e) True) peerEntries msgSize 0 msg of
           (full, msgSize, np, msg) \<Rightarrow>
             if full then \<lparr>bt_msg = msg, bt_size = msgSize, bt_peer = peerEntries, bt_bcst = bcst,
                           bt_sentCancels = nc, bt_sentPeer = np, bt_sentBcst = 0\<rparr>
             else build_bcst maxEntry supportsHave maxSize bcst nc np peerEntries msgSize msg)"

definition extract_build :: "nat \<Rightarrow> bool \<Rightarrow> nat \<Rightarrow> extraction \<Rightarrow> impl \<Rightarrow> built" where
  "extract_build maxEntry supportsHave maxSize ex msg =
     (case build_loop maxSize impl_Cancel (ex_cancels ex) 0 0 msg of
        (full, msgSize, nc, msg) \<Rightarrow>
          if full then \<lparr>bt_msg = msg, bt_size = msgSize, bt_peer = ex_peer ex, bt_bcst = ex_bcst ex,
                        bt_sentCancels = nc, bt_sentPeer = 0, bt_sentBcst = 0\<rparr>
          else build_peer maxEntry supportsHave maxSize (ex_bcst ex) nc (ex_peer ex) msgSize msg)"

text \<open>The second critical section: what changed meanwhile is taken out of the message.\<close>

fun mark_loop :: "Entry list \<Rightarrow> recallWantlist \<Rightarrow> impl \<Rightarrow> recallWantlist \<times> impl \<times> Entry list" where
  "mark_loop [] r msg = (r, msg, [])"
| "mark_loop (e # es) r msg =
     (case rw_MarkSent e r of (ok, r) \<Rightarrow>
        let msg' = (if ok then msg else impl_Remove (e_Want e) msg);
            e' = (if ok then e else e\<lparr>e_Want := Undef\<rparr>)
        in case mark_loop es r msg' of (r, msg, es) \<Rightarrow> (r, msg, e' # es))"

definition finish_cancel :: "Want \<Rightarrow> wset \<times> impl \<Rightarrow> wset \<times> impl" where
  "finish_cancel c st =
     (case st of (cancels, msg) \<Rightarrow>
        if \<not> Set_Has cancels c then (cancels, impl_Remove c msg) else (Set_Remove c cancels, msg))"

definition extract_finish :: "built \<Rightarrow> extraction \<Rightarrow> MessageQueue \<Rightarrow> MessageQueue \<times> Entry list \<times> Entry list" where
  "extract_finish bt ex mq =
     (case mark_loop (take (bt_sentPeer bt) (bt_peer bt)) (mq_peerWants mq) (bt_msg bt) of (peer, msg, peerEntries) \<Rightarrow>
      case mark_loop (take (bt_sentBcst bt) (bt_bcst bt)) (mq_bcstWants mq) msg of (bcst, msg, bcstEntries) \<Rightarrow>
      case fold finish_cancel (take (bt_sentCancels bt) (ex_cancels ex)) (mq_cancels mq, msg) of (cancels, msg) \<Rightarrow>
        (mq\<lparr>mq_peerWants := peer, mq_bcstWants := bcst, mq_cancels := cancels, mq_msg := msg\<rparr>, peerEntries, bcstEntries))"

text \<open>The function \<^verbatim>\<open>onSent\<close> it returns.\<close>

definition record_sent :: "time \<Rightarrow> Entry list \<Rightarrow> recallWantlist \<Rightarrow> recallWantlist" where
  "record_sent now es r = fold (\<lambda>e r. if Want_Defined (e_Want e) then rw_SentAt (e_Want e) now r else r) es r"

definition onSent :: "Entry list \<Rightarrow> Entry list \<Rightarrow> MessageQueue \<Rightarrow> MessageQueue" where
  "onSent peerEntries bcstEntries mq =
     (let now = mq_now mq;
          mq = mq\<lparr>mq_peerWants := record_sent now peerEntries (mq_peerWants mq)\<rparr>
      in mq\<lparr>mq_bcstWants := record_sent now bcstEntries (mq_bcstWants mq)\<rparr>)"

definition dont_have_wants :: "msg_Entry list \<Rightarrow> MessageQueue \<Rightarrow> Want list" where
  "dont_have_wants wantlist mq =
     map (\<lambda>entry. e_Want (me_Entry entry))
       (filter (\<lambda>entry. e_WantType (me_Entry entry) = Message_Wantlist_Block \<and> me_SendDontHave entry \<and>
                 Wantlist_Contains (rw_sent (mq_peerWants mq)) (e_Want (me_Entry entry)) \<noteq> None) wantlist)"

section \<open>Responses\<close>

definition consider_sent :: "MessageQueue \<Rightarrow> time \<Rightarrow> time \<Rightarrow> time" where
  "consider_sent mq t earliest =
     (if (time_IsZero earliest \<or> t < earliest) \<and> time_Sub (mq_now mq) t < mq_maxValidLatency mq then t else earliest)"

definition response_key :: "Want \<Rightarrow> MessageQueue \<times> time \<Rightarrow> MessageQueue \<times> time" where
  "response_key c st =
     (case st of (mq, earliest) \<Rightarrow>
        case (case rw_sentAt (mq_bcstWants mq) c of
                None \<Rightarrow> (mq, earliest)
              | Some t \<Rightarrow> (mq\<lparr>mq_bcstWants := rw_ClearSentAt c (mq_bcstWants mq)\<rparr>, consider_sent mq t earliest)) of
          (mq, earliest) \<Rightarrow>
            (case rw_sentAt (mq_peerWants mq) c of
               None \<Rightarrow> (mq, earliest)
             | Some t \<Rightarrow> (mq\<lparr>mq_peerWants := rw_ClearSentAt c (mq_peerWants mq)\<rparr>, consider_sent mq t earliest)))"

definition handleResponse :: "Want list \<Rightarrow> MessageQueue \<Rightarrow> MessageQueue" where
  "handleResponse ks mq =
     (case fold response_key ks (mq, 0) of (mq, earliest) \<Rightarrow>
        if \<not> time_IsZero earliest
        then mq\<lparr>mq_dhTimeoutMgr := dh_UpdateMessageLatency (mq_now mq) (time_Sub (mq_now mq) earliest) (mq_dhTimeoutMgr mq)\<rparr>
        else mq)"

section \<open>Sending\<close>

text \<open>The sections of \<^verbatim>\<open>sendMessage\<close>. \<open>initOk\<close> is whether \<^verbatim>\<open>NewMessageSender\<close> succeeded, \<open>latency\<close> what the connection
reports, \<open>sendOk\<close> whether \<^verbatim>\<open>SendMsg\<close> succeeded. The message is reset when the function returns.\<close>

definition initializeSender :: "bool \<Rightarrow> MessageQueue \<Rightarrow> MessageQueue option" where
  "initializeSender initOk mq =
     (if mq_sender mq then Some mq else if initOk then Some (mq\<lparr>mq_sender := True\<rparr>) else None)"

definition sendMessage_begin ::
  "(Want set \<Rightarrow> Want list) \<Rightarrow> bool \<Rightarrow> bool \<Rightarrow> duration \<Rightarrow> MessageQueue \<Rightarrow> MessageQueue" where
  "sendMessage_begin itw supportsHave initOk latency mq =
     (case initializeSender initOk mq of
        None \<Rightarrow> mq_Shutdown mq
      | Some mq \<Rightarrow>
          let mq = mq\<lparr>mq_dhTimeoutMgr := fst (dh_Start latency (mq_dhTimeoutMgr mq))\<rparr>
          in case extract_snapshot itw supportsHave mq of (mq, ex) \<Rightarrow> mq\<lparr>mq_phase := Building ex\<rparr>)"

definition sendMessage_finish ::
  "(Want set \<Rightarrow> Want list) \<Rightarrow> nat \<Rightarrow> bool \<Rightarrow> extraction \<Rightarrow> MessageQueue \<Rightarrow> MessageQueue" where
  "sendMessage_finish itw maxEntry supportsHave ex mq =
     (let bt = extract_build maxEntry supportsHave (mq_maxMessageSize mq) ex (mq_msg mq)
      in case extract_finish bt ex mq of (mq, peerEntries, bcstEntries) \<Rightarrow>
           if impl_Empty (mq_msg mq)
           then mq\<lparr>mq_msg := impl_Reset itw False (mq_msg mq), mq_phase := Selecting\<rparr>
           else mq\<lparr>mq_phase := Sending peerEntries bcstEntries (impl_Wantlist itw (mq_msg mq))\<rparr>)"

definition sendMessage_failed :: "(Want set \<Rightarrow> Want list) \<Rightarrow> MessageQueue \<Rightarrow> MessageQueue" where
  "sendMessage_failed itw mq =
     (mq_Shutdown mq)\<lparr>mq_msg := impl_Reset itw False (mq_msg mq), mq_phase := Selecting\<rparr>"

definition sendMessage_check :: "(Want set \<Rightarrow> Want list) \<Rightarrow> MessageQueue \<Rightarrow> MessageQueue" where
  "sendMessage_check itw mq =
     (let mq = (if hasPendingWork mq then signalWorkReady mq else mq)
      in mq\<lparr>mq_msg := impl_Reset itw False (mq_msg mq), mq_phase := Selecting\<rparr>)"

definition sendIfReady :: "(Want set \<Rightarrow> Want list) \<Rightarrow> bool \<Rightarrow> bool \<Rightarrow> duration \<Rightarrow> MessageQueue \<Rightarrow> MessageQueue" where
  "sendIfReady itw supportsHave initOk latency mq =
     (if hasPendingWork mq then sendMessage_begin itw supportsHave initOk latency mq else mq)"

definition transferRebroadcastWants :: "(Want set \<Rightarrow> Want list) \<Rightarrow> MessageQueue \<Rightarrow> bool \<times> MessageQueue" where
  "transferRebroadcastWants itw mq =
     (if Wantlist_Len (rw_sent (mq_bcstWants mq)) = 0 \<and> Wantlist_Len (rw_sent (mq_peerWants mq)) = 0 then (False, mq)
      else (True, mq\<lparr>mq_bcstWants := (mq_bcstWants mq)\<lparr>rw_pending :=
                          Wantlist_Absorb itw (rw_sent (mq_bcstWants mq)) (rw_pending (mq_bcstWants mq))\<rparr>,
                     mq_peerWants := (mq_peerWants mq)\<lparr>rw_pending :=
                          Wantlist_Absorb itw (rw_sent (mq_peerWants mq)) (rw_pending (mq_peerWants mq))\<rparr>\<rparr>))"

definition rebroadcastWantlist ::
  "(Want set \<Rightarrow> Want list) \<Rightarrow> bool \<Rightarrow> bool \<Rightarrow> duration \<Rightarrow> MessageQueue \<Rightarrow> MessageQueue" where
  "rebroadcastWantlist itw supportsHave initOk latency mq =
     (let mq = mq\<lparr>mq_rebroadcastTimer := Some (Armed (mq_now mq + mq_rebroadcastInterval mq))\<rparr>
      in case transferRebroadcastWants itw mq of (moved, mq) \<Rightarrow>
           if moved then sendMessage_begin itw supportsHave initOk latency mq else mq)"

section \<open>The goroutine\<close>

text \<open>The case of \<^verbatim>\<open>runQueue\<close> that takes a signal. A timer that \<^verbatim>\<open>Stop\<close> did not stop is drained, which blocks if no tick
is there.\<close>

definition on_outgoingWork ::
  "(Want set \<Rightarrow> Want list) \<Rightarrow> bool \<Rightarrow> bool \<Rightarrow> duration \<Rightarrow> time \<Rightarrow> MessageQueue \<Rightarrow> MessageQueue" where
  "on_outgoingWork itw supportsHave initOk latency sig_time mq =
     (let mq = mq\<lparr>mq_outgoingWork := None\<rparr>
      in if \<not> time_IsZero (mq_workScheduled mq) \<and> mq_scheduleWork mq = Stopped then mq\<lparr>mq_phase := Blocked\<rparr>
         else let mq = (if time_IsZero (mq_workScheduled mq) then mq\<lparr>mq_workScheduled := sig_time\<rparr>
                        else mq\<lparr>mq_scheduleWork := Stopped\<rparr>)
              in if pendingWorkCount mq > sendMessageCutoff \<or>
                    time_Sub (mq_now mq) (mq_workScheduled mq) \<ge> sendMessageMaxDelay
                 then sendIfReady itw supportsHave initOk latency (mq\<lparr>mq_workScheduled := 0\<rparr>)
                 else mq\<lparr>mq_scheduleWork := Armed (mq_now mq + sendMessageDebounce)\<rparr>)"

definition on_scheduleWork ::
  "(Want set \<Rightarrow> Want list) \<Rightarrow> bool \<Rightarrow> bool \<Rightarrow> duration \<Rightarrow> MessageQueue \<Rightarrow> MessageQueue" where
  "on_scheduleWork itw supportsHave initOk latency mq =
     sendIfReady itw supportsHave initOk latency (mq\<lparr>mq_scheduleWork := Stopped, mq_workScheduled := 0\<rparr>)"

text \<open>What the timeout manager does on its own.\<close>

inductive dh_background :: "time \<Rightarrow> dontHaveTimeoutMgr \<Rightarrow> dontHaveTimeoutMgr \<Rightarrow> bool" for now where
  bg_ping: "\<forall>latency \<in> set_option ping. 0 \<le> latency \<Longrightarrow> dh_background now d (measurePingLatency now ping d)"
| bg_timer: "dh_timer d = Some (Armed t) \<Longrightarrow> t \<le> now \<Longrightarrow> dh_background now d (d\<lparr>dh_timer := Some Fired\<rparr>)"
| bg_consume: "consumeTimeouts now d = Some d' \<Longrightarrow> dh_background now d d'"
| bg_fire: "dh_firing d = xs @ ws # ys \<Longrightarrow> dh_background now d (d\<lparr>dh_firing := xs @ ys\<rparr>)"

text \<open>One step of the goroutine or of a timer; the label is the message that reaches the peer, if one does.\<close>

inductive mq_internal ::
  "(Want set \<Rightarrow> Want list) \<Rightarrow> nat \<Rightarrow> bool \<Rightarrow> MessageQueue \<Rightarrow> impl option \<Rightarrow> MessageQueue \<Rightarrow> bool"
  for itw maxEntry sh where
  i_clock: "mq_now q \<le> t \<Longrightarrow> mq_internal itw maxEntry sh q None (q\<lparr>mq_now := t\<rparr>)"
| i_timer: "mq_scheduleWork q = Armed t \<Longrightarrow> t \<le> mq_now q \<Longrightarrow>
    mq_internal itw maxEntry sh q None (q\<lparr>mq_scheduleWork := Fired\<rparr>)"
| i_rebroadcast_timer: "mq_rebroadcastTimer q = Some (Armed t) \<Longrightarrow> t \<le> mq_now q \<Longrightarrow>
    mq_internal itw maxEntry sh q None (q\<lparr>mq_rebroadcastTimer := Some Fired\<rparr>)"
| i_background: "dh_background (mq_now q) (mq_dhTimeoutMgr q) d \<Longrightarrow>
    mq_internal itw maxEntry sh q None (q\<lparr>mq_dhTimeoutMgr := d\<rparr>)"
| i_rebroadcast: "mq_phase q = Selecting \<Longrightarrow> mq_rebroadcastTimer q = Some Fired \<Longrightarrow> 0 \<le> latency \<Longrightarrow>
    mq_internal itw maxEntry sh q None (rebroadcastWantlist itw sh initOk latency q)"
| i_work: "mq_phase q = Selecting \<Longrightarrow> mq_outgoingWork q = Some sig_time \<Longrightarrow> 0 \<le> latency \<Longrightarrow>
    mq_internal itw maxEntry sh q None (on_outgoingWork itw sh initOk latency sig_time q)"
| i_schedule: "mq_phase q = Selecting \<Longrightarrow> mq_scheduleWork q = Fired \<Longrightarrow> 0 \<le> latency \<Longrightarrow>
    mq_internal itw maxEntry sh q None (on_scheduleWork itw sh initOk latency q)"
| i_response: "mq_phase q = Selecting \<Longrightarrow> mq_responses q = ks # kss \<Longrightarrow>
    mq_internal itw maxEntry sh q None (handleResponse ks (q\<lparr>mq_responses := kss\<rparr>))"
| i_exit: "mq_phase q = Selecting \<Longrightarrow> mq_done q \<Longrightarrow>
    mq_internal itw maxEntry sh q None (onShutdown (q\<lparr>mq_phase := Exited\<rparr>))"
| i_finish: "mq_phase q = Building ex \<Longrightarrow>
    mq_internal itw maxEntry sh q None (sendMessage_finish itw maxEntry sh ex q)"
| i_send: "mq_phase q = Sending pe be wl \<Longrightarrow>
    mq_internal itw maxEntry sh q (Some (mq_msg q)) (q\<lparr>mq_phase := Sent pe be wl\<rparr>)"
| i_fail: "mq_phase q = Sending pe be wl \<Longrightarrow>
    mq_internal itw maxEntry sh q None (sendMessage_failed itw q)"
| i_sent: "mq_phase q = Sent pe be wl \<Longrightarrow>
    mq_internal itw maxEntry sh q None ((onSent pe be q)\<lparr>mq_phase := Simulate wl\<rparr>)"
| i_simulate: "mq_phase q = Simulate wl \<Longrightarrow>
    mq_internal itw maxEntry sh q None (q\<lparr>mq_phase := AddingPending (dont_have_wants wl q)\<rparr>)"
| i_pending: "mq_phase q = AddingPending ws \<Longrightarrow>
    mq_internal itw maxEntry sh q None
      (q\<lparr>mq_dhTimeoutMgr := dh_AddPending (mq_now q) ws (mq_dhTimeoutMgr q), mq_phase := Checking\<rparr>)"
| i_check: "mq_phase q = Checking \<Longrightarrow> mq_internal itw maxEntry sh q None (sendMessage_check itw q)"

text \<open>What the peer holds of our wants after it has processed a message.\<close>

definition remote_recv :: "impl \<Rightarrow> Want set \<Rightarrow> Want set" where
  "remote_recv m R =
     {w. case im_wantlist m w of None \<Rightarrow> w \<in> R | Some e \<Rightarrow> \<not> me_Cancel e}"

text \<open>Runs of a queue with the wants the peer holds. \<open>G\<close> restricts when callers add and cancel which wants.\<close>

inductive mq_run ::
  "(Want set \<Rightarrow> Want list) \<Rightarrow> nat \<Rightarrow> bool \<Rightarrow> (Want list \<Rightarrow> Want list \<Rightarrow> MessageQueue \<Rightarrow> bool) \<Rightarrow> MessageQueue \<Rightarrow> Want set \<Rightarrow> bool"
  for itw maxEntry sh G where
  run_start: "mq_run itw maxEntry sh G (mq_Startup (newMessageQueue now p maxMsgSize maxLatency newDontHaveTimeoutMgr)) {}"
| run_broadcast: "mq_run itw maxEntry sh G q R \<Longrightarrow> G ws [] q \<Longrightarrow> mq_run itw maxEntry sh G (mq_AddBroadcastWantHaves ws q) R"
| run_wants: "mq_run itw maxEntry sh G q R \<Longrightarrow> G (bs @ hs) [] q \<Longrightarrow> mq_run itw maxEntry sh G (mq_AddWants bs hs q) R"
| run_cancels: "mq_run itw maxEntry sh G q R \<Longrightarrow> G [] cs q \<Longrightarrow> mq_run itw maxEntry sh G (mq_AddCancels cs q) R"
| run_response: "mq_run itw maxEntry sh G q R \<Longrightarrow> mq_run itw maxEntry sh G (mq_ResponseReceived ks q) R"
| run_interval: "mq_run itw maxEntry sh G q R \<Longrightarrow> mq_run itw maxEntry sh G (mq_SetRebroadcastInterval delay q) R"
| run_shutdown: "mq_run itw maxEntry sh G q R \<Longrightarrow> mq_run itw maxEntry sh G (mq_Shutdown q) R"
| run_internal: "mq_run itw maxEntry sh G q R \<Longrightarrow> mq_internal itw maxEntry sh q None q' \<Longrightarrow> mq_run itw maxEntry sh G q' R"
| run_deliver: "mq_run itw maxEntry sh G q R \<Longrightarrow> mq_internal itw maxEntry sh q (Some m) q' \<Longrightarrow>
    mq_run itw maxEntry sh G q' (remote_recv m R)"

section \<open>The wants of a queue\<close>

lemma dom_Wantlist_Add [simp]: "dom (snd (Wantlist_Add c p t w)) = insert c (dom w)"
  using wl.members_add [of c p t w] by (simp add: members_Wantlist)

lemma dom_Wantlist_Remove [simp]: "dom (snd (Wantlist_Remove c w)) = dom w - {c}"
  using wl.members_remove [of c w] by (simp add: members_Wantlist)

lemma dom_Wantlist_RemoveType: "dom (snd (Wantlist_RemoveType c t w)) = (if fst (Wantlist_RemoveType c t w) then dom w - {c} else dom w)"
  by (auto simp: Wantlist_RemoveType_def split: option.splits)

definition rw_carries :: "recallWantlist \<Rightarrow> Want set" where
  "rw_carries r = dom (rw_pending r) \<union> dom (rw_sent r)"

definition rw_wf :: "recallWantlist \<Rightarrow> bool" where
  "rw_wf r \<longleftrightarrow> Wantlist_wf (rw_pending r) \<and> Wantlist_wf (rw_sent r)"

lemma rw_carries_ops [simp]:
  "rw_carries newRecallWantList = {}"
  "rw_carries (rw_Add c p t r) = insert c (rw_carries r)"
  "rw_carries (rw_Remove c r) = rw_carries r - {c}"
  "rw_carries (rw_SentAt c x r) = rw_carries r"
  "rw_carries (rw_ClearSentAt c r) = rw_carries r"
  by (auto simp: rw_carries_def newRecallWantList_def rw_Add_def rw_Remove_def rw_SentAt_def rw_ClearSentAt_def Wantlist_New_def)

lemma rw_RemoveType_sel:
  "rw_pending (rw_RemoveType c t r) = snd (Wantlist_RemoveType c t (rw_pending r))"
  "rw_sent (rw_RemoveType c t r) = snd (Wantlist_RemoveType c t (rw_sent r))"
  by (simp_all add: rw_RemoveType_def Let_def)

lemma rw_carries_RemoveType: "rw_carries (rw_RemoveType c t r) \<subseteq> rw_carries r"
  by (auto simp: rw_carries_def rw_RemoveType_sel dom_Wantlist_RemoveType)

lemma rw_MarkSent_cases:
  "rw_MarkSent e r =
     (if fst (Wantlist_RemoveType (e_Want e) (e_WantType e) (rw_pending r))
      then (True, r\<lparr>rw_pending := (rw_pending r)(e_Want e := None),
                   rw_sent := snd (Wantlist_Add (e_Want e) (e_Priority e) (e_WantType e) (rw_sent r))\<rparr>)
      else (False, r))"
  by (simp add: rw_MarkSent_def Wantlist_RemoveType_def split: option.splits)

lemma rw_carries_MarkSent [simp]: "rw_carries (snd (rw_MarkSent e r)) = rw_carries r"
  by (auto simp: rw_MarkSent_cases rw_carries_def Wantlist_RemoveType_def split: option.splits if_splits)

lemma rw_wf_ops [inv_intros]:
  "rw_wf newRecallWantList"
  "rw_wf r \<Longrightarrow> rw_wf (rw_Add c p t r)"
  "rw_wf r \<Longrightarrow> rw_wf (rw_Remove c r)"
  "rw_wf r \<Longrightarrow> rw_wf (rw_RemoveType c t r)"
  "rw_wf r \<Longrightarrow> rw_wf (rw_SentAt c x r)"
  "rw_wf r \<Longrightarrow> rw_wf (rw_ClearSentAt c r)"
  by (simp_all add: rw_wf_def newRecallWantList_def rw_Add_def rw_Remove_def rw_RemoveType_sel rw_SentAt_def
      rw_ClearSentAt_def inv_intros)

lemma rw_wf_MarkSent [inv_intros]: "rw_wf r \<Longrightarrow> rw_wf (snd (rw_MarkSent e r))"
  unfolding rw_MarkSent_cases
  by (auto simp: rw_wf_def Wantlist_wf_Add) (simp add: Wantlist_wf_def)

definition mq_carries :: "MessageQueue \<Rightarrow> Want set" where
  "mq_carries q = rw_carries (mq_bcstWants q) \<union> rw_carries (mq_peerWants q)"

text \<open>Signals, timers and the clock do not touch the wantlists.\<close>

definition core :: "MessageQueue \<Rightarrow> recallWantlist \<times> recallWantlist \<times> wset" where
  "core q = (mq_bcstWants q, mq_peerWants q, mq_cancels q)"

lemma signalWorkReady_sel [simp]:
  "mq_bcstWants (signalWorkReady q) = mq_bcstWants q" "mq_peerWants (signalWorkReady q) = mq_peerWants q"
  "mq_cancels (signalWorkReady q) = mq_cancels q" "mq_msg (signalWorkReady q) = mq_msg q"
  "mq_phase (signalWorkReady q) = mq_phase q" "mq_now (signalWorkReady q) = mq_now q"
  "mq_workScheduled (signalWorkReady q) = mq_workScheduled q" "mq_scheduleWork (signalWorkReady q) = mq_scheduleWork q"
  "mq_dhTimeoutMgr (signalWorkReady q) = mq_dhTimeoutMgr q" "mq_done (signalWorkReady q) = mq_done q"
  by (simp_all add: signalWorkReady_def split: option.splits)

section \<open>The wants of a message\<close>

definition msg_cancels :: "impl \<Rightarrow> Want set" where
  "msg_cancels m = {w. \<exists>e. im_wantlist m w = Some e \<and> me_Cancel e}"

definition msg_wants :: "impl \<Rightarrow> Want set" where
  "msg_wants m = {w. \<exists>e. im_wantlist m w = Some e \<and> \<not> me_Cancel e}"

lemma remote_recv_eq: "remote_recv m R = msg_wants m \<union> (R - msg_cancels m)"
  by (auto simp: remote_recv_def msg_wants_def msg_cancels_def split: option.splits)

lemma dom_wantlist: "dom (im_wantlist m) = msg_wants m \<union> msg_cancels m"
  by (auto simp: msg_wants_def msg_cancels_def)

lemma msg_disjoint: "msg_wants m \<inter> msg_cancels m = {}"
  by (auto simp: msg_wants_def msg_cancels_def)

lemma msg_Remove [simp]:
  "msg_wants (impl_Remove w m) = msg_wants m - {w}" "msg_cancels (impl_Remove w m) = msg_cancels m - {w}"
  by (auto simp: msg_wants_def msg_cancels_def impl_Remove_def)

lemma msg_Cancel [simp]:
  "msg_wants (snd (impl_Cancel w m)) = msg_wants m - {w}" "msg_cancels (snd (impl_Cancel w m)) = insert w (msg_cancels m)"
  by (auto simp: msg_wants_def msg_cancels_def impl_Cancel_def impl_addEntry_def Let_def merge_entry_sel split: option.splits if_splits)

lemma msg_AddEntry [simp]:
  "msg_cancels (snd (impl_AddEntry w p t d m)) = msg_cancels m"
  "msg_wants (snd (impl_AddEntry w p t d m)) = msg_wants m \<union> ({w} - msg_cancels m)"
  by (auto simp: msg_wants_def msg_cancels_def impl_AddEntry_def impl_addEntry_def Let_def merge_entry_sel split: option.splits if_splits)

lemma msg_Cancel_fold:
  "msg_cancels (fold (\<lambda>c m. snd (impl_Cancel c m)) cs m) = msg_cancels m \<union> set cs"
  "msg_wants (fold (\<lambda>c m. snd (impl_Cancel c m)) cs m) = msg_wants m - set cs"
  by (induction cs arbitrary: m) auto

lemma msg_AddEntry_fold:
  "msg_cancels (fold (\<lambda>e m. snd (impl_AddEntry (e_Want e) (p e) (t e) d m)) es m) = msg_cancels m"
  "msg_wants (fold (\<lambda>e m. snd (impl_AddEntry (e_Want e) (p e) (t e) d m)) es m) =
     msg_wants m \<union> (e_Want ` set es - msg_cancels m)"
  by (induction es arbitrary: m) auto

lemma msg_blocks_fixed [simp]:
  "im_blocks (snd (impl_AddEntry w p t d m)) = im_blocks m" "im_blockPresences (snd (impl_AddEntry w p t d m)) = im_blockPresences m"
  "im_blocks (snd (impl_Cancel w m)) = im_blocks m" "im_blockPresences (snd (impl_Cancel w m)) = im_blockPresences m"
  "im_blocks (impl_Remove w m) = im_blocks m" "im_blockPresences (impl_Remove w m) = im_blockPresences m"
  by (simp_all add: impl_AddEntry_def impl_Cancel_def impl_addEntry_def impl_Remove_def Let_def split: option.splits)

text \<open>A building loop adds a prefix of its list.\<close>

lemma build_loop_take:
  "build_loop maxSize add xs size0 n0 m = (full, sz, n, m') \<Longrightarrow>
     \<exists>k \<le> length xs. n = n0 + k \<and> m' = fold (\<lambda>x m. snd (add x m)) (take k xs) m \<and> (\<not> full \<longrightarrow> k = length xs)"
proof (induction maxSize add xs size0 n0 m arbitrary: full sz n m' rule: build_loop.induct)
  case (2 maxSize add x xs msgSize n0 msg)
  obtain k m1 where km: "add x msg = (k, m1)" by force
  show ?case
  proof (cases "msgSize + k \<ge> maxSize")
    case True
    then show ?thesis using 2(2) km by (intro exI [of _ 1]) (auto simp: Let_def)
  next
    case False
    then have "build_loop maxSize add xs (msgSize + k) (n0 + 1) m1 = (full, sz, n, m')" using 2(2) km by (simp add: Let_def)
    then obtain j where j: "j \<le> length xs" "n = n0 + 1 + j" "m' = fold (\<lambda>x m. snd (add x m)) (take j xs) m1" "\<not> full \<longrightarrow> j = length xs"
      using 2(1) [OF km [symmetric] refl refl False] by auto
    then show ?thesis using km by (intro exI [of _ "Suc j"]) auto
  qed
qed auto

text \<open>What the message built from a snapshot holds.\<close>

lemma order_entries_cases: "order_entries maxEntry maxSize n es = es \<or> order_entries maxEntry maxSize n es = SortEntries es"
  by (simp add: order_entries_def)

lemma build_bcst_spec:
  fixes maxEntry maxSize nc np n :: nat and sh bcst pe m
  defines "bt \<equiv> build_bcst maxEntry sh maxSize bcst nc np pe n m"
  shows "bt_msg bt = fold (\<lambda>e m. snd (impl_AddEntry (e_Want e) (e_Priority e)
           (if sh then Message_Wantlist_Have else Message_Wantlist_Block) False m)) (take (bt_sentBcst bt) (bt_bcst bt)) m \<and>
    (bt_bcst bt = bcst \<or> bt_bcst bt = SortEntries bcst) \<and> bt_peer bt = pe \<and> bt_sentCancels bt = nc \<and> bt_sentPeer bt = np"
proof -
  define add where "add = (\<lambda>e :: Entry. impl_AddEntry (e_Want e) (e_Priority e) (if sh then Message_Wantlist_Have else Message_Wantlist_Block) False)"
  obtain full s nb m1 where l: "build_loop maxSize add (order_entries maxEntry maxSize n bcst) n 0 m = (full, s, nb, m1)"
    by (rule prod_cases4)
  have "m1 = fold (\<lambda>e m. snd (add e m)) (take nb (order_entries maxEntry maxSize n bcst)) m" using build_loop_take [OF l] by auto
  moreover have "bt = \<lparr>bt_msg = m1, bt_size = s, bt_peer = pe, bt_bcst = order_entries maxEntry maxSize n bcst,
      bt_sentCancels = nc, bt_sentPeer = np, bt_sentBcst = nb\<rparr>"
    unfolding bt_def build_bcst_def Let_def add_def [symmetric] l by simp
  ultimately show ?thesis using order_entries_cases unfolding add_def by simp
qed

lemma build_peer_spec:
  fixes maxEntry maxSize nc n :: nat and sh bcst peer m
  defines "bt \<equiv> build_peer maxEntry sh maxSize bcst nc peer n m"
  shows "bt_msg bt = fold (\<lambda>e m. snd (impl_AddEntry (e_Want e) (e_Priority e)
             (if sh then Message_Wantlist_Have else Message_Wantlist_Block) False m)) (take (bt_sentBcst bt) (bt_bcst bt))
           (fold (\<lambda>e m. snd (impl_AddEntry (e_Want e) (e_Priority e) (e_WantType e) True m)) (take (bt_sentPeer bt) (bt_peer bt)) m) \<and>
    (bt_bcst bt = bcst \<or> bt_bcst bt = SortEntries bcst) \<and> (bt_peer bt = peer \<or> bt_peer bt = SortEntries peer) \<and> bt_sentCancels bt = nc"
proof -
  define add where "add = (\<lambda>e :: Entry. impl_AddEntry (e_Want e) (e_Priority e) (e_WantType e) True)"
  let ?pe = "order_entries maxEntry maxSize n peer"
  obtain full s np m1 where l: "build_loop maxSize add ?pe n 0 m = (full, s, np, m1)" by (rule prod_cases4)
  have m1: "m1 = fold (\<lambda>e m. snd (add e m)) (take np ?pe) m" using build_loop_take [OF l] by auto
  have bt: "bt = (if full then \<lparr>bt_msg = m1, bt_size = s, bt_peer = ?pe, bt_bcst = bcst, bt_sentCancels = nc, bt_sentPeer = np, bt_sentBcst = 0\<rparr>
      else build_bcst maxEntry sh maxSize bcst nc np ?pe s m1)"
    unfolding bt_def build_peer_def Let_def add_def [symmetric] l by simp
  show ?thesis
  proof (cases full)
    case True
    then show ?thesis using bt m1 order_entries_cases [of maxEntry maxSize n peer] unfolding add_def by simp
  next
    case False
    then show ?thesis
      using build_bcst_spec [of maxEntry sh maxSize bcst nc np ?pe s m1] bt m1 order_entries_cases [of maxEntry maxSize n peer]
      unfolding add_def by auto
  qed
qed

lemma extract_build_cases:
  fixes maxEntry maxSize :: nat and sh :: bool and ex :: extraction and m :: impl
  defines "bt \<equiv> extract_build maxEntry sh maxSize ex m"
  shows "bt_msg bt =
      fold (\<lambda>e m. snd (impl_AddEntry (e_Want e) (e_Priority e) (if sh then Message_Wantlist_Have else Message_Wantlist_Block) False m))
        (take (bt_sentBcst bt) (bt_bcst bt))
        (fold (\<lambda>e m. snd (impl_AddEntry (e_Want e) (e_Priority e) (e_WantType e) True m)) (take (bt_sentPeer bt) (bt_peer bt))
          (fold (\<lambda>c m. snd (impl_Cancel c m)) (take (bt_sentCancels bt) (ex_cancels ex)) m)) \<and>
    (bt_peer bt = ex_peer ex \<or> bt_peer bt = SortEntries (ex_peer ex)) \<and>
    (bt_bcst bt = ex_bcst ex \<or> bt_bcst bt = SortEntries (ex_bcst ex))"
proof -
  obtain full s nc m1 where l: "build_loop maxSize impl_Cancel (ex_cancels ex) 0 0 m = (full, s, nc, m1)" by (rule prod_cases4)
  have m1: "m1 = fold (\<lambda>c m. snd (impl_Cancel c m)) (take nc (ex_cancels ex)) m" using build_loop_take [OF l] by auto
  have bt: "bt = (if full then \<lparr>bt_msg = m1, bt_size = s, bt_peer = ex_peer ex, bt_bcst = ex_bcst ex,
        bt_sentCancels = nc, bt_sentPeer = 0, bt_sentBcst = 0\<rparr>
      else build_peer maxEntry sh maxSize (ex_bcst ex) nc (ex_peer ex) s m1)"
    unfolding bt_def extract_build_def l by simp
  show ?thesis
  proof (cases full)
    case False
    then show ?thesis using build_peer_spec [of maxEntry sh maxSize "ex_bcst ex" nc "ex_peer ex" s m1] bt m1 by simp
  qed (use bt m1 in simp)
qed

lemma extract_build_keeps:
  fixes maxEntry maxSize :: nat and sh :: bool and ex :: extraction and m :: impl
  defines "bt \<equiv> extract_build maxEntry sh maxSize ex m"
  shows "im_blocks (bt_msg bt) = im_blocks m" "im_blockPresences (bt_msg bt) = im_blockPresences m" "impl_wf m \<Longrightarrow> impl_wf (bt_msg bt)"
proof -
  note bt = extract_build_cases [of maxEntry sh maxSize ex m, folded bt_def, THEN conjunct1]
  have 1: "im_blocks (fold (\<lambda>e m. snd (impl_AddEntry (e_Want e) (pr e) (t e) d m)) es m) = im_blocks m"
    "im_blockPresences (fold (\<lambda>e m. snd (impl_AddEntry (e_Want e) (pr e) (t e) d m)) es m) = im_blockPresences m" for pr t d es m
    by (rule fold_field_unchanged, simp)+
  have 2: "im_blocks (fold (\<lambda>c m. snd (impl_Cancel c m)) cs m) = im_blocks m"
    "im_blockPresences (fold (\<lambda>c m. snd (impl_Cancel c m)) cs m) = im_blockPresences m" for cs m
    by (rule fold_field_unchanged, simp)+
  show "im_blocks (bt_msg bt) = im_blocks m" "im_blockPresences (bt_msg bt) = im_blockPresences m" unfolding bt by (simp_all add: 1 2)
  have 3: "impl_wf (fold (\<lambda>e m. snd (impl_AddEntry (e_Want e) (pr e) (t e) d m)) es m)" if "impl_wf m" for pr t d es m
    using that by (rule fold_invariant) (rule AddEntry_wf)
  have 4: "impl_wf (fold (\<lambda>c m. snd (impl_Cancel c m)) cs m)" if "impl_wf m" for cs m
    using that by (rule fold_invariant) (rule Cancel_wf)
  show "impl_wf (bt_msg bt)" if "impl_wf m"
    unfolding bt by (intro 3 4 that)
qed

lemma extract_build_spec:
  fixes maxEntry maxSize :: nat and sh :: bool
  assumes dis: "set (ex_cancels ex) \<inter> e_Want ` (set (ex_peer ex) \<union> set (ex_bcst ex)) = {}" and m: "im_wantlist m = Map.empty"
  defines "bt \<equiv> extract_build maxEntry sh maxSize ex m"
  shows "mset (bt_peer bt) = mset (ex_peer ex)" "mset (bt_bcst bt) = mset (ex_bcst ex)"
    "msg_cancels (bt_msg bt) = set (take (bt_sentCancels bt) (ex_cancels ex))"
    "msg_wants (bt_msg bt) = e_Want ` set (take (bt_sentPeer bt) (bt_peer bt)) \<union> e_Want ` set (take (bt_sentBcst bt) (bt_bcst bt))"
proof -
  note C = extract_build_cases [of maxEntry sh maxSize ex m, folded bt_def]
  note bt = C [THEN conjunct1]
  have p: "bt_peer bt = ex_peer ex \<or> bt_peer bt = SortEntries (ex_peer ex)" and b: "bt_bcst bt = ex_bcst ex \<or> bt_bcst bt = SortEntries (ex_bcst ex)"
    using C by blast+
  show "mset (bt_peer bt) = mset (ex_peer ex)" "mset (bt_bcst bt) = mset (ex_bcst ex)" using p b by auto
  have e: "msg_cancels m = {}" "msg_wants m = {}" using m by (simp_all add: msg_cancels_def msg_wants_def)
  show "msg_cancels (bt_msg bt) = set (take (bt_sentCancels bt) (ex_cancels ex))"
    unfolding bt by (simp add: msg_AddEntry_fold msg_Cancel_fold e)
  have "set (bt_peer bt) = set (ex_peer ex)" "set (bt_bcst bt) = set (ex_bcst ex)" using p b by auto
  then have sub: "set (take (bt_sentPeer bt) (bt_peer bt)) \<subseteq> set (ex_peer ex)" "set (take (bt_sentBcst bt) (bt_bcst bt)) \<subseteq> set (ex_bcst ex)"
    "set (take (bt_sentCancels bt) (ex_cancels ex)) \<subseteq> set (ex_cancels ex)"
    using set_take_subset [of "bt_sentPeer bt" "bt_peer bt"] set_take_subset [of "bt_sentBcst bt" "bt_bcst bt"]
      set_take_subset [of "bt_sentCancels bt" "ex_cancels ex"] by simp_all
  have "msg_wants (bt_msg bt) = (e_Want ` set (take (bt_sentPeer bt) (bt_peer bt)) - set (take (bt_sentCancels bt) (ex_cancels ex))) \<union>
      (e_Want ` set (take (bt_sentBcst bt) (bt_bcst bt)) - set (take (bt_sentCancels bt) (ex_cancels ex)))"
    unfolding bt by (simp add: msg_AddEntry_fold msg_Cancel_fold e)
  moreover have "e_Want ` set (take (bt_sentPeer bt) (bt_peer bt)) \<inter> set (take (bt_sentCancels bt) (ex_cancels ex)) = {}"
    using dis sub(1,3) by fast
  moreover have "e_Want ` set (take (bt_sentBcst bt) (bt_bcst bt)) \<inter> set (take (bt_sentCancels bt) (ex_cancels ex)) = {}"
    using dis sub(2,3) by fast
  ultimately show "msg_wants (bt_msg bt) = e_Want ` set (take (bt_sentPeer bt) (bt_peer bt)) \<union> e_Want ` set (take (bt_sentBcst bt) (bt_bcst bt))"
    by (simp add: Diff_triv)
qed

section \<open>The callers' operations\<close>

lemma add_broadcast_sel [simp]:
  "mq_bcstWants (add_broadcast c q) = rw_Add c (mq_priority q) Message_Wantlist_Have (mq_bcstWants q)"
  "mq_peerWants (add_broadcast c q) = mq_peerWants q" "mq_cancels (add_broadcast c q) = mq_cancels q - {c}"
  "mq_msg (add_broadcast c q) = mq_msg q" "mq_phase (add_broadcast c q) = mq_phase q" "mq_done (add_broadcast c q) = mq_done q"
  "mq_now (add_broadcast c q) = mq_now q" "mq_dhTimeoutMgr (add_broadcast c q) = mq_dhTimeoutMgr q"
  "mq_workScheduled (add_broadcast c q) = mq_workScheduled q" "mq_scheduleWork (add_broadcast c q) = mq_scheduleWork q"
  by (simp_all add: add_broadcast_def Let_def)

lemma add_want_sel [simp]:
  "mq_peerWants (add_want t c q) = rw_Add c (mq_priority q) t (mq_peerWants q)"
  "mq_bcstWants (add_want t c q) = mq_bcstWants q" "mq_cancels (add_want t c q) = mq_cancels q - {c}"
  "mq_msg (add_want t c q) = mq_msg q" "mq_phase (add_want t c q) = mq_phase q" "mq_done (add_want t c q) = mq_done q"
  "mq_now (add_want t c q) = mq_now q" "mq_dhTimeoutMgr (add_want t c q) = mq_dhTimeoutMgr q"
  "mq_workScheduled (add_want t c q) = mq_workScheduled q" "mq_scheduleWork (add_want t c q) = mq_scheduleWork q"
  by (simp_all add: add_want_def Let_def)

definition was_sent :: "MessageQueue \<Rightarrow> Want set" where
  "was_sent q = dom (rw_sent (mq_bcstWants q)) \<union> dom (rw_sent (mq_peerWants q))"

lemma add_cancel_sel [simp]:
  "mq_bcstWants (fst (add_cancel c st)) = rw_Remove c (mq_bcstWants (fst st))"
  "mq_peerWants (fst (add_cancel c st)) = rw_Remove c (mq_peerWants (fst st))"
  "mq_cancels (fst (add_cancel c st)) = mq_cancels (fst st) \<union> ({c} \<inter> was_sent (fst st))"
  "mq_msg (fst (add_cancel c st)) = mq_msg (fst st)" "mq_phase (fst (add_cancel c st)) = mq_phase (fst st)"
  "mq_done (fst (add_cancel c st)) = mq_done (fst st)" "mq_now (fst (add_cancel c st)) = mq_now (fst st)"
  "mq_dhTimeoutMgr (fst (add_cancel c st)) = mq_dhTimeoutMgr (fst st)"
  "mq_workScheduled (fst (add_cancel c st)) = mq_workScheduled (fst st)"
  "mq_scheduleWork (fst (add_cancel c st)) = mq_scheduleWork (fst st)"
  by (simp_all add: add_cancel_def Let_def split_beta was_sent_def Wantlist_Contains_def domIff insert_absorb)

lemma carries_add_broadcast: "mq_carries (fold add_broadcast ws q) = mq_carries q \<union> set ws"
  by (induction ws arbitrary: q) (auto simp: mq_carries_def)

lemma carries_add_want: "mq_carries (fold (add_want t) ws q) = mq_carries q \<union> set ws"
  by (induction ws arbitrary: q) (auto simp: mq_carries_def)

lemma carries_add_cancel: "mq_carries (fst (fold add_cancel cs st)) = mq_carries (fst st) - set cs"
  by (induction cs arbitrary: st) (auto simp: mq_carries_def)

lemma carries_signal [simp]: "mq_carries (signalWorkReady q) = mq_carries q"
  by (simp add: mq_carries_def)

lemma carries_AddBroadcastWantHaves: "mq_carries (mq_AddBroadcastWantHaves ws q) = mq_carries q \<union> set ws"
  by (simp add: mq_AddBroadcastWantHaves_def carries_add_broadcast)

lemma carries_AddWants: "mq_carries (mq_AddWants bs hs q) = mq_carries q \<union> set bs \<union> set hs"
  by (auto simp: mq_AddWants_def carries_add_want)

lemma AddCancels_eq:
  "mq_AddCancels cs q =
     (if cs = [] then q
      else let st = fold add_cancel cs (q\<lparr>mq_dhTimeoutMgr := dh_CancelPending cs (mq_dhTimeoutMgr q)\<rparr>, False)
           in if snd st then signalWorkReady (fst st) else fst st)"
  by (simp add: mq_AddCancels_def Let_def split_beta)

lemma carries_AddCancels: "mq_carries (mq_AddCancels cs q) = mq_carries q - set cs"
  by (simp add: AddCancels_eq Let_def carries_add_cancel) (simp add: mq_carries_def)

section \<open>Marking as sent\<close>

definition mark_ok :: "recallWantlist \<Rightarrow> Entry \<Rightarrow> bool" where
  "mark_ok r e \<longleftrightarrow> fst (Wantlist_RemoveType (e_Want e) (e_WantType e) (rw_pending r))"

lemma MarkSent_fst: "fst (rw_MarkSent e r) = mark_ok r e"
  by (simp add: rw_MarkSent_cases mark_ok_def)

lemma MarkSent_pending: "rw_pending (snd (rw_MarkSent e r)) = (if mark_ok r e then (rw_pending r)(e_Want e := None) else rw_pending r)"
  by (simp add: rw_MarkSent_cases mark_ok_def)

lemma MarkSent_sent: "dom (rw_sent (snd (rw_MarkSent e r))) = (if mark_ok r e then insert (e_Want e) (dom (rw_sent r)) else dom (rw_sent r))"
  by (simp add: rw_MarkSent_cases mark_ok_def)

lemma mark_loop_Cons:
  "fst (mark_loop (e # es) r m) = fst (mark_loop es (snd (rw_MarkSent e r)) (if mark_ok r e then m else impl_Remove (e_Want e) m))"
  "fst (snd (mark_loop (e # es) r m)) =
     fst (snd (mark_loop es (snd (rw_MarkSent e r)) (if mark_ok r e then m else impl_Remove (e_Want e) m)))"
  "snd (snd (mark_loop (e # es) r m)) = (if mark_ok r e then e else e\<lparr>e_Want := Undef\<rparr>) #
     snd (snd (mark_loop es (snd (rw_MarkSent e r)) (if mark_ok r e then m else impl_Remove (e_Want e) m)))"
  by (simp_all add: Let_def split_beta MarkSent_fst del: if_split)

lemma mark_loop_carries: "rw_carries (fst (mark_loop es r m)) = rw_carries r"
  by (induction es arbitrary: r m) (simp_all add: mark_loop_Cons del: mark_loop.simps(2))

lemma extract_finish_eq:
  "extract_finish bt ex q =
     (let p = mark_loop (take (bt_sentPeer bt) (bt_peer bt)) (mq_peerWants q) (bt_msg bt);
          b = mark_loop (take (bt_sentBcst bt) (bt_bcst bt)) (mq_bcstWants q) (fst (snd p));
          c = fold finish_cancel (take (bt_sentCancels bt) (ex_cancels ex)) (mq_cancels q, fst (snd b))
      in (q\<lparr>mq_peerWants := fst p, mq_bcstWants := fst b, mq_cancels := fst c, mq_msg := snd c\<rparr>, snd (snd p), snd (snd b)))"
  by (simp add: extract_finish_def Let_def split_beta)

lemma extract_finish_carries: "mq_carries (fst (extract_finish bt ex q)) = mq_carries q"
  by (simp add: extract_finish_eq Let_def mq_carries_def mark_loop_carries)

text \<open>Entries of distinct wants are marked independently of each other.\<close>

lemma mark_ok_MarkSent: "e_Want e' \<noteq> e_Want e \<Longrightarrow> mark_ok (snd (rw_MarkSent e r)) e' = mark_ok r e'"
  unfolding mark_ok_def [of _ e'] by (simp add: MarkSent_pending Wantlist_RemoveType_def split: option.splits)

lemma mark_oks_MarkSent:
  assumes "distinct (map e_Want (e # es))"
  shows "{e' \<in> set es. mark_ok (snd (rw_MarkSent e r)) e'} = {e' \<in> set es. mark_ok r e'}"
    "{e' \<in> set es. \<not> mark_ok (snd (rw_MarkSent e r)) e'} = {e' \<in> set es. \<not> mark_ok r e'}"
proof -
  have "mark_ok (snd (rw_MarkSent e r)) e' = mark_ok r e'" if "e' \<in> set es" for e'
    by (rule mark_ok_MarkSent) (use that assms in \<open>auto simp: image_iff\<close>)
  then show "{e' \<in> set es. mark_ok (snd (rw_MarkSent e r)) e'} = {e' \<in> set es. mark_ok r e'}"
    "{e' \<in> set es. \<not> mark_ok (snd (rw_MarkSent e r)) e'} = {e' \<in> set es. \<not> mark_ok r e'}" by blast+
qed

definition marked :: "recallWantlist \<Rightarrow> Entry list \<Rightarrow> Want set" where
  "marked r es = e_Want ` {e \<in> set es. mark_ok r e}"

definition withdrawn :: "recallWantlist \<Rightarrow> Entry list \<Rightarrow> Want set" where
  "withdrawn r es = e_Want ` {e \<in> set es. \<not> mark_ok r e}"

lemma marked_Cons:
  assumes "distinct (map e_Want (e # es))"
  shows "marked r (e # es) = (if mark_ok r e then {e_Want e} else {}) \<union> marked (snd (rw_MarkSent e r)) es"
    "withdrawn r (e # es) = (if mark_ok r e then {} else {e_Want e}) \<union> withdrawn (snd (rw_MarkSent e r)) es"
  using mark_oks_MarkSent [OF assms, of r] by (auto simp: marked_def withdrawn_def)

lemma mark_loop_lists:
  assumes "distinct (map e_Want es)"
  shows "rw_pending (fst (mark_loop es r m)) = rw_pending r |` (- marked r es)"
    "dom (rw_sent (fst (mark_loop es r m))) = dom (rw_sent r) \<union> marked r es"
  using assms
proof (induction es arbitrary: r m)
  case (Cons e es)
  { case 1
    then have d: "distinct (map e_Want es)" by simp
    show ?case
      unfolding mark_loop_Cons Cons.IH(1) [OF d] marked_Cons [OF 1] MarkSent_pending
      by (auto simp: restrict_map_def fun_eq_iff) }
  { case 2
    then have d: "distinct (map e_Want es)" by simp
    show ?case
      unfolding mark_loop_Cons Cons.IH(2) [OF d] marked_Cons [OF 2] MarkSent_sent by auto }
qed (simp_all add: marked_def restrict_map_def)

lemma mark_loop_msg:
  assumes "distinct (map e_Want es)"
  shows "msg_wants (fst (snd (mark_loop es r m))) = msg_wants m - withdrawn r es"
    "msg_cancels (fst (snd (mark_loop es r m))) = msg_cancels m - withdrawn r es"
  using assms
proof (induction es arbitrary: r m)
  case (Cons e es)
  { case 1
    then have d: "distinct (map e_Want es)" by simp
    show ?case
      unfolding mark_loop_Cons Cons.IH(1) [OF d] marked_Cons [OF 1] by auto }
  { case 2
    then have d: "distinct (map e_Want es)" by simp
    show ?case
      unfolding mark_loop_Cons Cons.IH(2) [OF d] marked_Cons [OF 2] by auto }
qed (simp_all add: withdrawn_def)

lemma mark_loop_keeps:
  "im_blocks (fst (snd (mark_loop es r m))) = im_blocks m"
  "im_blockPresences (fst (snd (mark_loop es r m))) = im_blockPresences m"
  "impl_wf m \<Longrightarrow> impl_wf (fst (snd (mark_loop es r m)))" "rw_wf r \<Longrightarrow> rw_wf (fst (mark_loop es r m))"
  by (induction es arbitrary: r m) (simp_all add: mark_loop_Cons Remove_wf rw_wf_MarkSent del: mark_loop.simps(2))

lemma finish_cancels:
  assumes "distinct cs"
  shows "fst (fold finish_cancel cs (C, m)) = C - set cs"
    "msg_wants (snd (fold finish_cancel cs (C, m))) = msg_wants m - (set cs - C)"
    "msg_cancels (snd (fold finish_cancel cs (C, m))) = msg_cancels m - (set cs - C)"
  using assms
  by (induction cs arbitrary: C m) (auto simp: finish_cancel_def Set_Has_def Set_Remove_def)

lemma finish_cancels_keeps:
  "im_blocks (snd (fold finish_cancel cs (C, m))) = im_blocks m"
  "im_blockPresences (snd (fold finish_cancel cs (C, m))) = im_blockPresences m"
  "impl_wf m \<Longrightarrow> impl_wf (snd (fold finish_cancel cs (C, m)))"
  by (induction cs arbitrary: C m) (auto simp: finish_cancel_def Remove_wf)

section \<open>What the goroutine does to the wants\<close>

definition carries_le :: "bool \<Rightarrow> Want set \<Rightarrow> Want set \<Rightarrow> bool" where
  "carries_le sh A B \<longleftrightarrow> A \<subseteq> B \<and> (sh \<longrightarrow> A = B)"

lemma record_sent_sel [simp]:
  "rw_pending (record_sent now es r) = rw_pending r" "rw_sent (record_sent now es r) = rw_sent r"
  by (induction es arbitrary: r) (auto simp: record_sent_def rw_SentAt_def)

lemma rw_ClearSentAt_sel [simp]:
  "rw_pending (rw_ClearSentAt c r) = rw_pending r" "rw_sent (rw_ClearSentAt c r) = rw_sent r"
  by (simp_all add: rw_ClearSentAt_def)

text \<open>\<open>same_wants q q'\<close>: the lists, the cancels and the message are the same up to the times in \<open>sentAt\<close>.\<close>

definition same_wants :: "MessageQueue \<Rightarrow> MessageQueue \<Rightarrow> bool" where
  "same_wants q q' \<longleftrightarrow>
     rw_pending (mq_bcstWants q') = rw_pending (mq_bcstWants q) \<and> rw_sent (mq_bcstWants q') = rw_sent (mq_bcstWants q) \<and>
     rw_pending (mq_peerWants q') = rw_pending (mq_peerWants q) \<and> rw_sent (mq_peerWants q') = rw_sent (mq_peerWants q) \<and>
     mq_cancels q' = mq_cancels q"

lemma same_wants_carries: "same_wants q q' \<Longrightarrow> mq_carries q' = mq_carries q"
  by (simp add: same_wants_def mq_carries_def rw_carries_def)

lemma same_response_key: "same_wants (fst st) (fst (response_key c st))"
  by (cases st) (auto simp: response_key_def same_wants_def split: option.splits)

lemma same_responses: "same_wants (fst st) (fst (fold response_key ks st))"
proof (induction ks arbitrary: st)
  case (Cons c ks)
  show ?case using Cons [of "response_key c st"] same_response_key [of st c] by (simp add: same_wants_def)
qed (simp add: same_wants_def)

lemma same_handleResponse: "same_wants q (handleResponse ks q)"
  using same_responses [of "(q, 0)" ks] by (simp add: handleResponse_def split_beta same_wants_def)

lemma same_onSent: "same_wants q (onSent pe be q)"
  by (simp add: onSent_def Let_def same_wants_def)

section \<open>The invariant\<close>

fun msg_busy :: "phase \<Rightarrow> bool" where
  "msg_busy (Sending pe be wl) = True"
| "msg_busy (Sent pe be wl) = True"
| "msg_busy (Simulate wl) = True"
| "msg_busy (AddingPending ws) = True"
| "msg_busy Checking = True"
| "msg_busy _ = False"

definition lists_inv :: "recallWantlist \<Rightarrow> recallWantlist \<Rightarrow> wset \<Rightarrow> bool" where
  "lists_inv b p C \<longleftrightarrow> rw_wf b \<and> rw_wf p \<and> finite C \<and> C \<inter> (rw_carries b \<union> rw_carries p) = {}"

definition times_inv :: "time \<Rightarrow> recallWantlist \<Rightarrow> bool" where
  "times_inv now r \<longleftrightarrow> (\<forall>c t. rw_sentAt r c = Some t \<longrightarrow> t \<le> now)"

definition msg_inv :: "phase \<Rightarrow> impl \<Rightarrow> bool" where
  "msg_inv ph m \<longleftrightarrow> impl_wf m \<and> im_blocks m = Map.empty \<and> im_blockPresences m = Map.empty \<and>
     (\<not> msg_busy ph \<longrightarrow> im_wantlist m = Map.empty)"

definition sched_inv :: "phase \<Rightarrow> time \<Rightarrow> timer \<Rightarrow> bool" where
  "sched_inv ph ws sw \<longleftrightarrow> ph \<noteq> Created \<and> ph \<noteq> Blocked \<and> (ws \<noteq> 0 \<longrightarrow> sw \<noteq> Stopped)"

definition mgr_inv :: "phase \<Rightarrow> time \<Rightarrow> dontHaveTimeoutMgr \<Rightarrow> bool" where
  "mgr_inv ph now d \<longleftrightarrow> dh_reach now d \<and> (msg_busy ph \<or> (\<exists>ex. ph = Building ex) \<longrightarrow> dh_started d)"

text \<open>The snapshot that a message is built from.\<close>

definition window_ok :: "extraction \<Rightarrow> bool" where
  "window_ok ex \<longleftrightarrow> distinct (map e_Want (ex_peer ex)) \<and> distinct (map e_Want (ex_bcst ex)) \<and> distinct (ex_cancels ex) \<and>
     set (ex_cancels ex) \<inter> e_Want ` (set (ex_peer ex) \<union> set (ex_bcst ex)) = {}"

definition mq_inv :: "MessageQueue \<Rightarrow> bool" where
  "mq_inv q \<longleftrightarrow>
     lists_inv (mq_bcstWants q) (mq_peerWants q) (mq_cancels q) \<and>
     times_inv (mq_now q) (mq_bcstWants q) \<and> times_inv (mq_now q) (mq_peerWants q) \<and>
     msg_inv (mq_phase q) (mq_msg q) \<and> sched_inv (mq_phase q) (mq_workScheduled q) (mq_scheduleWork q) \<and>
     mgr_inv (mq_phase q) (mq_now q) (mq_dhTimeoutMgr q) \<and> (\<forall>ex. mq_phase q = Building ex \<longrightarrow> window_ok ex)"

lemma times_inv_ops [simp]:
  "times_inv now newRecallWantList"
  "times_inv now r \<Longrightarrow> times_inv now (rw_Add c p t r)"
  "times_inv now r \<Longrightarrow> times_inv now (rw_Remove c r)"
  "times_inv now r \<Longrightarrow> times_inv now (rw_RemoveType c t r)"
  "times_inv now r \<Longrightarrow> times_inv now (rw_ClearSentAt c r)"
  "times_inv now r \<Longrightarrow> times_inv now (rw_SentAt c now r)"
  "times_inv now r \<Longrightarrow> times_inv now (r\<lparr>rw_pending := w\<rparr>)"
  by (auto simp: times_inv_def newRecallWantList_def rw_Add_def rw_Remove_def rw_RemoveType_def rw_ClearSentAt_def rw_SentAt_def Let_def
      split: if_splits)

lemma times_inv_MarkSent [simp]: "times_inv now r \<Longrightarrow> times_inv now (snd (rw_MarkSent e r))"
  by (simp add: rw_MarkSent_cases times_inv_def)

lemma times_inv_record [simp]: "times_inv now r \<Longrightarrow> times_inv now (record_sent now es r)"
  by (induction es arbitrary: r) (simp_all add: record_sent_def)

lemma times_inv_mono: "times_inv now r \<Longrightarrow> now \<le> now' \<Longrightarrow> times_inv now' r"
  by (force simp: times_inv_def)

lemma times_inv_mark [simp]: "times_inv now r \<Longrightarrow> times_inv now (fst (mark_loop es r m))"
  by (induction es arbitrary: r m) (simp_all add: mark_loop_Cons del: mark_loop.simps(2))

lemma msg_inv_newMsg: "msg_inv ph (newMsg f)"
  by (simp add: msg_inv_def newMsg_def impl_wf_def)

lemma msg_inv_Reset: "msg_inv ph m \<Longrightarrow> iterates itw \<Longrightarrow> msg_inv ph' (impl_Reset itw False m)"
  by (simp add: msg_inv_def Reset_eq impl_wf_def)

lemma dh_started_ops [simp]:
  "dh_started (fst (dh_Start latency d))"
  "dh_started (dh_CancelPending ks d) = dh_started d"
  "dh_started (dh_AddPending now ks d) = dh_started d"
  "dh_started (dh_UpdateMessageLatency now e d) = dh_started d"
  "dh_started (measurePingLatency now ping d) = dh_started d"
  "consumeTimeouts now d = Some d' \<Longrightarrow> dh_started d' = dh_started d"
  "dh_started (dh_Shutdown d) = dh_started d"
proof -
  have "dh_started (fold cancel_pending ks d) = dh_started d" for ks d
    by (induction ks arbitrary: d) (auto simp: cancel_pending_def split: option.splits)
  then show "dh_started (dh_CancelPending ks d) = dh_started d" by (simp add: dh_CancelPending_def)
  have "dh_started (fold (add_pending now) ks d) = dh_started d" for ks d
    by (induction ks arbitrary: d) auto
  then show "dh_started (dh_AddPending now ks d) = dh_started d"
    by (simp add: dh_AddPending_def checkForTimeouts_sel(5) Let_def)
qed (auto simp: dh_Start_def dh_UpdateMessageLatency_def measurePingLatency_def consumeTimeouts_def checkForTimeouts_sel(5)
    dh_Shutdown_def Let_def split: option.splits if_splits timer.splits)

lemma mgr_background:
  assumes "mgr_inv ph now d" and "dh_background now d d'"
  shows "mgr_inv ph now d'"
  using assms(2,1)
  by (cases rule: dh_background.cases)
    (auto simp: mgr_inv_def intro: dh_reach.dh_ping dh_reach.dh_timer_fires dh_reach.dh_consume dh_reach.dh_fire)

lemmas mq_invs = mq_inv_def lists_inv_def

text \<open>The callers keep it.\<close>

lemma mq_inv_signal [simp]: "mq_inv (signalWorkReady q) = mq_inv q"
  by (auto simp: mq_inv_def signalWorkReady_def split: option.splits)

lemma mq_inv_add_broadcast: "mq_inv q \<Longrightarrow> mq_inv (add_broadcast c q)"
  by (auto simp: mq_invs rw_wf_ops)

lemma mq_inv_add_want: "mq_inv q \<Longrightarrow> mq_inv (add_want t c q)"
  by (auto simp: mq_invs rw_wf_ops)

lemma mq_inv_add_cancel: "mq_inv (fst st) \<Longrightarrow> mq_inv (fst (add_cancel c st))"
  by (auto simp: mq_invs rw_wf_ops)

lemma mq_inv_AddBroadcastWantHaves: "mq_inv q \<Longrightarrow> mq_inv (mq_AddBroadcastWantHaves ws q)"
  by (simp add: mq_AddBroadcastWantHaves_def fold_invariant [where P = mq_inv] mq_inv_add_broadcast)

lemma mq_inv_AddWants: "mq_inv q \<Longrightarrow> mq_inv (mq_AddWants bs hs q)"
  by (simp add: mq_AddWants_def fold_invariant [where P = mq_inv] mq_inv_add_want)

lemma mq_inv_mgr: "mq_inv q \<Longrightarrow> mgr_inv (mq_phase q) (mq_now q) d \<Longrightarrow> mq_inv (q\<lparr>mq_dhTimeoutMgr := d\<rparr>)"
  by (simp add: mq_inv_def)

lemma mq_inv_AddCancels:
  assumes "mq_inv q"
  shows "mq_inv (mq_AddCancels cs q)"
proof -
  let ?q = "q\<lparr>mq_dhTimeoutMgr := dh_CancelPending cs (mq_dhTimeoutMgr q)\<rparr>"
  have "mq_inv ?q"
    using assms by (intro mq_inv_mgr) (auto simp: mq_inv_def mgr_inv_def intro: dh_reach.dh_cancel)
  then have "mq_inv (fst (fold add_cancel cs (?q, False)))"
    by (intro fold_invariant [where P = "\<lambda>st. mq_inv (fst st)"]) (auto intro: mq_inv_add_cancel)
  then show ?thesis using assms by (simp add: AddCancels_eq Let_def)
qed

lemma mq_inv_ResponseReceived: "mq_inv q \<Longrightarrow> mq_inv (mq_ResponseReceived ks q)"
  by (simp add: mq_ResponseReceived_def mq_inv_def)

lemma mq_inv_SetRebroadcastInterval: "mq_inv q \<Longrightarrow> mq_inv (mq_SetRebroadcastInterval d q)"
  by (auto simp: mq_SetRebroadcastInterval_def mq_inv_def Let_def split: option.splits)

lemma mq_inv_Shutdown: "mq_inv q \<Longrightarrow> mq_inv (mq_Shutdown q)"
  by (simp add: mq_Shutdown_def mq_inv_def)

lemma mq_inv_Startup: "mq_inv (mq_Startup (newMessageQueue now p maxMsgSize maxLatency newDontHaveTimeoutMgr))"
  by (simp add: mq_Startup_def newMessageQueue_def mq_invs rw_wf_ops NewSet_def msg_inv_newMsg sched_inv_def
      mgr_inv_def dh_reach.dh_new)

text \<open>So does the goroutine.\<close>

definition drop_haves :: "Entry list \<Rightarrow> recallWantlist \<Rightarrow> recallWantlist" where
  "drop_haves es r = fold (\<lambda>e r. if e_WantType e = Message_Wantlist_Have
     then rw_RemoveType (e_Want e) Message_Wantlist_Have r else r) es r"

definition snapshot_peer :: "(Want set \<Rightarrow> Want list) \<Rightarrow> bool \<Rightarrow> recallWantlist \<Rightarrow> recallWantlist" where
  "snapshot_peer itw sh r = (if sh then r else drop_haves (Wantlist_Entries itw (rw_pending r)) r)"

lemma extract_snapshot_eq:
  "fst (extract_snapshot itw sh q) = q\<lparr>mq_peerWants := snapshot_peer itw sh (mq_peerWants q)\<rparr>"
  "snd (extract_snapshot itw sh q) =
     \<lparr>ex_peer = filter (\<lambda>e. sh \<or> e_WantType e \<noteq> Message_Wantlist_Have) (Wantlist_Entries itw (rw_pending (mq_peerWants q))),
      ex_bcst = Wantlist_Entries itw (rw_pending (mq_bcstWants q)), ex_cancels = Set_Keys itw (mq_cancels q)\<rparr>"
  by (simp_all add: extract_snapshot_def Let_def snapshot_peer_def drop_haves_def)

lemma sendMessage_begin_eq:
  "sendMessage_begin itw sh io l q =
     (if mq_sender q \<or> io
      then q\<lparr>mq_sender := True, mq_dhTimeoutMgr := fst (dh_Start l (mq_dhTimeoutMgr q)),
             mq_peerWants := snapshot_peer itw sh (mq_peerWants q), mq_phase := Building (snd (extract_snapshot itw sh q))\<rparr>
      else mq_Shutdown q)"
  by (cases q) (auto simp: sendMessage_begin_def initializeSender_def Let_def split_beta extract_snapshot_eq)

lemma drop_haves_keeps:
  "rw_wf r \<Longrightarrow> rw_wf (drop_haves es r)" "times_inv now r \<Longrightarrow> times_inv now (drop_haves es r)"
  "rw_carries (drop_haves es r) \<subseteq> rw_carries r"
proof -
  show "rw_wf r \<Longrightarrow> rw_wf (drop_haves es r)" unfolding drop_haves_def
    by (rule fold_invariant [where P = rw_wf]) (simp_all add: rw_wf_ops)
  show "times_inv now r \<Longrightarrow> times_inv now (drop_haves es r)" unfolding drop_haves_def
    by (rule fold_invariant [where P = "times_inv now"]) simp_all
  show "rw_carries (drop_haves es r) \<subseteq> rw_carries r" unfolding drop_haves_def
    by (rule fold_invariant [where P = "\<lambda>r'. rw_carries r' \<subseteq> rw_carries r"])
      (use rw_carries_RemoveType in \<open>auto simp: subset_iff\<close>)
qed

lemma snapshot_peer_keeps:
  "rw_wf r \<Longrightarrow> rw_wf (snapshot_peer itw sh r)" "times_inv now r \<Longrightarrow> times_inv now (snapshot_peer itw sh r)"
  "rw_carries (snapshot_peer itw sh r) \<subseteq> rw_carries r"
  "snapshot_peer itw True r = r"
  using drop_haves_keeps by (auto simp: snapshot_peer_def)

text \<open>\<open>keeps sh q q'\<close>: a step keeps the invariant and the wants, except that want-haves may be dropped when the peer does
not know HAVE.\<close>

definition keeps :: "bool \<Rightarrow> MessageQueue \<Rightarrow> MessageQueue \<Rightarrow> bool" where
  "keeps sh q q' \<longleftrightarrow> (mq_inv q \<longrightarrow> mq_inv q' \<and> carries_le sh (mq_carries q') (mq_carries q))"

lemma keeps_trans: "keeps sh q q' \<Longrightarrow> keeps sh q' q'' \<Longrightarrow> keeps sh q q''"
  by (auto simp: keeps_def carries_le_def)

lemma keepsI: "(mq_inv q \<Longrightarrow> mq_inv q') \<Longrightarrow> (mq_inv q \<Longrightarrow> mq_carries q' = mq_carries q) \<Longrightarrow> keeps sh q q'"
  by (simp add: keeps_def carries_le_def)

lemma keeps_Shutdown: "keeps sh q (mq_Shutdown q)"
  by (rule keepsI) (simp_all add: mq_inv_Shutdown, simp add: mq_Shutdown_def mq_carries_def)

lemma snapshot_window:
  assumes "mq_inv q" and it: "iterates itw"
  shows "window_ok (snd (extract_snapshot itw sh q))"
proof -
  have w: "Wantlist_wf (rw_pending (mq_peerWants q))" "Wantlist_wf (rw_pending (mq_bcstWants q))" "finite (mq_cancels q)"
    and d: "\<And>c. c \<in> mq_cancels q \<Longrightarrow> c \<notin> dom (rw_pending (mq_peerWants q)) \<and> c \<notin> dom (rw_pending (mq_bcstWants q))"
    using assms(1) by (auto simp: mq_invs rw_wf_def rw_carries_def)
  have m: "map e_Want (Wantlist_Entries itw w) = itw (dom w)" "distinct (map e_Want (Wantlist_Entries itw w))"
    "\<And>e. e \<in> set (Wantlist_Entries itw w) \<Longrightarrow> e_Want e \<in> dom w" if "Wantlist_wf w" for w
    using Entries_keys [OF it that] that it by (auto simp: Wantlist_wf_def simp flip: set_map) (metis image_eqI iterates_set list.set_map domD)
  show ?thesis
    using m(1,2) [OF w(1)] m(1,2) [OF w(2)] w(3) it d m(3) [OF w(1)] m(3) [OF w(2)]
    by (fastforce simp: window_ok_def extract_snapshot_eq Set_Keys_def distinct_map_filter)
qed

lemma keeps_begin:
  assumes it: "iterates itw" and "0 \<le> l" and ph: "mq_phase q = Selecting"
  shows "keeps sh q (sendMessage_begin itw sh io l q)"
proof (cases "mq_sender q \<or> io")
  case True
  let ?p = "snapshot_peer itw sh (mq_peerWants q)"
  let ?q = "sendMessage_begin itw sh io l q"
  show ?thesis unfolding keeps_def
  proof (intro impI conjI)
    assume inv: "mq_inv q"
    have "lists_inv (mq_bcstWants q) ?p (mq_cancels q)"
      using inv snapshot_peer_keeps(3) [of itw sh "mq_peerWants q"] by (auto simp: mq_invs snapshot_peer_keeps(1))
    moreover have "dh_reach (mq_now q) (fst (dh_Start l (mq_dhTimeoutMgr q)))"
      using inv assms by (intro dh_reach.dh_start) (simp_all add: mq_inv_def mgr_inv_def)
    moreover have "msg_inv (Building ex) (mq_msg q)" "sched_inv (Building ex) (mq_workScheduled q) (mq_scheduleWork q)"
      for ex
      using inv ph by (auto simp: mq_inv_def msg_inv_def sched_inv_def)
    ultimately show "mq_inv ?q" using inv True 
      by (simp add: sendMessage_begin_eq mq_inv_def snapshot_peer_keeps(2) mgr_inv_def snapshot_window [OF inv it])
    show "carries_le sh (mq_carries ?q) (mq_carries q)"
      using True snapshot_peer_keeps(3,4) [of itw] by (cases sh) (auto simp: sendMessage_begin_eq carries_le_def mq_carries_def)
  qed
qed (simp add: sendMessage_begin_eq keeps_Shutdown)

lemma mq_inv_sched:
  "mq_inv q \<Longrightarrow> ws = 0 \<or> sw \<noteq> Stopped \<Longrightarrow> mq_inv (q\<lparr>mq_workScheduled := ws, mq_scheduleWork := sw\<rparr>)"
  by (auto simp: mq_inv_def sched_inv_def)

lemma keeps_sendIfReady: "iterates itw \<Longrightarrow> 0 \<le> l \<Longrightarrow> mq_phase q = Selecting \<Longrightarrow> keeps sh q (sendIfReady itw sh io l q)"
  by (simp add: sendIfReady_def keeps_begin) (simp add: keepsI)

lemma keeps_scheduleWork:
  assumes "iterates itw" and "0 \<le> l" and "mq_phase q = Selecting"
  shows "keeps sh q (on_scheduleWork itw sh io l q)"
  unfolding on_scheduleWork_def
  by (rule keeps_trans [OF keepsI keeps_sendIfReady]) (use assms in \<open>auto simp: mq_inv_def sched_inv_def mq_carries_def\<close>)

lemma keeps_outgoingWork:
  assumes it: "iterates itw" and l: "0 \<le> l" and ph: "mq_phase q = Selecting"
  shows "keeps sh q (on_outgoingWork itw sh io l s q)"
proof (cases "\<not> time_IsZero (mq_workScheduled q) \<and> mq_scheduleWork q = Stopped")
  case True
  then show ?thesis by (simp add: keeps_def mq_inv_def sched_inv_def time_IsZero_def)
next
  case False
  let ?q = "(if time_IsZero (mq_workScheduled q) then q\<lparr>mq_outgoingWork := None, mq_workScheduled := s\<rparr>
    else q\<lparr>mq_outgoingWork := None, mq_scheduleWork := Stopped\<rparr>)"
  have e: "on_outgoingWork itw sh io l s q =
    (if pendingWorkCount ?q > sendMessageCutoff \<or> time_Sub (mq_now ?q) (mq_workScheduled ?q) \<ge> sendMessageMaxDelay
     then sendIfReady itw sh io l (?q\<lparr>mq_workScheduled := 0\<rparr>)
     else ?q\<lparr>mq_scheduleWork := Armed (mq_now ?q + sendMessageDebounce)\<rparr>)"
    using False by (auto simp: on_outgoingWork_def Let_def)
  have "keeps sh q (?q\<lparr>mq_workScheduled := 0\<rparr>)" "keeps sh q (?q\<lparr>mq_scheduleWork := Armed t\<rparr>)" for t
    by (rule keepsI; auto simp: mq_inv_def sched_inv_def mq_carries_def)+
  moreover have "keeps sh (?q\<lparr>mq_workScheduled := 0\<rparr>) (sendIfReady itw sh io l (?q\<lparr>mq_workScheduled := 0\<rparr>))"
    by (rule keeps_sendIfReady [OF it l]) (simp add: ph)
  ultimately show ?thesis unfolding e by (auto intro: keeps_trans)
qed

lemma carries_Absorb:
  assumes "iterates itw" and "rw_wf r"
  shows "rw_wf (r\<lparr>rw_pending := Wantlist_Absorb itw (rw_sent r) (rw_pending r)\<rparr>)"
    "rw_carries (r\<lparr>rw_pending := Wantlist_Absorb itw (rw_sent r) (rw_pending r)\<rparr>) = rw_carries r"
proof -
  show "rw_wf (r\<lparr>rw_pending := Wantlist_Absorb itw (rw_sent r) (rw_pending r)\<rparr>)"
    using assms by (simp add: rw_wf_def Wantlist_wf_Absorb)
  have "Wantlist_Absorb itw (rw_sent r) (rw_pending r) c = stronger (rw_pending r c) (rw_sent r c)" for c
    using assms by (intro Absorb_pointwise) (simp_all add: rw_wf_def)
  then have "Wantlist_Absorb itw (rw_sent r) (rw_pending r) c \<noteq> None \<longleftrightarrow> rw_pending r c \<noteq> None \<or> rw_sent r c \<noteq> None" for c
    by (cases "rw_pending r c"; cases "rw_sent r c") (auto simp: stronger_def)
  then show "rw_carries (r\<lparr>rw_pending := Wantlist_Absorb itw (rw_sent r) (rw_pending r)\<rparr>) = rw_carries r"
    by (fastforce simp: rw_carries_def dom_def)
qed

lemma keeps_rebroadcast:
  assumes it: "iterates itw" and l: "0 \<le> l" and ph: "mq_phase q = Selecting"
  shows "keeps sh q (rebroadcastWantlist itw sh io l q)"
proof -
  let ?q = "snd (transferRebroadcastWants itw (q\<lparr>mq_rebroadcastTimer := Some (Armed (mq_now q + mq_rebroadcastInterval q))\<rparr>))"
  have e: "rebroadcastWantlist itw sh io l q = ?q \<or> rebroadcastWantlist itw sh io l q = sendMessage_begin itw sh io l ?q"
    by (simp add: rebroadcastWantlist_def Let_def split_beta)
  have "keeps sh q ?q"
    by (rule keepsI; auto simp: transferRebroadcastWants_def mq_invs mq_carries_def carries_Absorb [OF it])
  moreover have "keeps sh ?q (sendMessage_begin itw sh io l ?q)"
    by (rule keeps_begin [OF it l]) (simp add: transferRebroadcastWants_def ph)
  ultimately show ?thesis using e by (auto intro: keeps_trans)
qed

lemma sendMessage_finish_eq:
  "sendMessage_finish itw maxEntry sh ex q =
     (let r = extract_finish (extract_build maxEntry sh (mq_maxMessageSize q) ex (mq_msg q)) ex q; q1 = fst r
      in if impl_Empty (mq_msg q1) then q1\<lparr>mq_msg := impl_Reset itw False (mq_msg q1), mq_phase := Selecting\<rparr>
         else q1\<lparr>mq_phase := Sending (fst (snd r)) (snd (snd r)) (impl_Wantlist itw (mq_msg q1))\<rparr>)"
  by (simp add: sendMessage_finish_def Let_def split_beta)

lemma extract_finish_sel:
  "mq_now (fst (extract_finish bt ex q)) = mq_now q" "mq_phase (fst (extract_finish bt ex q)) = mq_phase q"
  "mq_workScheduled (fst (extract_finish bt ex q)) = mq_workScheduled q"
  "mq_scheduleWork (fst (extract_finish bt ex q)) = mq_scheduleWork q"
  "mq_dhTimeoutMgr (fst (extract_finish bt ex q)) = mq_dhTimeoutMgr q" "mq_done (fst (extract_finish bt ex q)) = mq_done q"
  by (simp_all add: extract_finish_eq Let_def)

lemma finish_cancel_le: "fst (fold finish_cancel cs (C, m)) \<subseteq> C"
  by (induction cs arbitrary: C m) (auto simp: finish_cancel_def Set_Remove_def)

lemma lists_inv_less:
  assumes "lists_inv b p C" "rw_wf b'" "rw_wf p'" "rw_carries b' = rw_carries b" "rw_carries p' = rw_carries p" "C' \<subseteq> C"
  shows "lists_inv b' p' C'"
  using assms by (auto simp: lists_inv_def intro: finite_subset)

lemma extract_finish_inv:
  fixes ex :: extraction
  assumes "mq_inv q" and bt: "impl_wf (bt_msg bt)" "im_blocks (bt_msg bt) = Map.empty" "im_blockPresences (bt_msg bt) = Map.empty"
  defines "q1 \<equiv> fst (extract_finish bt ex q)"
  shows "lists_inv (mq_bcstWants q1) (mq_peerWants q1) (mq_cancels q1)"
    "times_inv (mq_now q1) (mq_bcstWants q1)" "times_inv (mq_now q1) (mq_peerWants q1)"
    "impl_wf (mq_msg q1)" "im_blocks (mq_msg q1) = Map.empty" "im_blockPresences (mq_msg q1) = Map.empty"
proof -
  from assms(1) have l: "lists_inv (mq_bcstWants q) (mq_peerWants q) (mq_cancels q)"
    and t: "times_inv (mq_now q) (mq_bcstWants q)" "times_inv (mq_now q) (mq_peerWants q)" by (simp_all add: mq_inv_def)
  show "lists_inv (mq_bcstWants q1) (mq_peerWants q1) (mq_cancels q1)"
    unfolding q1_def extract_finish_eq Let_def
    by (rule lists_inv_less [OF l]) (use l in \<open>simp_all add: mark_loop_carries mark_loop_keeps lists_inv_def finish_cancel_le\<close>)
  show "times_inv (mq_now q1) (mq_bcstWants q1)" "times_inv (mq_now q1) (mq_peerWants q1)"
    using t by (simp_all add: q1_def extract_finish_eq Let_def)
  show "impl_wf (mq_msg q1)" "im_blocks (mq_msg q1) = Map.empty" "im_blockPresences (mq_msg q1) = Map.empty"
    using bt by (simp_all add: q1_def extract_finish_eq Let_def mark_loop_keeps finish_cancels_keeps)
qed

lemma keeps_finish:
  assumes it: "iterates itw" and ph: "mq_phase q = Building ex"
  shows "keeps sh q (sendMessage_finish itw maxEntry sh ex q)"
proof (rule keepsI)
  let ?bt = "extract_build maxEntry sh (mq_maxMessageSize q) ex (mq_msg q)"
  let ?q = "fst (extract_finish ?bt ex q)"
  show "mq_carries (sendMessage_finish itw maxEntry sh ex q) = mq_carries q"
    using extract_finish_carries [of ?bt ex q] by (simp add: sendMessage_finish_eq Let_def mq_carries_def)
  assume inv: "mq_inv q"
  then have "msg_inv (Building ex) (mq_msg q)" by (simp add: mq_inv_def ph)
  then have "impl_wf (bt_msg ?bt)" "im_blocks (bt_msg ?bt) = Map.empty" "im_blockPresences (bt_msg ?bt) = Map.empty"
    by (simp_all add: msg_inv_def extract_build_keeps)
  note f = extract_finish_inv [OF inv this, of ex]
  have "msg_inv Selecting (impl_Reset itw False (mq_msg ?q))" using f(4-6) it by (simp add: msg_inv_def Reset_eq impl_wf_def)
  with f inv show "mq_inv (sendMessage_finish itw maxEntry sh ex q)"
    by (simp add: sendMessage_finish_eq Let_def mq_inv_def extract_finish_sel ph sched_inv_def mgr_inv_def)
      (simp add: msg_inv_def)
qed

lemma consider_sent_cases: "consider_sent q t e = t \<or> consider_sent q t e = e"
  by (simp add: consider_sent_def)

definition response_ok :: "MessageQueue \<Rightarrow> MessageQueue \<times> time \<Rightarrow> bool" where
  "response_ok q st \<longleftrightarrow>
     (\<exists>b p. fst st = q\<lparr>mq_bcstWants := b, mq_peerWants := p\<rparr> \<and> times_inv (mq_now q) b \<and> times_inv (mq_now q) p \<and>
        rw_pending b = rw_pending (mq_bcstWants q) \<and> rw_sent b = rw_sent (mq_bcstWants q) \<and>
        rw_pending p = rw_pending (mq_peerWants q) \<and> rw_sent p = rw_sent (mq_peerWants q)) \<and>
     (snd st = 0 \<or> snd st \<le> mq_now q)"

lemma response_okI:
  assumes "times_inv (mq_now q) b" "times_inv (mq_now q) p"
    "rw_pending b = rw_pending (mq_bcstWants q)" "rw_sent b = rw_sent (mq_bcstWants q)"
    "rw_pending p = rw_pending (mq_peerWants q)" "rw_sent p = rw_sent (mq_peerWants q)" "e = 0 \<or> e \<le> mq_now q"
  shows "response_ok q (q\<lparr>mq_bcstWants := b, mq_peerWants := p\<rparr>, e)"
  using assms unfolding response_ok_def by auto

lemma response_key_ok:
  assumes "response_ok q st"
  shows "response_ok q (response_key c st)"
proof -
  from assms obtain b p e where st: "st = (q\<lparr>mq_bcstWants := b, mq_peerWants := p\<rparr>, e)"
    and t: "times_inv (mq_now q) b" "times_inv (mq_now q) p" "e = 0 \<or> e \<le> mq_now q"
    and s: "rw_pending b = rw_pending (mq_bcstWants q)" "rw_sent b = rw_sent (mq_bcstWants q)"
      "rw_pending p = rw_pending (mq_peerWants q)" "rw_sent p = rw_sent (mq_peerWants q)"
    unfolding response_ok_def by (metis prod.collapse)
  let ?b = "if rw_sentAt b c = None then b else rw_ClearSentAt c b"
  let ?p = "if rw_sentAt p c = None then p else rw_ClearSentAt c p"
  have "\<exists>e'. response_key c st = (q\<lparr>mq_bcstWants := ?b, mq_peerWants := ?p\<rparr>, e') \<and>
      (e' = e \<or> rw_sentAt b c = Some e' \<or> rw_sentAt p c = Some e')"
    by (cases "rw_sentAt b c"; cases "rw_sentAt p c") (simp_all add: st response_key_def consider_sent_def)
  then obtain e' where k: "response_key c st = (q\<lparr>mq_bcstWants := ?b, mq_peerWants := ?p\<rparr>, e')"
    and e': "e' = e \<or> rw_sentAt b c = Some e' \<or> rw_sentAt p c = Some e'" by blast
  have "e' = 0 \<or> e' \<le> mq_now q" using e' t by (auto simp: times_inv_def)
  then show ?thesis unfolding k by (intro response_okI) (use t s in auto)
qed

lemma responses_ok: "times_inv (mq_now q) (mq_bcstWants q) \<Longrightarrow> times_inv (mq_now q) (mq_peerWants q) \<Longrightarrow> response_ok q (fold response_key ks (q, 0))"
  by (rule fold_invariant [where P = "response_ok q"])
    (use response_okI [of q "mq_bcstWants q" "mq_peerWants q" 0] response_key_ok in auto)

lemma keeps_handleResponse: "keeps sh q (handleResponse ks q)"
proof (rule keepsI)
  show "mq_carries (handleResponse ks q) = mq_carries q" by (rule same_wants_carries [OF same_handleResponse])
  assume inv: "mq_inv q"
  then have "response_ok q (fold response_key ks (q, 0))" by (intro responses_ok) (simp_all add: mq_inv_def)
  then obtain b p e where r: "fold response_key ks (q, 0) = (q\<lparr>mq_bcstWants := b, mq_peerWants := p\<rparr>, e)"
    and t: "times_inv (mq_now q) b" "times_inv (mq_now q) p" "e = 0 \<or> e \<le> mq_now q"
    and s: "rw_pending b = rw_pending (mq_bcstWants q)" "rw_sent b = rw_sent (mq_bcstWants q)"
      "rw_pending p = rw_pending (mq_peerWants q)" "rw_sent p = rw_sent (mq_peerWants q)"
    unfolding response_ok_def by (metis prod.collapse)
  have l: "lists_inv b p (mq_cancels q)" using inv s by (simp add: mq_invs rw_wf_def rw_carries_def)
  have m: "mgr_inv (mq_phase q) (mq_now q) (dh_UpdateMessageLatency (mq_now q) (time_Sub (mq_now q) e) (mq_dhTimeoutMgr q))" if "e \<noteq> 0"
    using inv t(3) that by (auto simp: mq_inv_def mgr_inv_def time_Sub_def intro!: dh_reach.dh_update)
  show "mq_inv (handleResponse ks q)"
    using inv t l m by (simp add: handleResponse_def r mq_inv_def time_IsZero_def)
qed

lemma keeps_internal:
  assumes it: "iterates itw" and "mq_internal itw maxEntry sh q ev q'"
  shows "keeps sh q q'"
  using assms(2)
proof (cases rule: mq_internal.cases)
  case (i_clock t)
  then show ?thesis
    by (intro keepsI) (auto simp: mq_inv_def mq_carries_def mgr_inv_def intro: times_inv_mono dh_reach.dh_tick)
next
  case (i_timer t)
  then show ?thesis by (intro keepsI) (auto simp: mq_inv_def mq_carries_def sched_inv_def)
next
  case (i_rebroadcast_timer t)
  then show ?thesis by (intro keepsI) (auto simp: mq_inv_def mq_carries_def)
next
  case (i_background d)
  then show ?thesis by (intro keepsI) (auto simp: mq_inv_def mq_carries_def intro: mgr_background)
next
  case (i_response ks kss)
  have "keeps sh q (q\<lparr>mq_responses := kss\<rparr>)" by (rule keepsI) (auto simp: mq_inv_def mq_carries_def)
  with i_response show ?thesis using keeps_trans keeps_handleResponse by metis
next
  case i_exit
  then show ?thesis
    by (intro keepsI)
      (auto simp: onShutdown_def mq_inv_def mq_carries_def msg_inv_def sched_inv_def mgr_inv_def intro: dh_reach.dh_shutdown)
next
  case (i_send pe be wl)
  then show ?thesis by (intro keepsI) (auto simp: mq_inv_def mq_carries_def msg_inv_def sched_inv_def mgr_inv_def)
next
  case (i_fail pe be wl)
  then show ?thesis
    by (intro keepsI)
      (auto simp: sendMessage_failed_def mq_Shutdown_def mq_inv_def mq_carries_def sched_inv_def mgr_inv_def intro: msg_inv_Reset [OF _ it])
next
  case (i_sent pe be wl)
  then show ?thesis
    by (intro keepsI)
      (auto simp: onSent_def Let_def mq_invs mq_carries_def msg_inv_def sched_inv_def mgr_inv_def rw_wf_def rw_carries_def)
next
  case (i_simulate wl)
  then show ?thesis by (intro keepsI) (auto simp: mq_inv_def mq_carries_def msg_inv_def sched_inv_def mgr_inv_def)
next
  case (i_pending ws)
  then show ?thesis
    by (intro keepsI) (auto simp: mq_inv_def mq_carries_def msg_inv_def sched_inv_def mgr_inv_def intro: dh_reach.dh_add)
next
  case i_check
  have e: "sendMessage_check itw q = signalWorkReady (q\<lparr>mq_msg := impl_Reset itw False (mq_msg q), mq_phase := Selecting\<rparr>) \<or>
      sendMessage_check itw q = q\<lparr>mq_msg := impl_Reset itw False (mq_msg q), mq_phase := Selecting\<rparr>"
    by (cases "mq_outgoingWork q") (simp_all add: sendMessage_check_def signalWorkReady_def)
  have "keeps sh q (q\<lparr>mq_msg := impl_Reset itw False (mq_msg q), mq_phase := Selecting\<rparr>)"
    by (rule keepsI) (use i_check in \<open>auto simp: mq_inv_def mq_carries_def sched_inv_def mgr_inv_def intro: msg_inv_Reset [OF _ it]\<close>)
  with e i_check show ?thesis by (auto simp: keeps_def)
qed (auto intro: keeps_rebroadcast [OF it] keeps_outgoingWork [OF it] keeps_scheduleWork [OF it] keeps_finish [OF it])

section \<open>The contract towards the peer manager\<close>

definition mq_queue :: "time \<Rightarrow> MessageQueue PeerQueue" where
  "mq_queue now =
     \<lparr>createPeerQueue = mq_New now, pq_AddBroadcastWantHaves = mq_AddBroadcastWantHaves, pq_AddWants = mq_AddWants,
      pq_AddCancels = mq_AddCancels, pq_ResponseReceived = mq_ResponseReceived, pq_Startup = mq_Startup,
      pq_Shutdown = mq_Shutdown\<rparr>"

definition mq_moves :: "(Want set \<Rightarrow> Want list) \<Rightarrow> nat \<Rightarrow> bool \<Rightarrow> MessageQueue \<Rightarrow> MessageQueue \<Rightarrow> bool" where
  "mq_moves itw maxEntry sh q q' \<longleftrightarrow> iterates itw \<and> (\<exists>ev. mq_internal itw maxEntry sh q ev q')"

interpretation mqueue: peer_queue "mq_queue now" mq_inv mq_carries "mq_moves itw maxEntry sh" "carries_le sh"
  for now itw maxEntry sh
proof
  show "mq_inv (pq_Startup (mq_queue now) (createPeerQueue (mq_queue now) p))" for p
    by (simp add: mq_queue_def mq_New_def mq_inv_Startup)
  show "mq_inv q \<Longrightarrow> mq_inv (pq_apply (mq_queue now) c q)" for q c
    by (cases c) (simp_all add: mq_queue_def mq_inv_AddBroadcastWantHaves mq_inv_AddWants mq_inv_AddCancels)
  show "mq_inv q \<Longrightarrow> mq_inv (pq_ResponseReceived (mq_queue now) ks q)" for q ks
    by (simp add: mq_queue_def mq_inv_ResponseReceived)
  show "mq_inv q \<Longrightarrow> mq_moves itw maxEntry sh q q' \<Longrightarrow> mq_inv q'"
    and "mq_inv q \<Longrightarrow> mq_moves itw maxEntry sh q q' \<Longrightarrow> carries_le sh (mq_carries q') (mq_carries q)" for q q'
    using keeps_internal by (auto simp: mq_moves_def keeps_def)
  show "mq_carries (pq_Startup (mq_queue now) (createPeerQueue (mq_queue now) p)) = {}" for p
    by (simp add: mq_queue_def mq_Startup_def mq_New_def newMessageQueue_def mq_carries_def)
  show "mq_carries (pq_ResponseReceived (mq_queue now) ks q) = mq_carries q" for ks q
    by (simp add: mq_queue_def mq_ResponseReceived_def mq_carries_def)
qed (auto simp: mq_queue_def carries_AddBroadcastWantHaves carries_AddWants carries_AddCancels carries_le_def)

section \<open>No signal is lost\<close>

lemma mq_run_inv:
  assumes "mq_run itw maxEntry sh G q R" and it: "iterates itw"
  shows "mq_inv q"
  using assms(1)
proof induction
  case (run_internal q R q')
  then show ?case using keeps_internal [OF it] by (simp add: keeps_def)
next
  case (run_deliver q R m q')
  then show ?case using keeps_internal [OF it] by (simp add: keeps_def)
qed (simp_all add: mq_inv_Startup mq_inv_AddBroadcastWantHaves mq_inv_AddWants mq_inv_AddCancels mq_inv_ResponseReceived
    mq_inv_SetRebroadcastInterval mq_inv_Shutdown)

text \<open>C15. Whatever callers do in whatever order, \<^verbatim>\<open>runQueue\<close> never blocks on draining its timer, no want is at once carried and
queued for cancelling, every recorded time of sending is in the past, outside \<^verbatim>\<open>sendMessage\<close> the reused message is empty, and
the timeout manager is only used in ways it may be.\<close>

theorem mq_never_blocks:
  assumes "mq_run itw maxEntry sh G q R" and "iterates itw"
  shows "mq_phase q \<noteq> Blocked \<and> mq_cancels q \<inter> mq_carries q = {} \<and>
    times_inv (mq_now q) (mq_bcstWants q) \<and> times_inv (mq_now q) (mq_peerWants q) \<and>
    (\<not> msg_busy (mq_phase q) \<longrightarrow> impl_Empty (mq_msg q)) \<and> dh_reach (mq_now q) (mq_dhTimeoutMgr q)"
  using mq_run_inv [OF assms]
  by (auto simp: mq_invs mq_carries_def sched_inv_def mgr_inv_def msg_inv_def impl_Empty_def)

text \<open>Something is waiting to be sent.\<close>

definition waiting :: "MessageQueue \<Rightarrow> bool" where
  "waiting q \<longleftrightarrow> rw_pending (mq_bcstWants q) \<noteq> Map.empty \<or> rw_pending (mq_peerWants q) \<noteq> Map.empty \<or> mq_cancels q \<noteq> {}"

definition roused :: "MessageQueue \<Rightarrow> bool" where
  "roused q \<longleftrightarrow> mq_done q \<or> mq_outgoingWork q \<noteq> None \<or> mq_scheduleWork q \<noteq> Stopped"

definition untouched :: "extraction \<Rightarrow> MessageQueue \<Rightarrow> bool" where
  "untouched ex q \<longleftrightarrow> set (ex_peer ex) = ran (rw_pending (mq_peerWants q)) \<and> set (ex_bcst ex) = ran (rw_pending (mq_bcstWants q)) \<and>
     set (ex_cancels ex) = mq_cancels q"

definition wake_inv :: "MessageQueue \<Rightarrow> bool" where
  "wake_inv q \<longleftrightarrow> roused q \<or> msg_busy (mq_phase q) \<or>
     (mq_phase q = Selecting \<and> \<not> waiting q) \<or> (\<exists>ex. mq_phase q = Building ex \<and> untouched ex q)"

lemma waiting_iff: "mq_inv q \<Longrightarrow> hasPendingWork q \<longleftrightarrow> waiting q"
  by (auto simp: mq_invs rw_wf_def Wantlist_wf_def hasPendingWork_def pendingWorkCount_def waiting_def Wantlist_Len_def
      Set_Len_def card_gt_0_iff)

lemma drop_haves_pending:
  assumes "\<forall>e \<in> set es. rw_pending r (e_Want e) = Some e \<or> rw_pending r (e_Want e) = None"
  shows "rw_pending (drop_haves es r) = rw_pending r |` (- e_Want ` {e \<in> set es. e_WantType e = Message_Wantlist_Have})"
  using assms
proof (induction es arbitrary: r)
  case (Cons e es)
  let ?r = "if e_WantType e = Message_Wantlist_Have then rw_RemoveType (e_Want e) Message_Wantlist_Have r else r"
  have r: "rw_pending ?r = (if e_WantType e = Message_Wantlist_Have then (rw_pending r)(e_Want e := None) else rw_pending r)"
    using Cons.prems by (auto simp: rw_RemoveType_sel Wantlist_RemoveType_def split: option.splits)
  have "rw_pending (drop_haves es ?r) = rw_pending ?r |` (- e_Want ` {e \<in> set es. e_WantType e = Message_Wantlist_Have})"
    by (rule Cons.IH) (use Cons.prems in \<open>auto simp: r\<close>)
  then show ?case by (auto simp: drop_haves_def r restrict_map_def fun_eq_iff)
qed (simp add: drop_haves_def restrict_map_def)

lemma snapshot_untouched:
  assumes inv: "mq_inv q" and it: "iterates itw"
  shows "untouched (snd (extract_snapshot itw sh q)) (q\<lparr>mq_peerWants := snapshot_peer itw sh (mq_peerWants q)\<rparr>)"
proof -
  let ?w = "rw_pending (mq_peerWants q)"
  have w: "Wantlist_wf ?w" "Wantlist_wf (rw_pending (mq_bcstWants q))" "finite (mq_cancels q)"
    using inv by (simp_all add: mq_invs rw_wf_def)
  have s: "set (Wantlist_Entries itw w) = ran w" if "Wantlist_wf w" for w
    using that it by (simp add: Wantlist_Entries_def Wantlist_wf_def)
  have k: "?w c = Some e \<Longrightarrow> e_Want e = c" for c e using w(1) by (simp add: Wantlist_wf_def)
  have "rw_pending (drop_haves (Wantlist_Entries itw ?w) (mq_peerWants q)) =
      ?w |` (- e_Want ` {e \<in> ran ?w. e_WantType e = Message_Wantlist_Have})"
    by (subst drop_haves_pending) (use k in \<open>auto simp: s [OF w(1)] ran_def\<close>)
  moreover have "ran (?w |` (- e_Want ` {e \<in> ran ?w. e_WantType e = Message_Wantlist_Have})) =
      {e \<in> ran ?w. e_WantType e \<noteq> Message_Wantlist_Have}"
    using k by (fastforce simp: ran_def restrict_map_def split: if_splits)
  ultimately show ?thesis
    using w(3) it by (simp add: untouched_def extract_snapshot_eq s w(1,2) snapshot_peer_def Set_Keys_def)
qed

lemma wake_begin:
  assumes "mq_inv q" and "iterates itw"
  shows "wake_inv (sendMessage_begin itw sh io l q)"
  using snapshot_untouched [OF assms, of sh]
  by (auto simp: wake_inv_def sendMessage_begin_eq roused_def mq_Shutdown_def untouched_def)

lemma wake_sendIfReady:
  assumes "mq_inv q" and "iterates itw" and "mq_phase q = Selecting"
  shows "wake_inv (sendIfReady itw sh io l q)"
  using wake_begin [OF assms(1,2)] assms waiting_iff [OF assms(1)] by (auto simp: sendIfReady_def wake_inv_def)

text \<open>A message is built from at least one item, if there is one.\<close>

lemma build_loop_count: "build_loop maxSize add xs s n m = (full, s', n', m') \<Longrightarrow> n \<le> n' \<and> (xs \<noteq> [] \<longrightarrow> n < n') \<and> (full \<longrightarrow> xs \<noteq> [])"
proof (induction xs arbitrary: s n m)
  case (Cons x xs)
  obtain k m1 where km: "add x m = (k, m1)" by force
  show ?case
  proof (cases "s + k \<ge> maxSize")
    case False
    then have "build_loop maxSize add xs (s + k) (n + 1) m1 = (full, s', n', m')" using Cons.prems km by (simp add: Let_def)
    from Cons.IH [OF this] show ?thesis by auto
  qed (use Cons.prems km in \<open>auto simp: Let_def\<close>)
qed simp

lemma order_entries_Nil: "order_entries maxEntry maxSize s es = [] \<longleftrightarrow> es = []"
  by (simp add: order_entries_def) (metis set_SortEntries set_empty)

lemma build_bcst_some:
  assumes "bt_sentBcst (build_bcst maxEntry sh maxSize bcst nc np p s m) = 0 \<or> bcst = []"
  shows "bcst = []"
proof -
  let ?t = "if sh then Message_Wantlist_Have else Message_Wantlist_Block"
  obtain full s' nb m' where l: "build_loop maxSize (\<lambda>e :: Entry. impl_AddEntry (e_Want e) (e_Priority e) ?t False)
      (order_entries maxEntry maxSize s bcst) s 0 m = (full, s', nb, m')" by (rule prod_cases4)
  have "nb = 0 \<or> bcst = []" using assms unfolding build_bcst_def Let_def l by simp
  then show ?thesis using build_loop_count [OF l] by (auto simp: order_entries_Nil)
qed

lemma build_peer_some:
  assumes "bt_sentPeer (build_peer maxEntry sh maxSize bcst nc peer s m) = 0 \<or> peer = []"
    "bt_sentBcst (build_peer maxEntry sh maxSize bcst nc peer s m) = 0 \<or> bcst = []"
  shows "peer = [] \<and> bcst = []"
proof -
  obtain full s' np m' where l: "build_loop maxSize (\<lambda>e :: Entry. impl_AddEntry (e_Want e) (e_Priority e) (e_WantType e) True)
      (order_entries maxEntry maxSize s peer) s 0 m = (full, s', np, m')" by (rule prod_cases4)
  note c = build_loop_count [OF l, unfolded order_entries_Nil]
  have e: "build_peer maxEntry sh maxSize bcst nc peer s m =
      (if full then \<lparr>bt_msg = m', bt_size = s', bt_peer = order_entries maxEntry maxSize s peer, bt_bcst = bcst,
          bt_sentCancels = nc, bt_sentPeer = np, bt_sentBcst = 0\<rparr>
       else build_bcst maxEntry sh maxSize bcst nc np (order_entries maxEntry maxSize s peer) s' m')"
    unfolding build_peer_def Let_def l by simp
  have "np = 0 \<or> peer = []" using assms(1) unfolding e by (auto simp: build_bcst_def Let_def split: prod.splits if_splits)
  then have "peer = []" and f: "full = False" using c by auto
  moreover have "bcst = []" by (rule build_bcst_some [OF assms(2) [unfolded e f if_False]])
  ultimately show ?thesis by blast
qed

lemma extract_build_some:
  fixes maxEntry maxSize :: nat and sh :: bool and ex :: extraction and m :: impl
  defines "bt \<equiv> extract_build maxEntry sh maxSize ex m"
  assumes "bt_sentCancels bt = 0 \<or> ex_cancels ex = []" "bt_sentPeer bt = 0 \<or> ex_peer ex = []" "bt_sentBcst bt = 0 \<or> ex_bcst ex = []"
  shows "ex_cancels ex = [] \<and> ex_peer ex = [] \<and> ex_bcst ex = []"
proof -
  obtain full s nc m1 where l: "build_loop maxSize impl_Cancel (ex_cancels ex) 0 0 m = (full, s, nc, m1)" by (rule prod_cases4)
  note c = build_loop_count [OF l]
  have e: "bt = (if full then \<lparr>bt_msg = m1, bt_size = s, bt_peer = ex_peer ex, bt_bcst = ex_bcst ex,
        bt_sentCancels = nc, bt_sentPeer = 0, bt_sentBcst = 0\<rparr>
      else build_peer maxEntry sh maxSize (ex_bcst ex) nc (ex_peer ex) s m1)"
    unfolding bt_def extract_build_def l by simp
  have "bt_sentCancels (build_peer maxEntry sh maxSize (ex_bcst ex) nc (ex_peer ex) s m1) = nc"
    by (simp add: build_peer_def build_bcst_def Let_def split: prod.splits)
  then have "nc = 0 \<or> ex_cancels ex = []" using assms(2) unfolding e by (simp split: if_splits)
  then have "ex_cancels ex = []" and f: "full = False" using c by auto
  moreover have "ex_peer ex = [] \<and> ex_bcst ex = []"
    by (rule build_peer_some [OF assms(3,4) [unfolded e f if_False]])
  ultimately show ?thesis by blast
qed

lemma extract_finish_spec:
  fixes bt ex q
  defines "P \<equiv> take (bt_sentPeer bt) (bt_peer bt)" and "B \<equiv> take (bt_sentBcst bt) (bt_bcst bt)"
    and "Cs \<equiv> take (bt_sentCancels bt) (ex_cancels ex)" and "q1 \<equiv> fst (extract_finish bt ex q)"
  assumes "distinct (map e_Want P)" "distinct (map e_Want B)" "distinct Cs"
  shows "msg_wants (mq_msg q1) = msg_wants (bt_msg bt) - withdrawn (mq_peerWants q) P - withdrawn (mq_bcstWants q) B - (set Cs - mq_cancels q)"
    "msg_cancels (mq_msg q1) = msg_cancels (bt_msg bt) - withdrawn (mq_peerWants q) P - withdrawn (mq_bcstWants q) B - (set Cs - mq_cancels q)"
    "mq_cancels q1 = mq_cancels q - set Cs"
    "rw_pending (mq_peerWants q1) = rw_pending (mq_peerWants q) |` (- marked (mq_peerWants q) P)"
    "rw_pending (mq_bcstWants q1) = rw_pending (mq_bcstWants q) |` (- marked (mq_bcstWants q) B)"
    "dom (rw_sent (mq_peerWants q1)) = dom (rw_sent (mq_peerWants q)) \<union> marked (mq_peerWants q) P"
    "dom (rw_sent (mq_bcstWants q1)) = dom (rw_sent (mq_bcstWants q)) \<union> marked (mq_bcstWants q) B"
proof -
  define p where "p = mark_loop P (mq_peerWants q) (bt_msg bt)"
  define b where "b = mark_loop B (mq_bcstWants q) (fst (snd p))"
  define c where "c = fold finish_cancel Cs (mq_cancels q, fst (snd b))"
  have q1: "mq_msg q1 = snd c" "mq_cancels q1 = fst c" "mq_peerWants q1 = fst p" "mq_bcstWants q1 = fst b"
    by (simp_all add: q1_def extract_finish_eq Let_def p_def b_def c_def P_def B_def Cs_def)
  show "msg_wants (mq_msg q1) = msg_wants (bt_msg bt) - withdrawn (mq_peerWants q) P - withdrawn (mq_bcstWants q) B - (set Cs - mq_cancels q)"
    unfolding q1 c_def finish_cancels(2) [OF assms(7)] b_def mark_loop_msg(1) [OF assms(6)] p_def mark_loop_msg(1) [OF assms(5)] ..
  show "msg_cancels (mq_msg q1) = msg_cancels (bt_msg bt) - withdrawn (mq_peerWants q) P - withdrawn (mq_bcstWants q) B - (set Cs - mq_cancels q)"
    unfolding q1 c_def finish_cancels(3) [OF assms(7)] b_def mark_loop_msg(2) [OF assms(6)] p_def mark_loop_msg(2) [OF assms(5)] ..
  show "mq_cancels q1 = mq_cancels q - set Cs" unfolding q1 c_def finish_cancels(1) [OF assms(7)] ..
  show "rw_pending (mq_peerWants q1) = rw_pending (mq_peerWants q) |` (- marked (mq_peerWants q) P)"
    "dom (rw_sent (mq_peerWants q1)) = dom (rw_sent (mq_peerWants q)) \<union> marked (mq_peerWants q) P"
    unfolding q1 p_def by (rule mark_loop_lists [OF assms(5)])+
  show "rw_pending (mq_bcstWants q1) = rw_pending (mq_bcstWants q) |` (- marked (mq_bcstWants q) B)"
    "dom (rw_sent (mq_bcstWants q1)) = dom (rw_sent (mq_bcstWants q)) \<union> marked (mq_bcstWants q) B"
    unfolding q1 b_def by (rule mark_loop_lists [OF assms(6)])+
qed

lemma built_distinct:
  fixes maxEntry maxSize :: nat and sh :: bool and ex :: extraction and m :: impl
  defines "bt \<equiv> extract_build maxEntry sh maxSize ex m"
  assumes w: "window_ok ex"
  shows "distinct (map e_Want (take (bt_sentPeer bt) (bt_peer bt)))" "distinct (map e_Want (take (bt_sentBcst bt) (bt_bcst bt)))"
    "distinct (take (bt_sentCancels bt) (ex_cancels ex))" "set (bt_peer bt) = set (ex_peer ex)" "set (bt_bcst bt) = set (ex_bcst ex)"
proof -
  have m: "mset (bt_peer bt) = mset (ex_peer ex)" "mset (bt_bcst bt) = mset (ex_bcst ex)"
    using extract_build_cases [of maxEntry sh maxSize ex m] by (auto simp: SortEntries_def bt_def)
  then show sets: "set (bt_peer bt) = set (ex_peer ex)" "set (bt_bcst bt) = set (ex_bcst ex)" by (metis mset_eq_setD)+
  have "distinct (map e_Want (bt_peer bt))" "distinct (map e_Want (bt_bcst bt))"
    using w m by (metis window_ok_def distinct_map mset_eq_imp_distinct_iff sets)+
  then show "distinct (map e_Want (take (bt_sentPeer bt) (bt_peer bt)))" "distinct (map e_Want (take (bt_sentBcst bt) (bt_bcst bt)))"
    "distinct (take (bt_sentCancels bt) (ex_cancels ex))"
    using w by (simp_all add: window_ok_def take_map [symmetric])
qed

text \<open>If nothing has changed since the snapshot, the message is sent as it was built.\<close>

lemma ran_eq_empty: "ran m = {} \<longleftrightarrow> m = Map.empty"
  by (auto simp: ran_def fun_eq_iff) (metis not_Some_eq)

lemma mark_ok_pending: "rw_pending r (e_Want e) = Some e \<Longrightarrow> mark_ok r e"
  by (simp add: mark_ok_def Wantlist_RemoveType_def)

lemma finish_empty:
  assumes inv: "mq_inv q" and ph: "mq_phase q = Building ex" and u: "untouched ex q"
    and bt: "bt = extract_build maxEntry sh maxSize ex (mq_msg q)"
    and e: "impl_Empty (mq_msg (fst (extract_finish bt ex q)))"
  shows "\<not> waiting q"
proof -
  have w: "window_ok ex" and m: "im_wantlist (mq_msg q) = Map.empty" and wf: "rw_wf (mq_peerWants q)" "rw_wf (mq_bcstWants q)"
    using inv ph by (simp_all add: mq_invs msg_inv_def)
  have dis: "set (ex_cancels ex) \<inter> e_Want ` (set (ex_peer ex) \<union> set (ex_bcst ex)) = {}" using w by (simp add: window_ok_def)
  note B = extract_build_spec [of ex "mq_msg q" maxEntry sh maxSize, OF dis m, folded bt]
  note D = built_distinct [OF w, of maxEntry sh maxSize "mq_msg q", folded bt]
  note d = D(1-3) and sets = D(4,5)
  have ok: "mark_ok (mq_peerWants q) e" if "e \<in> set (ex_peer ex)" for e
    using that u wf(1) by (intro mark_ok_pending) (auto simp: untouched_def rw_wf_def Wantlist_wf_def ran_def)
  have okb: "mark_ok (mq_bcstWants q) e" if "e \<in> set (ex_bcst ex)" for e
    using that u wf(2) by (intro mark_ok_pending) (auto simp: untouched_def rw_wf_def Wantlist_wf_def ran_def)
  have "withdrawn (mq_peerWants q) (take (bt_sentPeer bt) (bt_peer bt)) = {}" "withdrawn (mq_bcstWants q) (take (bt_sentBcst bt) (bt_bcst bt)) = {}"
    using ok okb sets by (auto simp: withdrawn_def dest: in_set_takeD)
  moreover have "set (take (bt_sentCancels bt) (ex_cancels ex)) - mq_cancels q = {}"
    using u by (auto simp: untouched_def dest: in_set_takeD)
  ultimately have "msg_wants (mq_msg (fst (extract_finish bt ex q))) = msg_wants (bt_msg bt)"
    "msg_cancels (mq_msg (fst (extract_finish bt ex q))) = msg_cancels (bt_msg bt)"
    unfolding extract_finish_spec(1,2) [OF d] by (simp_all only: Diff_empty)
  moreover have "im_wantlist (mq_msg (fst (extract_finish bt ex q))) = Map.empty" using e by (simp add: impl_Empty_def)
  ultimately have n: "msg_wants (bt_msg bt) = {}" "msg_cancels (bt_msg bt) = {}" by (simp_all add: msg_wants_def msg_cancels_def)
  have "ex_cancels ex = [] \<and> ex_peer ex = [] \<and> ex_bcst ex = []"
  proof -
    have "take (bt_sentCancels bt) (ex_cancels ex) = []" "take (bt_sentPeer bt) (bt_peer bt) = []" "take (bt_sentBcst bt) (bt_bcst bt) = []"
      using n B(3,4) by auto
    then have "bt_sentCancels bt = 0 \<or> ex_cancels ex = []" "bt_sentPeer bt = 0 \<or> ex_peer ex = []" "bt_sentBcst bt = 0 \<or> ex_bcst ex = []"
      using sets by auto
    then show ?thesis by (rule extract_build_some [of maxEntry sh maxSize ex "mq_msg q", folded bt])
  qed
  then have "ran (rw_pending (mq_peerWants q)) = {}" "ran (rw_pending (mq_bcstWants q)) = {}" "mq_cancels q = {}"
    using u by (simp_all add: untouched_def)
  then show ?thesis by (simp add: waiting_def ran_eq_empty)
qed

lemma wake_finish:
  assumes "mq_inv q" and "mq_phase q = Building ex" and "wake_inv q" and "iterates itw"
  shows "wake_inv (sendMessage_finish itw maxEntry sh ex q)"
proof -
  let ?bt = "extract_build maxEntry sh (mq_maxMessageSize q) ex (mq_msg q)"
  let ?q = "fst (extract_finish ?bt ex q)"
  let ?f = "sendMessage_finish itw maxEntry sh ex q"
  consider "impl_Empty (mq_msg ?q)" "\<not> roused q" | "\<not> impl_Empty (mq_msg ?q)" | "roused q" by blast
  then show ?thesis
  proof cases
    case 1
    then have u: "untouched ex q" using assms(2,3) by (simp add: wake_inv_def)
    from 1 have "\<not> waiting q" using finish_empty [OF assms(1,2) u refl] by blast
    then have "ex_peer ex = []" "ex_bcst ex = []" "ex_cancels ex = []" using u by (auto simp: untouched_def waiting_def)
    moreover have "mset (bt_peer ?bt) = mset (ex_peer ex)" "mset (bt_bcst ?bt) = mset (ex_bcst ex)"
      using extract_build_cases [of maxEntry sh "mq_maxMessageSize q" ex "mq_msg q"] by (auto simp: SortEntries_def)
    ultimately have "mq_peerWants ?q = mq_peerWants q" "mq_bcstWants ?q = mq_bcstWants q" "mq_cancels ?q = mq_cancels q"
      by (simp_all add: extract_finish_eq Let_def)
    with 1 \<open>\<not> waiting q\<close> show ?thesis by (simp add: sendMessage_finish_eq Let_def wake_inv_def waiting_def)
  next
    case 2
    then show ?thesis by (simp add: sendMessage_finish_eq Let_def wake_inv_def)
  next
    case 3
    have "roused ?q" using 3 by (simp add: roused_def extract_finish_eq Let_def)
    then have "roused ?f" by (simp add: sendMessage_finish_eq Let_def roused_def)
    then show ?thesis by (simp add: wake_inv_def)
  qed
qed

lemma roused_wake: "roused q \<Longrightarrow> wake_inv q"
  by (simp add: wake_inv_def)

lemma wake_outgoingWork:
  assumes inv: "mq_inv q" and it: "iterates itw" and ph: "mq_phase q = Selecting"
  shows "wake_inv (on_outgoingWork itw sh io l s q)"
proof -
  let ?q = "(if time_IsZero (mq_workScheduled q) then q\<lparr>mq_outgoingWork := None, mq_workScheduled := s\<rparr>
    else q\<lparr>mq_outgoingWork := None, mq_scheduleWork := Stopped\<rparr>)"
  have "\<not> (\<not> time_IsZero (mq_workScheduled q) \<and> mq_scheduleWork q = Stopped)"
    using inv by (auto simp: mq_inv_def sched_inv_def time_IsZero_def)
  then have e: "on_outgoingWork itw sh io l s q =
    (if pendingWorkCount ?q > sendMessageCutoff \<or> time_Sub (mq_now ?q) (mq_workScheduled ?q) \<ge> sendMessageMaxDelay
     then sendIfReady itw sh io l (?q\<lparr>mq_workScheduled := 0\<rparr>)
     else ?q\<lparr>mq_scheduleWork := Armed (mq_now ?q + sendMessageDebounce)\<rparr>)"
    by (auto simp: on_outgoingWork_def Let_def)
  have "mq_inv (?q\<lparr>mq_workScheduled := 0\<rparr>)" using inv by (auto simp: mq_inv_def sched_inv_def)
  then have "wake_inv (sendIfReady itw sh io l (?q\<lparr>mq_workScheduled := 0\<rparr>))" by (rule wake_sendIfReady [OF _ it]) (simp add: ph)
  moreover have "wake_inv (?q\<lparr>mq_scheduleWork := Armed t\<rparr>)" for t by (rule roused_wake) (simp add: roused_def)
  ultimately show ?thesis unfolding e by simp
qed

lemma wake_rebroadcast:
  assumes "mq_inv q" and it: "iterates itw" and ph: "mq_phase q = Selecting" and "wake_inv q"
  shows "wake_inv (rebroadcastWantlist itw sh io l q)"
proof -
  let ?r = "q\<lparr>mq_rebroadcastTimer := Some (Armed (mq_now q + mq_rebroadcastInterval q))\<rparr>"
  let ?q = "snd (transferRebroadcastWants itw ?r)"
  have "mq_inv ?q"
    using assms(1) by (auto simp: transferRebroadcastWants_def mq_invs carries_Absorb [OF it])
  then have "wake_inv (sendMessage_begin itw sh io l ?q)" by (rule wake_begin [OF _ it])
  moreover have "wake_inv ?r" using assms(4) by (simp add: wake_inv_def roused_def waiting_def untouched_def)
  ultimately show ?thesis by (auto simp: rebroadcastWantlist_def Let_def transferRebroadcastWants_def)
qed

text \<open>A cancel may withdraw everything that a message was going to hold.\<close>

definition no_cancel_in_window :: "Want list \<Rightarrow> Want list \<Rightarrow> MessageQueue \<Rightarrow> bool" where
  "no_cancel_in_window adds cancels q \<longleftrightarrow> cancels = [] \<or> (\<forall>ex. mq_phase q \<noteq> Building ex)"

lemma signal_roused: "roused (signalWorkReady q)"
  by (auto simp: roused_def signalWorkReady_def split: option.splits)

lemma add_cancel_quiet:
  assumes "\<not> waiting (fst st) \<or> snd st"
  shows "\<not> waiting (fst (add_cancel c st)) \<or> snd (add_cancel c st)"
  using assms by (auto simp: add_cancel_def Let_def waiting_def rw_Remove_def Wantlist_Remove_def split: option.splits prod.splits)

lemma wake_AddCancels:
  assumes "wake_inv q" and g: "no_cancel_in_window [] cs q"
  shows "wake_inv (mq_AddCancels cs q)"
proof -
  let ?init = "(q\<lparr>mq_dhTimeoutMgr := dh_CancelPending cs (mq_dhTimeoutMgr q)\<rparr>, False)"
  let ?st = "fold add_cancel cs ?init"
  have ph: "mq_phase (fst ?st) = mq_phase q" "mq_outgoingWork (fst ?st) = mq_outgoingWork q"
    "mq_done (fst ?st) = mq_done q" "mq_scheduleWork (fst ?st) = mq_scheduleWork q"
    by (subst fold_field_unchanged [of _ "\<lambda>st. _ (fst st)"]; simp add: add_cancel_def Let_def split_beta)+
  have "\<not> waiting (fst ?st) \<or> snd ?st" if "\<not> waiting q"
    by (rule fold_invariant) (use that add_cancel_quiet in \<open>auto simp: waiting_def\<close>)
  moreover have "mq_AddCancels cs q = (if cs = [] then q else if snd ?st then signalWorkReady (fst ?st) else fst ?st)"
    by (simp add: AddCancels_eq Let_def)
  ultimately show ?thesis using assms ph signal_roused [of "fst ?st"]
    unfolding wake_inv_def roused_def no_cancel_in_window_def by auto
qed

lemma handleResponse_sel:
  "mq_phase (handleResponse ks q) = mq_phase q" "mq_outgoingWork (handleResponse ks q) = mq_outgoingWork q"
  "mq_done (handleResponse ks q) = mq_done q" "mq_scheduleWork (handleResponse ks q) = mq_scheduleWork q"
  "mq_msg (handleResponse ks q) = mq_msg q"
proof -
  have "mq_phase (fst (fold response_key ks (q, 0))) = mq_phase q" "mq_outgoingWork (fst (fold response_key ks (q, 0))) = mq_outgoingWork q"
    "mq_done (fst (fold response_key ks (q, 0))) = mq_done q" "mq_scheduleWork (fst (fold response_key ks (q, 0))) = mq_scheduleWork q"
    "mq_msg (fst (fold response_key ks (q, 0))) = mq_msg q"
    by (subst fold_field_unchanged [of _ "\<lambda>st. _ (fst st)"]; simp add: response_key_def split_beta split: option.splits)+
  then show "mq_phase (handleResponse ks q) = mq_phase q" "mq_outgoingWork (handleResponse ks q) = mq_outgoingWork q"
    "mq_done (handleResponse ks q) = mq_done q" "mq_scheduleWork (handleResponse ks q) = mq_scheduleWork q"
    "mq_msg (handleResponse ks q) = mq_msg q"
    by (simp_all add: handleResponse_def split_beta)
qed

lemma wake_same:
  assumes "wake_inv q" and "same_wants q q'" and "mq_phase q' = mq_phase q" "mq_outgoingWork q' = mq_outgoingWork q"
    "mq_done q' = mq_done q" "mq_scheduleWork q' = mq_scheduleWork q"
  shows "wake_inv q'"
  using assms by (simp add: wake_inv_def roused_def waiting_def untouched_def same_wants_def)

lemma wake_internal:
  assumes it: "iterates itw" and "mq_internal itw maxEntry sh q ev q'" and inv: "mq_inv q" and w: "wake_inv q"
  shows "wake_inv q'"
  using assms(2)
proof (cases rule: mq_internal.cases)
  case (i_response ks kss)
  then have "same_wants q q'" using same_handleResponse [of "q\<lparr>mq_responses := kss\<rparr>" ks] by (simp add: same_wants_def)
  then show ?thesis using i_response by (auto intro: wake_same [OF w] simp: handleResponse_sel)
next
  case (i_schedule l io)
  have "mq_inv (q\<lparr>mq_scheduleWork := Stopped, mq_workScheduled := 0\<rparr>)" using inv by (simp add: mq_inv_def sched_inv_def)
  then show ?thesis using i_schedule by (simp add: on_scheduleWork_def wake_sendIfReady [OF _ it])
next
  case i_check
  show ?thesis using waiting_iff [OF inv] i_check
    by (auto simp: sendMessage_check_def signalWorkReady_def wake_inv_def roused_def waiting_def split: option.splits)
next
  case (i_finish ex)
  then show ?thesis by (simp add: wake_finish [OF inv _ w it])
next
  case (i_work s l io)
  then show ?thesis by (simp add: wake_outgoingWork [OF inv it])
next
  case (i_rebroadcast l io)
  then show ?thesis by (simp add: wake_rebroadcast [OF inv it _ w])
qed (use w in \<open>auto simp: wake_inv_def roused_def waiting_def untouched_def onShutdown_def sendMessage_failed_def mq_Shutdown_def\<close>)

lemma wake_AddBroadcastWantHaves: "wake_inv q \<Longrightarrow> wake_inv (mq_AddBroadcastWantHaves ws q)"
  by (simp add: mq_AddBroadcastWantHaves_def roused_wake signal_roused)

lemma wake_AddWants: "wake_inv q \<Longrightarrow> wake_inv (mq_AddWants bs hs q)"
  by (simp add: mq_AddWants_def roused_wake signal_roused)

lemma mq_run_wake:
  assumes "mq_run itw maxEntry sh no_cancel_in_window q R" and it: "iterates itw"
  shows "wake_inv q"
  using assms(1)
proof induction
  case (run_start now p maxMsgSize maxLatency)
  show ?case
    by (simp add: wake_inv_def mq_Startup_def newMessageQueue_def waiting_def newRecallWantList_def Wantlist_New_def NewSet_def)
next
  case (run_response q R ks)
  then show ?case by (auto intro: wake_same simp: mq_ResponseReceived_def same_wants_def)
next
  case (run_interval q R d)
  then show ?case
    by (auto intro: wake_same simp: mq_SetRebroadcastInterval_def Let_def same_wants_def split: option.splits)
next
  case (run_shutdown q R)
  then show ?case by (simp add: roused_wake roused_def mq_Shutdown_def)
next
  case (run_internal q R q')
  then show ?case using wake_internal [OF it run_internal(2) mq_run_inv [OF run_internal(1) it]] by blast
next
  case (run_deliver q R m q')
  then show ?case using wake_internal [OF it run_deliver(2) mq_run_inv [OF run_deliver(1) it]] by blast
qed (simp_all add: wake_AddBroadcastWantHaves wake_AddWants wake_AddCancels)

text \<open>C8. No wakeup is lost: when a want or a cancel waits to be sent and the queue has not been shut down, then a signal is in the
channel, or the timer of \<^verbatim>\<open>runQueue\<close> is running or has fired, or \<^verbatim>\<open>sendMessage\<close> is at work; this holds as long as nobody
cancels between the two critical sections of \<^verbatim>\<open>extractOutgoingMessage\<close>.\<close>

theorem mq_no_lost_wakeup:
  assumes "mq_run itw maxEntry sh no_cancel_in_window q R" and "iterates itw"
    and "hasPendingWork q" and "\<not> mq_done q"
  shows "(\<exists>t. mq_outgoingWork q = Some t) \<or> (\<exists>t. mq_scheduleWork q = Armed t) \<or> mq_scheduleWork q = Fired \<or>
    msg_busy (mq_phase q) \<or> (\<exists>ex. mq_phase q = Building ex)"
proof -
  have "waiting q" using assms(3) waiting_iff [OF mq_run_inv [OF assms(1,2)]] by simp
  then show ?thesis using mq_run_wake [OF assms(1,2)] assms(4)
    by (cases "mq_scheduleWork q") (auto simp: wake_inv_def roused_def)
qed

text \<open>A queue that has just been given a want.\<close>

definition mq_ex :: MessageQueue where
  "mq_ex = mq_AddWants [Want ''a'' []] [] (mq_Startup (mq_New 1 ''p''))"

lemma mq_ex_run: "mq_run sorted_list_of_set 50 True no_cancel_in_window mq_ex {}"
  unfolding mq_ex_def mq_New_def by (intro mq_run.intros) (simp add: no_cancel_in_window_def)

lemma mq_ex_pending: "hasPendingWork mq_ex" "\<not> mq_done mq_ex" "\<not> msg_busy (mq_phase mq_ex)"
  by (simp_all add: mq_ex_def mq_AddWants_def mq_Startup_def mq_New_def newMessageQueue_def hasPendingWork_def pendingWorkCount_def
      signalWorkReady_def add_want_def Let_def rw_Add_def newRecallWantList_def Wantlist_New_def Wantlist_Add_def Wantlist_Len_def
      Set_Remove_def NewSet_def)

theorem mq_never_blocks_witness: "mq_phase mq_ex \<noteq> Blocked \<and> impl_Empty (mq_msg mq_ex)"
  using mq_never_blocks [OF mq_ex_run iterates_sorted_list_of_set] mq_ex_pending(3) by simp

theorem mq_no_lost_wakeup_witness:
  "hasPendingWork mq_ex \<and> ((\<exists>t. mq_outgoingWork mq_ex = Some t) \<or> (\<exists>t. mq_scheduleWork mq_ex = Armed t) \<or> mq_scheduleWork mq_ex = Fired \<or>
    msg_busy (mq_phase mq_ex) \<or> (\<exists>ex. mq_phase mq_ex = Building ex))"
  using mq_no_lost_wakeup [OF mq_ex_run iterates_sorted_list_of_set mq_ex_pending(1,2)] mq_ex_pending(1) by blast

text \<open>C7. The peer manager over message queues: in every state that its operations and the goroutines of the queues can reach, the peers
with a queue are the peers with a record in the want manager, and the wants a queue has pending or sent are wants on record for its
peer, all of them if the peer knows HAVE.\<close>

theorem queues_carry_records:
  assumes "pm_reach (mq_queue now) (mq_moves itw maxEntry sh) itw itp its pm" and "iterates itw" and "iterates itp"
  shows "dom (peerQueues pm) = dom (peerWants (pwm pm)) \<and>
    (\<forall>p q. peerQueues pm p = Some q \<longrightarrow>
       mq_carries q \<subseteq> sent_to (pwm pm) p \<union> broadcastWants (pwm pm) \<and>
       (sh \<longrightarrow> mq_carries q = sent_to (pwm pm) p \<union> broadcastWants (pwm pm)))"
  using mqueue.queues_match_records [OF assms] mqueue.queue_carries_recorded [OF assms] by (auto simp: carries_le_def)

definition pm_ex :: "(MessageQueue, session_id) PeerManager" where
  "pm_ex = BroadcastWantHaves (mq_queue 1) sorted_list_of_set [Want ''a'' []]
     (fst (Connected (mq_queue 1) sorted_list_of_set sorted_list_of_set ''p'' pm_New))"

theorem queues_carry_records_witness:
  "dom (peerQueues pm_ex) = dom (peerWants (pwm pm_ex)) \<and>
   (\<exists>q. peerQueues pm_ex ''p'' = Some q \<and> mq_carries q = sent_to (pwm pm_ex) ''p'' \<union> broadcastWants (pwm pm_ex))"
proof -
  have "pm_reach (mq_queue 1) (mq_moves sorted_list_of_set 50 True) sorted_list_of_set sorted_list_of_set sorted_list_of_set pm_ex"
    unfolding pm_ex_def by (intro pm_reach.pm_broadcast pm_reach.pm_connected pm_reach.pm_new)
  moreover have "\<exists>q. peerQueues pm_ex ''p'' = Some q"
    by (simp add: pm_ex_def BroadcastWantHaves_def Connected_def getOrCreate_def pm_New_def Let_def)
  ultimately show ?thesis
    using queues_carry_records [OF _ iterates_sorted_list_of_set iterates_sorted_list_of_set] by blast
qed

end
