(* ===== verification/Ledgers.thy ===== *)
theory Ledgers
  imports Wantlist MultiIndex
begin

text \<open>
  What the decision engine remembers of its peers: \<^verbatim>\<open>internal/decision/ledger.go\<close> (the wants of one peer),
  \<^verbatim>\<open>internal/decision/peer_ledger.go\<close> (the peers that wait for a want) and \<^verbatim>\<open>internal/decision/taskmerger.go\<close>
  (how two requests of a peer for the same want are joined). The queue that calls the merger is a library
  (\<^verbatim>\<open>go-peertaskqueue\<close>); its type of tasks is given here with the data the engine attaches to them.
\<close>

section \<open>The wants of a peer\<close>

record ledger =
  l_Partner :: peer
  l_wantList :: wantlist

definition newLedger :: "peer \<Rightarrow> ledger" where
  "newLedger p = \<lparr>l_Partner = p, l_wantList = Wantlist_New\<rparr>"

definition ledger_Wants :: "Want \<Rightarrow> int32 \<Rightarrow> WantType \<Rightarrow> ledger \<Rightarrow> ledger" where
  "ledger_Wants k priority wantType l = l\<lparr>l_wantList := snd (Wantlist_Add k priority wantType (l_wantList l))\<rparr>"

definition ledger_CancelWant :: "Want \<Rightarrow> ledger \<Rightarrow> bool \<times> ledger" where
  "ledger_CancelWant k l =
     (case Wantlist_Remove k (l_wantList l) of (removed, w) \<Rightarrow> (removed, l\<lparr>l_wantList := w\<rparr>))"

definition ledger_WantListContains :: "Want \<Rightarrow> ledger \<Rightarrow> Entry option" where
  "ledger_WantListContains k l = Wantlist_Contains (l_wantList l) k"

definition ledger_Entries :: "(Want set \<Rightarrow> Want list) \<Rightarrow> ledger \<Rightarrow> Entry list" where
  "ledger_Entries itw l = Wantlist_Entries itw (l_wantList l)"

section \<open>The peers that wait for a want\<close>

type_synonym peerLedger = "Want \<rightharpoonup> peer set"

definition newPeerLedger :: peerLedger where
  "newPeerLedger = Map.empty"

definition peerLedger_Wants :: "peer \<Rightarrow> Want \<Rightarrow> peerLedger \<Rightarrow> peerLedger" where
  "peerLedger_Wants p k l =
     (let l = (case l k of None \<Rightarrow> l(k \<mapsto> {}) | Some _ \<Rightarrow> l)
      in l(k \<mapsto> insert p (the (l k))))"

definition peerLedger_CancelWant :: "peer \<Rightarrow> Want \<Rightarrow> peerLedger \<Rightarrow> peerLedger" where
  "peerLedger_CancelWant p k l =
     (case l k of
        None \<Rightarrow> l
      | Some m \<Rightarrow> let l = l(k \<mapsto> m - {p}) in if m - {p} = {} then l(k := None) else l)"

definition peerLedger_Peers :: "(peer set \<Rightarrow> peer list) \<Rightarrow> Want \<Rightarrow> peerLedger \<Rightarrow> peer list" where
  "peerLedger_Peers itp k l = (case l k of None \<Rightarrow> [] | Some m \<Rightarrow> itp m)"

definition pl_wf :: "peerLedger \<Rightarrow> bool" where
  "pl_wf l \<longleftrightarrow> (\<forall>k. l k \<noteq> Some {}) \<and> (\<forall>k S. l k = Some S \<longrightarrow> finite S)"

interpretation plx: multi_index "\<lambda>k p. peerLedger_Wants p k" "\<lambda>k p. peerLedger_CancelWant p k" lookup_set
  "\<lambda>l k. l k \<noteq> None" pl_wf
proof
  show "lookup_set (peerLedger_Wants p k i) j = (if j = k then insert p (lookup_set i j) else lookup_set i j)" for p k i j
    by (auto simp: peerLedger_Wants_def lookup_set_def split: option.splits)
  show "lookup_set (peerLedger_CancelWant p k i) j = (if j = k then lookup_set i j - {p} else lookup_set i j)" for p k i j
    by (auto simp: peerLedger_CancelWant_def lookup_set_def Let_def split: option.splits)
  show "pl_wf i \<Longrightarrow> (i k \<noteq> None) = (lookup_set i k \<noteq> {})" for i k
    by (cases "i k") (auto simp: pl_wf_def)
  show "pl_wf i \<Longrightarrow> pl_wf (peerLedger_Wants p k i)" for p k i
    by (auto simp: pl_wf_def peerLedger_Wants_def split: option.splits)
  show "pl_wf i \<Longrightarrow> pl_wf (peerLedger_CancelWant p k i)" for p k i
    by (auto simp: pl_wf_def peerLedger_CancelWant_def Let_def split: option.splits)
qed

lemma pl_wf_new [simp]: "pl_wf newPeerLedger"
  by (simp add: pl_wf_def newPeerLedger_def)

lemma set_Peers: "iterates itp \<Longrightarrow> pl_wf l \<Longrightarrow> set (peerLedger_Peers itp k l) = lookup_set l k"
  by (cases "l k") (auto simp: peerLedger_Peers_def pl_wf_def)

lemma distinct_Peers: "iterates itp \<Longrightarrow> pl_wf l \<Longrightarrow> distinct (peerLedger_Peers itp k l)"
  by (auto simp: peerLedger_Peers_def pl_wf_def split: option.splits)

section \<open>Joining tasks\<close>

record taskData =
  td_Auth :: string
  td_IsWantBlock :: bool
  td_SendDontHave :: bool
  td_BlockSize :: int
  td_HaveBlock :: bool

record Task =
  t_Topic :: Want
  t_Priority :: int
  t_Work :: int
  t_Data :: taskData

definition has_info :: "Task \<Rightarrow> bool \<times> bool \<Rightarrow> bool \<times> bool" where
  "has_info et st =
     (case st of (haveSize, isWantBlock) \<Rightarrow>
        (if td_HaveBlock (t_Data et) then True else haveSize, if td_IsWantBlock (t_Data et) then True else isWantBlock))"

definition HasNewInfo :: "Task \<Rightarrow> Task list \<Rightarrow> bool" where
  "HasNewInfo task existing =
     (case fold has_info existing (False, False) of (haveSize, isWantBlock) \<Rightarrow>
        if \<not> isWantBlock \<and> td_IsWantBlock (t_Data task) then True
        else if \<not> haveSize \<and> td_HaveBlock (t_Data task) then True
        else False)"

definition Merge :: "Task \<Rightarrow> Task \<Rightarrow> Task" where
  "Merge task existing =
     (let new = t_Data task;
          existing =
            (if \<not> td_HaveBlock (t_Data existing) \<and> td_HaveBlock new
             then existing\<lparr>t_Data := (t_Data existing)\<lparr>td_HaveBlock := td_HaveBlock new, td_BlockSize := td_BlockSize new\<rparr>\<rparr>
             else existing);
          existing =
            (if \<not> td_IsWantBlock (t_Data existing) \<and> td_IsWantBlock new
             then let existing = existing\<lparr>t_Data := (t_Data existing)\<lparr>td_IsWantBlock := True\<rparr>\<rparr>
                  in if \<not> td_HaveBlock (t_Data existing) \<or> td_HaveBlock new
                     then existing\<lparr>t_Data := (t_Data existing)\<lparr>td_HaveBlock := td_HaveBlock new\<rparr>, t_Work := t_Work task\<rparr>
                     else existing
             else existing)
      in if td_IsWantBlock (t_Data existing) \<and> td_HaveBlock (t_Data existing)
         then existing\<lparr>t_Work := td_BlockSize (t_Data existing)\<rparr> else existing)"

lemma Merge_info:
  "td_IsWantBlock (t_Data (Merge n e)) \<longleftrightarrow> td_IsWantBlock (t_Data e) \<or> td_IsWantBlock (t_Data n)"
  "td_HaveBlock (t_Data (Merge n e)) \<longleftrightarrow> td_HaveBlock (t_Data e) \<or> td_HaveBlock (t_Data n)"
  "t_Topic (Merge n e) = t_Topic e"
  by (auto simp: Merge_def Let_def)

lemma has_info_fold:
  "fold has_info es (h, b) = (h \<or> (\<exists>e \<in> set es. td_HaveBlock (t_Data e)), b \<or> (\<exists>e \<in> set es. td_IsWantBlock (t_Data e)))"
  by (induction es arbitrary: h b) (auto simp: has_info_def)

text \<open>The size of a task that will send a block is the size of the block.\<close>

definition task_sized :: "Task \<Rightarrow> bool" where
  "task_sized t \<longleftrightarrow> (td_IsWantBlock (t_Data t) \<and> td_HaveBlock (t_Data t) \<longrightarrow> t_Work t = td_BlockSize (t_Data t))"

lemma Merge_size:
  "td_BlockSize (t_Data (Merge n e)) =
     (if td_HaveBlock (t_Data n) \<and> \<not> td_HaveBlock (t_Data e) then td_BlockSize (t_Data n) else td_BlockSize (t_Data e))"
  by (simp add: Merge_def Let_def)

lemma Merge_sized: "task_sized (Merge n e)"
  by (auto simp: task_sized_def Merge_def Let_def)

lemma HasNewInfo_eq:
  "HasNewInfo n es \<longleftrightarrow>
     td_IsWantBlock (t_Data n) \<and> \<not> (\<exists>e \<in> set es. td_IsWantBlock (t_Data e)) \<or>
     td_HaveBlock (t_Data n) \<and> \<not> (\<exists>e \<in> set es. td_HaveBlock (t_Data e))"
  unfolding HasNewInfo_def has_info_fold prod.case by auto

text \<open>C38. Merging is a join: a merged task sends a block if either asked for one and knows the size if either knew it, and what was
already known of the size is kept. A new task counts as new information exactly if merging it would change one of the two, and
merging keeps the work of a task that sends a block equal to the size of the block.\<close>

theorem Merge_is_join:
  shows "(td_IsWantBlock (t_Data (Merge n e)) \<longleftrightarrow> td_IsWantBlock (t_Data e) \<or> td_IsWantBlock (t_Data n)) \<and>
    (td_HaveBlock (t_Data (Merge n e)) \<longleftrightarrow> td_HaveBlock (t_Data e) \<or> td_HaveBlock (t_Data n)) \<and>
    td_BlockSize (t_Data (Merge n e)) =
      (if td_HaveBlock (t_Data n) \<and> \<not> td_HaveBlock (t_Data e) then td_BlockSize (t_Data n) else td_BlockSize (t_Data e)) \<and>
    (HasNewInfo n [e] \<longleftrightarrow>
       (td_IsWantBlock (t_Data (Merge n e)), td_HaveBlock (t_Data (Merge n e))) \<noteq> (td_IsWantBlock (t_Data e), td_HaveBlock (t_Data e))) \<and>
    task_sized (Merge n e)"
  by (simp add: Merge_info Merge_size Merge_sized HasNewInfo_eq) blast

text \<open>A request for a DONT_HAVE is not merged: a want-block that asks for one and joins a waiting want-have that does not gets
none if the block has gone by the time it is served.\<close>

lemma Merge_loses_SendDontHave: "td_SendDontHave (t_Data (Merge n e)) = td_SendDontHave (t_Data e)"
  by (simp add: Merge_def Let_def)

end
