(* ===== verification/ScoreLedger.thy ===== *)
theory ScoreLedger
  imports Prelude Complex_Main
begin

text \<open>
  \<^verbatim>\<open>internal/decision/scoreledger.go\<close> and \<^verbatim>\<open>internal/decision/ewma.go\<close>: how many bytes were exchanged with a peer, and a
  score for the connection manager that is sampled from it. Floating point numbers are rationals here; byte counts wrap at
  64 bits as in the source. The clock is an argument.
\<close>

section \<open>The ledger of a peer\<close>

abbreviation (input) shortTermAlpha :: rat where
  "shortTermAlpha \<equiv> 1 / 2"

abbreviation (input) longTermAlpha :: rat where
  "longTermAlpha \<equiv> 1 / 20"

abbreviation (input) longTermRatio :: nat where
  "longTermRatio \<equiv> 10"

abbreviation (input) longTermScore :: rat where
  "longTermScore \<equiv> 10"

abbreviation (input) shortTermScore :: rat where
  "shortTermScore \<equiv> 10"

definition ewma :: "rat \<Rightarrow> rat \<Rightarrow> rat \<Rightarrow> rat" where
  "ewma old new alpha = new * alpha + (1 - alpha) * old"

record scoreledger =
  sl_partner :: peer
  sl_bytesSent :: uint64
  sl_bytesRecv :: uint64
  sl_lastExchange :: time
  sl_shortScore :: rat
  sl_longScore :: rat
  sl_score :: int
  sl_exchangeCount :: uint64

record Receipt =
  r_Peer :: peer
  r_Value :: rat
  r_Sent :: uint64
  r_Recv :: uint64
  r_Exchanged :: uint64

definition newScoreLedger :: "peer \<Rightarrow> scoreledger" where
  "newScoreLedger p =
     \<lparr>sl_partner = p, sl_bytesSent = 0, sl_bytesRecv = 0, sl_lastExchange = 0, sl_shortScore = 0, sl_longScore = 0,
      sl_score = 0, sl_exchangeCount = 0\<rparr>"

definition sl_AddToSentBytes :: "time \<Rightarrow> int \<Rightarrow> scoreledger \<Rightarrow> scoreledger" where
  "sl_AddToSentBytes now n l =
     l\<lparr>sl_exchangeCount := sl_exchangeCount l + 1, sl_lastExchange := now, sl_bytesSent := sl_bytesSent l + of_int n\<rparr>"

definition sl_AddToReceivedBytes :: "time \<Rightarrow> int \<Rightarrow> scoreledger \<Rightarrow> scoreledger" where
  "sl_AddToReceivedBytes now n l =
     l\<lparr>sl_exchangeCount := sl_exchangeCount l + 1, sl_lastExchange := now, sl_bytesRecv := sl_bytesRecv l + of_int n\<rparr>"

text \<open>\<^verbatim>\<open>Peer\<close> is the peer itself here instead of its printed form.\<close>

definition sl_Receipt :: "scoreledger \<Rightarrow> Receipt" where
  "sl_Receipt l =
     \<lparr>r_Peer = sl_partner l, r_Value = of_nat (unat (sl_bytesSent l)) / of_nat (unat (sl_bytesRecv l + 1)),
      r_Sent = sl_bytesSent l, r_Recv = sl_bytesRecv l, r_Exchanged = sl_exchangeCount l\<rparr>"

section \<open>The ledgers of all peers\<close>

record DefaultScoreLedger =
  dsl_closing :: bool
  dsl_ledgerMap :: "peer \<rightharpoonup> scoreledger"

definition NewDefaultScoreLedger :: DefaultScoreLedger where
  "NewDefaultScoreLedger = \<lparr>dsl_closing = False, dsl_ledgerMap = Map.empty\<rparr>"

definition dsl_find :: "peer \<Rightarrow> DefaultScoreLedger \<Rightarrow> scoreledger option" where
  "dsl_find p dsl = dsl_ledgerMap dsl p"

definition dsl_findOrCreate :: "peer \<Rightarrow> DefaultScoreLedger \<Rightarrow> scoreledger \<times> DefaultScoreLedger" where
  "dsl_findOrCreate p dsl =
     (case dsl_find p dsl of
        Some l \<Rightarrow> (l, dsl)
      | None \<Rightarrow>
          case dsl_ledgerMap dsl p of
            Some l \<Rightarrow> (l, dsl)
          | None \<Rightarrow> let l = newScoreLedger p in (l, dsl\<lparr>dsl_ledgerMap := (dsl_ledgerMap dsl)(p \<mapsto> l)\<rparr>))"

definition dsl_GetReceipt :: "peer \<Rightarrow> DefaultScoreLedger \<Rightarrow> Receipt" where
  "dsl_GetReceipt p dsl =
     (case dsl_find p dsl of
        Some l \<Rightarrow> sl_Receipt l
      | None \<Rightarrow> \<lparr>r_Peer = p, r_Value = 0, r_Sent = 0, r_Recv = 0, r_Exchanged = 0\<rparr>)"

definition dsl_AddToSentBytes :: "time \<Rightarrow> peer \<Rightarrow> int \<Rightarrow> DefaultScoreLedger \<Rightarrow> DefaultScoreLedger" where
  "dsl_AddToSentBytes now p n dsl =
     (case dsl_findOrCreate p dsl of
        (l, dsl) \<Rightarrow> dsl\<lparr>dsl_ledgerMap := (dsl_ledgerMap dsl)(p \<mapsto> sl_AddToSentBytes now n l)\<rparr>)"

definition dsl_AddToReceivedBytes :: "time \<Rightarrow> peer \<Rightarrow> int \<Rightarrow> DefaultScoreLedger \<Rightarrow> DefaultScoreLedger" where
  "dsl_AddToReceivedBytes now p n dsl =
     (case dsl_findOrCreate p dsl of
        (l, dsl) \<Rightarrow> dsl\<lparr>dsl_ledgerMap := (dsl_ledgerMap dsl)(p \<mapsto> sl_AddToReceivedBytes now n l)\<rparr>)"

definition dsl_PeerConnected :: "peer \<Rightarrow> DefaultScoreLedger \<Rightarrow> DefaultScoreLedger" where
  "dsl_PeerConnected p dsl =
     (case dsl_ledgerMap dsl p of
        Some _ \<Rightarrow> dsl
      | None \<Rightarrow> dsl\<lparr>dsl_ledgerMap := (dsl_ledgerMap dsl)(p \<mapsto> newScoreLedger p)\<rparr>)"

definition dsl_PeerDisconnected :: "peer \<Rightarrow> DefaultScoreLedger \<Rightarrow> DefaultScoreLedger" where
  "dsl_PeerDisconnected p dsl = dsl\<lparr>dsl_ledgerMap := (dsl_ledgerMap dsl)(p := None)\<rparr>"

definition dsl_Stop :: "DefaultScoreLedger \<Rightarrow> DefaultScoreLedger" where
  "dsl_Stop dsl = dsl\<lparr>dsl_closing := True\<rparr>"

section \<open>Sampling\<close>

text \<open>The local variables of \<^verbatim>\<open>scoreWorker\<close> between two ticks.\<close>

record scoreWorker =
  wk_i :: nat
  wk_lastShortUpdate :: time
  wk_lastLongUpdate :: time

definition newScoreWorker :: scoreWorker where
  "newScoreWorker = \<lparr>wk_i = 0, wk_lastShortUpdate = 0, wk_lastLongUpdate = 0\<rparr>"

definition new_score :: "scoreledger \<Rightarrow> int" where
  "new_score l =
     (let lscore = (if sl_bytesRecv l = 0 then 0
                    else of_nat (unat (sl_bytesRecv l)) / of_nat (unat (sl_bytesRecv l + sl_bytesSent l)))
      in \<lfloor>(sl_shortScore l + sl_longScore l) * (lscore * (1/2) + 3/4)\<rfloor>)"

definition sample_short :: "scoreWorker \<Rightarrow> scoreledger \<Rightarrow> scoreledger" where
  "sample_short w l =
     (if sl_lastExchange l > wk_lastShortUpdate w
      then l\<lparr>sl_shortScore := ewma (sl_shortScore l) shortTermScore shortTermAlpha\<rparr>
      else l\<lparr>sl_shortScore := ewma (sl_shortScore l) 0 shortTermAlpha\<rparr>)"

definition sample_long :: "bool \<Rightarrow> scoreWorker \<Rightarrow> scoreledger \<Rightarrow> scoreledger" where
  "sample_long updateLong w l =
     (if updateLong
      then if sl_lastExchange l > wk_lastLongUpdate w
           then l\<lparr>sl_longScore := ewma (sl_longScore l) longTermScore longTermAlpha\<rparr>
           else l\<lparr>sl_longScore := ewma (sl_longScore l) 0 longTermAlpha\<rparr>
      else l)"

definition sample :: "bool \<Rightarrow> scoreWorker \<Rightarrow> scoreledger \<Rightarrow> scoreledger \<times> int option" where
  "sample updateLong w l =
     (let l = sample_long updateLong w (sample_short w l);
          score = new_score l
      in if sl_score l \<noteq> score then (l\<lparr>sl_score := score\<rparr>, Some score) else (l, None))"

definition sample_peer ::
  "bool \<Rightarrow> scoreWorker \<Rightarrow> peer \<Rightarrow> DefaultScoreLedger \<times> (peer \<times> int) list \<Rightarrow> DefaultScoreLedger \<times> (peer \<times> int) list" where
  "sample_peer updateLong w p st =
     (case st of (dsl, updates) \<Rightarrow>
        case dsl_ledgerMap dsl p of
          None \<Rightarrow> st
        | Some l \<Rightarrow>
            case sample updateLong w l of
              (l', u) \<Rightarrow>
                (dsl\<lparr>dsl_ledgerMap := (dsl_ledgerMap dsl)(p \<mapsto> l')\<rparr>,
                 case u of None \<Rightarrow> updates | Some score \<Rightarrow> updates @ [(sl_partner l, score)]))"

text \<open>What a tick at time \<open>now\<close> does: the new state and the calls of \<^verbatim>\<open>scorePeer\<close>.\<close>

definition scoreWorker_tick ::
  "(peer set \<Rightarrow> peer list) \<Rightarrow> time \<Rightarrow> scoreWorker \<times> DefaultScoreLedger \<Rightarrow> (scoreWorker \<times> DefaultScoreLedger) \<times> (peer \<times> int) list" where
  "scoreWorker_tick itp now st =
     (case st of (w, dsl) \<Rightarrow>
        let updateLong = (wk_i w = 0)
        in case fold (sample_peer updateLong w) (itp (dom (dsl_ledgerMap dsl))) (dsl, []) of
             (dsl, updates) \<Rightarrow>
               let w = w\<lparr>wk_lastShortUpdate := now\<rparr>;
                   w = (if updateLong then w\<lparr>wk_lastLongUpdate := now\<rparr> else w);
                   w = w\<lparr>wk_i := (wk_i w + 1) mod longTermRatio\<rparr>
               in ((w, dsl), updates))"

section \<open>Reachable states\<close>

inductive dsl_reach :: "(peer set \<Rightarrow> peer list) \<Rightarrow> scoreWorker \<Rightarrow> DefaultScoreLedger \<Rightarrow> bool" for itp where
  dsl_new: "dsl_reach itp newScoreWorker NewDefaultScoreLedger"
| dsl_sent: "dsl_reach itp w d \<Longrightarrow> dsl_reach itp w (dsl_AddToSentBytes now p n d)"
| dsl_received: "dsl_reach itp w d \<Longrightarrow> dsl_reach itp w (dsl_AddToReceivedBytes now p n d)"
| dsl_connected: "dsl_reach itp w d \<Longrightarrow> dsl_reach itp w (dsl_PeerConnected p d)"
| dsl_disconnected: "dsl_reach itp w d \<Longrightarrow> dsl_reach itp w (dsl_PeerDisconnected p d)"
| dsl_stop: "dsl_reach itp w d \<Longrightarrow> dsl_reach itp w (dsl_Stop d)"
| dsl_tick: "dsl_reach itp w d \<Longrightarrow> \<not> dsl_closing d \<Longrightarrow> fst (scoreWorker_tick itp now (w, d)) = (w', d') \<Longrightarrow> dsl_reach itp w' d'"

definition sl_ok :: "peer \<Rightarrow> scoreledger \<Rightarrow> bool" where
  "sl_ok p l \<longleftrightarrow> sl_partner l = p \<and> 0 \<le> sl_shortScore l \<and> sl_shortScore l < 10 \<and> 0 \<le> sl_longScore l \<and> sl_longScore l < 10"

definition dsl_ok :: "DefaultScoreLedger \<Rightarrow> bool" where
  "dsl_ok d \<longleftrightarrow> finite (dom (dsl_ledgerMap d)) \<and> (\<forall>p l. dsl_ledgerMap d p = Some l \<longrightarrow> sl_ok p l)"

section \<open>What sampling does to a ledger\<close>

lemma sample_short_sel [simp]:
  "sl_partner (sample_short w l) = sl_partner l" "sl_lastExchange (sample_short w l) = sl_lastExchange l"
  "sl_bytesSent (sample_short w l) = sl_bytesSent l" "sl_bytesRecv (sample_short w l) = sl_bytesRecv l"
  "sl_exchangeCount (sample_short w l) = sl_exchangeCount l" "sl_longScore (sample_short w l) = sl_longScore l"
  "sl_score (sample_short w l) = sl_score l"
  "sl_shortScore (sample_short w l) =
     (if sl_lastExchange l > wk_lastShortUpdate w then 5 + sl_shortScore l / 2 else sl_shortScore l / 2)"
  by (simp_all add: sample_short_def ewma_def)

lemma sample_long_sel [simp]:
  "sl_partner (sample_long u w l) = sl_partner l" "sl_lastExchange (sample_long u w l) = sl_lastExchange l"
  "sl_bytesSent (sample_long u w l) = sl_bytesSent l" "sl_bytesRecv (sample_long u w l) = sl_bytesRecv l"
  "sl_exchangeCount (sample_long u w l) = sl_exchangeCount l" "sl_shortScore (sample_long u w l) = sl_shortScore l"
  "sl_score (sample_long u w l) = sl_score l"
  "sl_longScore (sample_long u w l) =
     (if \<not> u then sl_longScore l
      else if sl_lastExchange l > wk_lastLongUpdate w then 1/2 + sl_longScore l * (19/20) else sl_longScore l * (19/20))"
  by (simp_all add: sample_long_def ewma_def)

lemma sample_eq: "fst (sample u w l) = (sample_long u w (sample_short w l))\<lparr>sl_score := new_score (sample_long u w (sample_short w l))\<rparr>"
  by (simp add: sample_def Let_def)

lemma sample_sel:
  "sl_partner (fst (sample u w l)) = sl_partner l" "sl_lastExchange (fst (sample u w l)) = sl_lastExchange l"
  "sl_bytesSent (fst (sample u w l)) = sl_bytesSent l" "sl_bytesRecv (fst (sample u w l)) = sl_bytesRecv l"
  "sl_exchangeCount (fst (sample u w l)) = sl_exchangeCount l"
  "sl_shortScore (fst (sample u w l)) =
     (if sl_lastExchange l > wk_lastShortUpdate w then 5 + sl_shortScore l / 2 else sl_shortScore l / 2)"
  "sl_longScore (fst (sample u w l)) =
     (if \<not> u then sl_longScore l
      else if sl_lastExchange l > wk_lastLongUpdate w then 1/2 + sl_longScore l * (19/20) else sl_longScore l * (19/20))"
  by (simp_all add: sample_eq)

lemma new_score_upd [simp]: "new_score (l\<lparr>sl_score := s\<rparr>) = new_score l"
  by (simp add: new_score_def)

lemma sample_score:
  "sl_score (fst (sample u w l)) = new_score (fst (sample u w l))"
  "snd (sample u w l) = (if new_score (fst (sample u w l)) = sl_score l then None else Some (new_score (fst (sample u w l))))"
  by (auto simp: sample_def Let_def)

lemma sample_ok: "sl_ok p l \<Longrightarrow> sl_ok p (fst (sample u w l))"
  by (auto simp: sl_ok_def sample_sel)

lemma new_score_less:
  assumes "0 \<le> sl_shortScore l" and "0 \<le> sl_longScore l" and "(sl_shortScore l + sl_longScore l) * (5/4) < of_int n"
    and "unat (sl_bytesRecv l) + unat (sl_bytesSent l) < 2 ^ 64"
  shows "0 \<le> new_score l \<and> new_score l < n"
proof -
  define f :: rat where "f = (if sl_bytesRecv l = 0 then 0
    else of_nat (unat (sl_bytesRecv l)) / of_nat (unat (sl_bytesRecv l + sl_bytesSent l)))"
  have "unat (sl_bytesRecv l + sl_bytesSent l) = unat (sl_bytesRecv l) + unat (sl_bytesSent l)"
    using assms(4) by (simp add: unat_word_ariths(1))
  moreover have "0 \<le> (of_nat r :: rat) / of_nat (r + n)" "(of_nat r :: rat) / of_nat (r + n) \<le> 1" for r n
    by (simp_all add: divide_le_eq)
  ultimately have f: "0 \<le> f" "f \<le> 1" unfolding f_def by (simp_all only: split: if_split) auto
  let ?s = "sl_shortScore l + sl_longScore l" and ?g = "f * (1/2) + 3/4"
  have "?s * ?g \<le> ?s * (5/4)" using assms(1,2) f by (intro mult_left_mono) auto
  then have "?s * ?g < of_int n" using assms(3) by linarith
  moreover have "0 \<le> ?s * ?g" using assms(1,2) f by simp
  ultimately show ?thesis unfolding new_score_def Let_def f_def [symmetric] by (simp add: floor_less_iff)
qed

lemma new_score_bounds:
  assumes "sl_ok p l" and "unat (sl_bytesRecv l) + unat (sl_bytesSent l) < 2 ^ 64"
  shows "0 \<le> new_score l \<and> new_score l \<le> 24"
  using new_score_less [of l 25] assms by (simp add: sl_ok_def)

lemma sample_peer_eq:
  "dsl_ledgerMap (fst (sample_peer u w p st)) q =
     (if q = p then map_option (\<lambda>l. fst (sample u w l)) (dsl_ledgerMap (fst st) q) else dsl_ledgerMap (fst st) q)"
  "set (snd (sample_peer u w p st)) = set (snd st) \<union>
     {(sl_partner l, s) | l s. dsl_ledgerMap (fst st) p = Some l \<and> snd (sample u w l) = Some s}"
  by (cases st; cases "dsl_ledgerMap (fst st) p"; auto simp: sample_peer_def split: prod.splits option.splits)+

lemma sample_peer_map:
  assumes "distinct ps"
  shows "dsl_ledgerMap (fst (fold (sample_peer u w) ps st)) q =
      (if q \<in> set ps then map_option (\<lambda>l. fst (sample u w l)) (dsl_ledgerMap (fst st) q) else dsl_ledgerMap (fst st) q)"
  using assms by (induction ps arbitrary: st) (auto simp: sample_peer_eq(1))

lemma sample_peer_updates:
  assumes "distinct ps"
  shows "set (snd (fold (sample_peer u w) ps st)) = set (snd st) \<union>
      {(sl_partner l, s) | q l s. q \<in> set ps \<and> dsl_ledgerMap (fst st) q = Some l \<and> snd (sample u w l) = Some s}"
  using assms
proof (induction ps arbitrary: st)
  case (Cons p ps)
  let ?st = "sample_peer u w p st"
  have "dsl_ledgerMap (fst ?st) q = dsl_ledgerMap (fst st) q" if "q \<in> set ps" for q
    using that Cons.prems by (auto simp: sample_peer_eq(1))
  then have "{(sl_partner l, s) | q l s. q \<in> set ps \<and> dsl_ledgerMap (fst ?st) q = Some l \<and> snd (sample u w l) = Some s} =
      {(sl_partner l, s) | q l s. q \<in> set ps \<and> dsl_ledgerMap (fst st) q = Some l \<and> snd (sample u w l) = Some s}" by force
  then have "set (snd (fold (sample_peer u w) ps ?st)) = set (snd st) \<union>
      {(sl_partner l, s) | l s. dsl_ledgerMap (fst st) p = Some l \<and> snd (sample u w l) = Some s} \<union>
      {(sl_partner l, s) | q l s. q \<in> set ps \<and> dsl_ledgerMap (fst st) q = Some l \<and> snd (sample u w l) = Some s}"
    using Cons.IH [of ?st] Cons.prems by (simp add: sample_peer_eq(2))
  then show ?case by auto
qed simp

lemma tick_eq:
  assumes "iterates itp" and "finite (dom (dsl_ledgerMap d))"
  shows "dsl_ledgerMap (snd (fst (scoreWorker_tick itp now (w, d)))) q =
      map_option (\<lambda>l. fst (sample (wk_i w = 0) w l)) (dsl_ledgerMap d q)"
    "set (snd (scoreWorker_tick itp now (w, d))) =
      {(sl_partner l, s) | q l s. dsl_ledgerMap d q = Some l \<and> snd (sample (wk_i w = 0) w l) = Some s}"
    "fst (fst (scoreWorker_tick itp now (w, d))) =
      \<lparr>wk_i = (wk_i w + 1) mod longTermRatio, wk_lastShortUpdate = now,
       wk_lastLongUpdate = (if wk_i w = 0 then now else wk_lastLongUpdate w)\<rparr>"
proof -
  let ?ps = "itp (dom (dsl_ledgerMap d))" let ?st = "fold (sample_peer (wk_i w = 0) w) ?ps (d, [])"
  have t: "snd (fst (scoreWorker_tick itp now (w, d))) = fst ?st" "snd (scoreWorker_tick itp now (w, d)) = snd ?st"
    by (simp_all add: scoreWorker_tick_def Let_def split_beta)
  have ps: "distinct ?ps" "set ?ps = dom (dsl_ledgerMap d)" using assms by simp_all
  show "dsl_ledgerMap (snd (fst (scoreWorker_tick itp now (w, d)))) q =
      map_option (\<lambda>l. fst (sample (wk_i w = 0) w l)) (dsl_ledgerMap d q)"
    unfolding t sample_peer_map [OF ps(1)] using ps(2) by auto
  show "set (snd (scoreWorker_tick itp now (w, d))) =
      {(sl_partner l, s) | q l s. dsl_ledgerMap d q = Some l \<and> snd (sample (wk_i w = 0) w l) = Some s}"
    unfolding t sample_peer_updates [OF ps(1)] using ps(2) by auto
  show "fst (fst (scoreWorker_tick itp now (w, d))) =
      \<lparr>wk_i = (wk_i w + 1) mod longTermRatio, wk_lastShortUpdate = now,
       wk_lastLongUpdate = (if wk_i w = 0 then now else wk_lastLongUpdate w)\<rparr>"
    by (cases w) (simp add: scoreWorker_tick_def Let_def split_beta)
qed

lemma tick_ok:
  assumes "iterates itp" and "dsl_ok d"
  shows "dsl_ok (snd (fst (scoreWorker_tick itp now (w, d))))"
proof -
  have fin: "finite (dom (dsl_ledgerMap d))" using assms(2) by (simp add: dsl_ok_def)
  have "dom (dsl_ledgerMap (snd (fst (scoreWorker_tick itp now (w, d))))) = dom (dsl_ledgerMap d)"
    by (auto simp: dom_def tick_eq [OF assms(1) fin])
  then show ?thesis using assms(2) by (auto simp: dsl_ok_def tick_eq [OF assms(1) fin] sample_ok)
qed

lemma dsl_ops_ok:
  "dsl_ok NewDefaultScoreLedger" "dsl_ok d \<Longrightarrow> dsl_ok (dsl_PeerConnected p d)" "dsl_ok d \<Longrightarrow> dsl_ok (dsl_PeerDisconnected p d)"
  "dsl_ok d \<Longrightarrow> dsl_ok (dsl_AddToSentBytes now p n d)" "dsl_ok d \<Longrightarrow> dsl_ok (dsl_AddToReceivedBytes now p n d)"
  "dsl_ok d \<Longrightarrow> dsl_ok (dsl_Stop d)"
  by (auto simp: dsl_ok_def NewDefaultScoreLedger_def dsl_PeerConnected_def dsl_PeerDisconnected_def dsl_AddToSentBytes_def
      dsl_AddToReceivedBytes_def dsl_Stop_def dsl_findOrCreate_def dsl_find_def sl_AddToSentBytes_def sl_AddToReceivedBytes_def
      newScoreLedger_def sl_ok_def Let_def split: option.splits if_splits)

lemma dsl_reach_ok:
  assumes "dsl_reach itp w d" and "iterates itp"
  shows "dsl_ok d \<and> wk_i w < longTermRatio"
  using assms(1)
proof induction
  case (dsl_tick w d now w' d')
  then show ?case using tick_ok [OF assms(2), of d now w] tick_eq(3) [OF assms(2), of d now w] by (auto simp: dsl_ok_def)
qed (simp_all add: dsl_ops_ok newScoreWorker_def)

text \<open>C36. Sampling reports to the connection manager exactly the peers whose score changed, each with its new score, which is at
least 0 and at most 24 as long as the bytes exchanged with the peer stay below \<open>2\<^sup>6\<^sup>4\<close>; receipts do not change.\<close>

theorem scores_bounded:
  assumes "dsl_reach itp w d" and "iterates itp"
    and "\<forall>l \<in> ran (dsl_ledgerMap d). unat (sl_bytesRecv l) + unat (sl_bytesSent l) < 2 ^ 64"
    and "scoreWorker_tick itp now (w, d) = ((w', d'), updates)"
  shows "(\<forall>p s. (p, s) \<in> set updates \<longleftrightarrow>
      (\<exists>l l'. dsl_ledgerMap d p = Some l \<and> dsl_ledgerMap d' p = Some l' \<and> s = sl_score l' \<and> sl_score l' \<noteq> sl_score l)) \<and>
    (\<forall>(p, s) \<in> set updates. 0 \<le> s \<and> s \<le> 24) \<and> (\<forall>p. dsl_GetReceipt p d' = dsl_GetReceipt p d)"
proof -
  have ok: "dsl_ok d" using dsl_reach_ok [OF assms(1,2)] by simp
  then have fin: "finite (dom (dsl_ledgerMap d))" by (simp add: dsl_ok_def)
  let ?f = "\<lambda>l. fst (sample (wk_i w = 0) w l)"
  have d': "dsl_ledgerMap d' q = map_option ?f (dsl_ledgerMap d q)" for q
    using tick_eq(1) [OF assms(2) fin, of now w q] assms(4) by simp
  have u: "set updates = {(sl_partner l, s) | q l s. dsl_ledgerMap d q = Some l \<and> snd (sample (wk_i w = 0) w l) = Some s}"
    using tick_eq(2) [OF assms(2) fin, of now w] assms(4) by simp
  have partner: "dsl_ledgerMap d q = Some l \<Longrightarrow> sl_partner l = q" for q l using ok by (auto simp: dsl_ok_def sl_ok_def)
  have us: "(p, s) \<in> set updates \<longleftrightarrow> (\<exists>l. dsl_ledgerMap d p = Some l \<and> s = sl_score (?f l) \<and> sl_score (?f l) \<noteq> sl_score l)" for p s
    unfolding u using partner by (auto simp: sample_score split: if_splits)
  have "0 \<le> s \<and> s \<le> 24" if ps: "(p, s) \<in> set updates" for p s
  proof -
    obtain l where l: "dsl_ledgerMap d p = Some l" "s = new_score (?f l)" using ps us [of p s] by (auto simp: sample_score)
    have "sl_ok p (?f l)" using ok l(1) by (intro sample_ok) (simp add: dsl_ok_def)
    moreover have "unat (sl_bytesRecv (?f l)) + unat (sl_bytesSent (?f l)) < 2 ^ 64"
      using assms(3) l(1) by (simp add: sample_sel ranI)
    ultimately show ?thesis using l(2) new_score_bounds by blast
  qed
  moreover have "dsl_GetReceipt p d' = dsl_GetReceipt p d" for p
    by (cases "dsl_ledgerMap d p") (simp_all add: dsl_GetReceipt_def dsl_find_def d' sl_Receipt_def sample_sel)
  ultimately show ?thesis using us d' by fastforce
qed

section \<open>The score of an idle peer\<close>

fun ticks :: "(peer set \<Rightarrow> peer list) \<Rightarrow> time list \<Rightarrow> scoreWorker \<times> DefaultScoreLedger \<Rightarrow> scoreWorker \<times> DefaultScoreLedger" where
  "ticks itp [] st = st"
| "ticks itp (now # ts) st = ticks itp ts (fst (scoreWorker_tick itp now st))"

definition idle :: "scoreWorker \<Rightarrow> scoreledger \<Rightarrow> bool" where
  "idle w l \<longleftrightarrow> sl_lastExchange l \<le> wk_lastShortUpdate w \<and> sl_lastExchange l \<le> wk_lastLongUpdate w"

text \<open>The number of long-term updates in \<open>n\<close> ticks that begin with tick \<open>i\<close>.\<close>

definition longs :: "nat \<Rightarrow> nat \<Rightarrow> nat" where
  "longs i n = (i + n + 9) div 10 - (i + 9) div 10"

lemma longs_0 [simp]: "longs i 0 = 0"
  by (simp add: longs_def)

lemma longs_Suc: "i < 10 \<Longrightarrow> longs i (Suc n) = (if i = 0 then Suc else id) (longs ((i + 1) mod 10) n)"
proof (cases "i = 9")
  case False
  assume "i < 10"
  with False have "(i + 1) mod 10 = i + 1" by simp
  with \<open>i < 10\<close> show ?thesis by (auto simp: longs_def)
qed (simp add: longs_def)

lemma ticks_idle:
  assumes "iterates itp" and "finite (dom (dsl_ledgerMap d))" and "dsl_ledgerMap d p = Some l" and "idle w l" and "wk_i w < 10"
    and "\<forall>t \<in> set ts. sl_lastExchange l \<le> t"
  shows "\<exists>l'. dsl_ledgerMap (snd (ticks itp ts (w, d))) p = Some l' \<and> sl_shortScore l' = sl_shortScore l / 2 ^ length ts \<and>
    sl_longScore l' = sl_longScore l * (19/20) ^ longs (wk_i w) (length ts) \<and> (ts \<noteq> [] \<longrightarrow> sl_score l' = new_score l') \<and>
    sl_partner l' = sl_partner l \<and> sl_bytesSent l' = sl_bytesSent l \<and> sl_bytesRecv l' = sl_bytesRecv l"
  using assms(2-)
proof (induction ts arbitrary: w d l)
  case (Cons t ts)
  obtain w1 d1 where t1: "fst (scoreWorker_tick itp t (w, d)) = (w1, d1)" by force
  let ?l = "fst (sample (wk_i w = 0) w l)"
  have d1: "dsl_ledgerMap d1 q = map_option (\<lambda>l. fst (sample (wk_i w = 0) w l)) (dsl_ledgerMap d q)" for q
    using tick_eq(1) [OF assms(1) Cons.prems(1), of t w q] t1 by simp
  have w1: "w1 = \<lparr>wk_i = (wk_i w + 1) mod 10, wk_lastShortUpdate = t, wk_lastLongUpdate = (if wk_i w = 0 then t else wk_lastLongUpdate w)\<rparr>"
    using tick_eq(3) [OF assms(1) Cons.prems(1), of t w] t1 by simp
  have l1: "sl_shortScore ?l = sl_shortScore l / 2" "sl_longScore ?l = sl_longScore l * (if wk_i w = 0 then 19/20 else 1)"
    using Cons.prems(3) by (auto simp: sample_sel idle_def)
  have "dom (dsl_ledgerMap d1) = dom (dsl_ledgerMap d)" by (auto simp: dom_def d1)
  then have "\<exists>l'. dsl_ledgerMap (snd (ticks itp ts (w1, d1))) p = Some l' \<and> sl_shortScore l' = sl_shortScore ?l / 2 ^ length ts \<and>
    sl_longScore l' = sl_longScore ?l * (19/20) ^ longs (wk_i w1) (length ts) \<and> (ts \<noteq> [] \<longrightarrow> sl_score l' = new_score l') \<and>
    sl_partner l' = sl_partner ?l \<and> sl_bytesSent l' = sl_bytesSent ?l \<and> sl_bytesRecv l' = sl_bytesRecv ?l"
    using Cons.prems by (intro Cons.IH) (auto simp: d1 [of p] w1 idle_def sample_sel)
  then obtain l' where l': "dsl_ledgerMap (snd (ticks itp ts (w1, d1))) p = Some l'" "sl_shortScore l' = sl_shortScore ?l / 2 ^ length ts"
    "sl_longScore l' = sl_longScore ?l * (19/20) ^ longs (wk_i w1) (length ts)" "ts \<noteq> [] \<longrightarrow> sl_score l' = new_score l'"
    "sl_partner l' = sl_partner ?l" "sl_bytesSent l' = sl_bytesSent ?l" "sl_bytesRecv l' = sl_bytesRecv ?l" by blast
  moreover have "sl_score l' = new_score l'" if "ts = []"
    using l'(1) that by (auto simp: d1 Cons.prems(2) sample_score)
  ultimately show ?case
    using Cons.prems(4) by (intro exI [of _ l']) (auto simp: t1 l1 w1 longs_Suc sample_sel(1-5))
qed simp

text \<open>C37. The score of a peer that has stopped exchanging data fades: after 500 samples without an exchange it is 0.\<close>

theorem score_fades:
  assumes "dsl_reach itp w d" and "iterates itp" and "dsl_ledgerMap d p = Some l"
    and "unat (sl_bytesRecv l) + unat (sl_bytesSent l) < 2 ^ 64"
    and "sl_lastExchange l \<le> wk_lastShortUpdate w" and "sl_lastExchange l \<le> wk_lastLongUpdate w"
    and "length ts = 500" and "\<forall>t \<in> set ts. sl_lastExchange l \<le> t"
  shows "\<exists>l'. dsl_ledgerMap (snd (ticks itp ts (w, d))) p = Some l' \<and> sl_score l' = 0"
proof -
  have ok: "dsl_ok d" "wk_i w < 10" using dsl_reach_ok [OF assms(1,2)] by simp_all
  obtain l' where l': "dsl_ledgerMap (snd (ticks itp ts (w, d))) p = Some l'" "sl_shortScore l' = sl_shortScore l / 2 ^ 500"
    "sl_longScore l' = sl_longScore l * (19/20) ^ longs (wk_i w) 500" "sl_score l' = new_score l'"
    "sl_bytesSent l' = sl_bytesSent l" "sl_bytesRecv l' = sl_bytesRecv l"
    using ticks_idle [OF assms(2) _ assms(3) _ ok(2) assms(8)] ok(1) assms(5,6,7) by (fastforce simp: dsl_ok_def idle_def)
  have "longs (wk_i w) 500 = 50" using ok(2) by (simp add: longs_def)
  have sl: "0 \<le> sl_shortScore l" "sl_shortScore l < 10" "0 \<le> sl_longScore l" "sl_longScore l < 10"
    using ok(1) assms(3) by (auto simp: dsl_ok_def sl_ok_def)
  have "sl_longScore l' \<le> 10 * (19/20) ^ 50" unfolding l'(3) \<open>longs (wk_i w) 500 = 50\<close> using sl by (intro mult_right_mono) simp_all
  moreover have "sl_shortScore l' \<le> 10 / 2 ^ 500" unfolding l'(2) using sl by (intro divide_right_mono) simp_all
  moreover have "(10 / 2 ^ 500 + 10 * (19/20) ^ 50) * (5/4) < (1 :: rat)" by (simp add: power_divide)
  ultimately have "(sl_shortScore l' + sl_longScore l') * (5/4) < of_int 1" by simp
  moreover have "0 \<le> sl_shortScore l'" "0 \<le> sl_longScore l'" using sl by (simp_all add: l'(2,3))
  ultimately have "new_score l' = 0" using new_score_less [of l' 1] assms(4) by (simp add: l'(5,6))
  with l'(1,4) show ?thesis by simp
qed

text \<open>A ledger of one peer that has sent us some bytes.\<close>

definition dsl_ex :: DefaultScoreLedger where
  "dsl_ex = dsl_AddToReceivedBytes 0 ''p'' 1000 (dsl_PeerConnected ''p'' NewDefaultScoreLedger)"

lemma dsl_ex_reach: "dsl_reach sorted_list_of_set newScoreWorker dsl_ex"
  unfolding dsl_ex_def by (intro dsl_reach.dsl_received dsl_reach.dsl_connected dsl_reach.dsl_new)

lemma dsl_ex_map:
  "dsl_ledgerMap dsl_ex = [''p'' \<mapsto> (newScoreLedger ''p'')\<lparr>sl_exchangeCount := 1, sl_lastExchange := 0, sl_bytesRecv := 1000\<rparr>]"
  by (simp add: dsl_ex_def dsl_AddToReceivedBytes_def dsl_PeerConnected_def NewDefaultScoreLedger_def dsl_findOrCreate_def dsl_find_def
      sl_AddToReceivedBytes_def newScoreLedger_def)

theorem scores_bounded_witness:
  "dsl_GetReceipt ''p'' (snd (fst (scoreWorker_tick sorted_list_of_set 10 (newScoreWorker, dsl_ex)))) = dsl_GetReceipt ''p'' dsl_ex"
proof -
  obtain w d us where t: "scoreWorker_tick sorted_list_of_set 10 (newScoreWorker, dsl_ex) = ((w, d), us)" by (metis prod.exhaust)
  have "\<forall>l \<in> ran (dsl_ledgerMap dsl_ex). unat (sl_bytesRecv l) + unat (sl_bytesSent l) < 2 ^ 64"
    by (simp add: dsl_ex_map newScoreLedger_def)
  from scores_bounded [OF dsl_ex_reach iterates_sorted_list_of_set this t] show ?thesis by (simp add: t)
qed

theorem score_fades_witness:
  "\<exists>l'. dsl_ledgerMap (snd (ticks sorted_list_of_set (replicate 500 7) (newScoreWorker, dsl_ex))) ''p'' = Some l' \<and> sl_score l' = 0"
  by (rule score_fades [OF dsl_ex_reach iterates_sorted_list_of_set, of "''p''" "the (dsl_ledgerMap dsl_ex ''p'')"])
    (simp_all add: dsl_ex_map newScoreLedger_def newScoreWorker_def)

end
