(* ===== verification/BlockstoreManager.thy ===== *)
theory BlockstoreManager
  imports Auth "HOL-Library.Multiset"
begin

text \<open>
  \<^verbatim>\<open>internal/decision/blockstoremanager.go\<close>: a pool of workers through which the engine reads the blockstore. A call of
  \<^verbatim>\<open>getBlocks\<close> or \<^verbatim>\<open>getBlockSizes\<close> hands one job per want to the workers, each of which writes its result into a shared map
  under a lock, and returns when all jobs are done. \<open>accepted\<close> is the number of jobs that the pool took before it closed or
  the call was cancelled (\<open>None\<close> when it took all).
\<close>

section \<open>One job per want\<close>

definition jobPerKey :: "nat option \<Rightarrow> (Want \<Rightarrow> 'r \<Rightarrow> 'r) \<Rightarrow> Want list \<Rightarrow> 'r \<Rightarrow> bool \<times> 'r" where
  "jobPerKey accepted jobFn ws res =
     (case accepted of
        None \<Rightarrow> (True, fold jobFn ws res)
      | Some k \<Rightarrow> if k < length ws then (False, fold jobFn (take k ws) res) else (True, fold jobFn ws res))"

definition size_job :: "'s AuthedBlockstore \<Rightarrow> 's \<Rightarrow> Want \<Rightarrow> (Want \<rightharpoonup> int) \<Rightarrow> (Want \<rightharpoonup> int)" where
  "size_job bs s w res =
     (case AuthedBlockstore_GetSize bs (want_Cid w) s of Inl _ \<Rightarrow> res | Inr n \<Rightarrow> res(w \<mapsto> n))"

definition getBlockSizes :: "'s AuthedBlockstore \<Rightarrow> 's \<Rightarrow> nat option \<Rightarrow> Want list \<Rightarrow> bool \<times> (Want \<rightharpoonup> int)" where
  "getBlockSizes bs s accepted ws =
     (if ws = [] then (True, Map.empty) else jobPerKey accepted (size_job bs s) ws Map.empty)"

definition block_job :: "'s AuthedBlockstore \<Rightarrow> 's \<Rightarrow> peer \<Rightarrow> Want \<Rightarrow> (Want \<rightharpoonup> block) \<Rightarrow> (Want \<rightharpoonup> block)" where
  "block_job bs s remote w res =
     (case AuthedBlockstore_Get bs (want_Cid w) remote (want_Auth w) s of Inl _ \<Rightarrow> res | Inr blk \<Rightarrow> res(w \<mapsto> blk))"

definition getBlocks :: "'s AuthedBlockstore \<Rightarrow> 's \<Rightarrow> nat option \<Rightarrow> Want list \<Rightarrow> peer \<Rightarrow> bool \<times> (Want \<rightharpoonup> block)" where
  "getBlocks bs s accepted ws remote =
     (if ws = [] then (True, Map.empty) else jobPerKey accepted (block_job bs s remote) ws Map.empty)"

text \<open>The jobs write to different keys or write the same value: the order in which the workers run them does not matter.\<close>

definition put_result :: "('k \<Rightarrow> 'v option) \<Rightarrow> 'k \<Rightarrow> ('k \<rightharpoonup> 'v) \<Rightarrow> ('k \<rightharpoonup> 'v)" where
  "put_result f k res = (case f k of None \<Rightarrow> res | Some v \<Rightarrow> res(k \<mapsto> v))"

lemma put_results: "fold (put_result f) ks res k = (if k \<in> set ks \<and> f k \<noteq> None then f k else res k)"
  by (induction ks arbitrary: res) (auto simp: put_result_def split: option.splits)

lemma put_results_order: "mset ks = mset ks' \<Longrightarrow> fold (put_result f) ks res = fold (put_result f) ks' res"
  by (rule ext) (metis mset_eq_setD put_results)

definition size_of :: "'s AuthedBlockstore \<Rightarrow> 's \<Rightarrow> Want \<Rightarrow> int option" where
  "size_of bs s w = (case AuthedBlockstore_GetSize bs (want_Cid w) s of Inl _ \<Rightarrow> None | Inr n \<Rightarrow> Some n)"

definition block_for :: "'s AuthedBlockstore \<Rightarrow> 's \<Rightarrow> peer \<Rightarrow> Want \<Rightarrow> block option" where
  "block_for bs s p w = (case AuthedBlockstore_Get bs (want_Cid w) p (want_Auth w) s of Inl _ \<Rightarrow> None | Inr b \<Rightarrow> Some b)"

lemma size_job_eq: "size_job bs s = put_result (size_of bs s)"
  by (auto simp: fun_eq_iff size_job_def put_result_def size_of_def split: sum.splits)

lemma block_job_eq: "block_job bs s p = put_result (block_for bs s p)"
  by (auto simp: fun_eq_iff block_job_def put_result_def block_for_def split: sum.splits)

lemma getBlockSizes_ok:
  "fst (getBlockSizes bs s k ws) \<Longrightarrow> snd (getBlockSizes bs s k ws) w = (if w \<in> set ws then size_of bs s w else None)"
  by (auto simp: getBlockSizes_def jobPerKey_def size_job_eq put_results split: option.splits if_splits)

lemma getBlocks_some: "snd (getBlocks bs s k ws p) w = Some b \<Longrightarrow> w \<in> set ws \<and> block_for bs s p w = Some b"
  by (auto simp: getBlocks_def jobPerKey_def block_job_eq put_results split: option.splits if_splits dest: in_set_takeD)

lemma getBlocks_ok:
  "fst (getBlocks bs s k ws p) \<Longrightarrow> snd (getBlocks bs s k ws p) w = (if w \<in> set ws then block_for bs s p w else None)"
  by (auto simp: getBlocks_def jobPerKey_def block_job_eq put_results split: option.splits if_splits)

lemma block_for_allowed:
  assumes "block_for bs s p w = Some b"
  shows "bs_allow bs (want_Cid w) (block_RawData b) p (want_Auth w)" "src_stored bs s (want_Cid w) b"
  using assms authed.Get_allowed [of bs "want_Cid w" p "want_Auth w" s b] authed.Get_stored [of bs "want_Cid w" p "want_Auth w" s b]
  by (simp_all add: block_for_def split: sum.splits)

section \<open>The workers\<close>

text \<open>The numbers of workers that wait for a job, that have received one and not counted it yet, and that run one; the number of
calls of \<^verbatim>\<open>addJob\<close> that have handed over a job and not counted it yet; and the two gauges. The channel of jobs has no buffer.\<close>

record blockstoreManager =
  bsm_workerCount :: nat
  bsm_closing :: bool
  bsm_waiting :: nat
  bsm_received :: nat
  bsm_running :: nat
  bsm_adding :: nat
  bsm_pendingGauge :: int
  bsm_activeGauge :: int

definition newBlockstoreManager :: "nat \<Rightarrow> blockstoreManager" where
  "newBlockstoreManager workerCount =
     \<lparr>bsm_workerCount = workerCount, bsm_closing = False, bsm_waiting = 0, bsm_received = 0, bsm_running = 0, bsm_adding = 0,
      bsm_pendingGauge = 0, bsm_activeGauge = 0\<rparr>"

definition bsm_start :: "blockstoreManager \<Rightarrow> blockstoreManager" where
  "bsm_start b = b\<lparr>bsm_waiting := bsm_workerCount b\<rparr>"

definition job_handed_over :: "blockstoreManager \<Rightarrow> blockstoreManager" where
  "job_handed_over b = b\<lparr>bsm_waiting := bsm_waiting b - 1, bsm_received := bsm_received b + 1, bsm_adding := bsm_adding b + 1\<rparr>"

definition addJob_counts :: "blockstoreManager \<Rightarrow> blockstoreManager" where
  "addJob_counts b = b\<lparr>bsm_adding := bsm_adding b - 1, bsm_pendingGauge := bsm_pendingGauge b + 1\<rparr>"

definition worker_begins :: "blockstoreManager \<Rightarrow> blockstoreManager" where
  "worker_begins b =
     b\<lparr>bsm_received := bsm_received b - 1, bsm_running := bsm_running b + 1,
       bsm_pendingGauge := bsm_pendingGauge b - 1, bsm_activeGauge := bsm_activeGauge b + 1\<rparr>"

definition worker_ends :: "blockstoreManager \<Rightarrow> blockstoreManager" where
  "worker_ends b =
     b\<lparr>bsm_running := bsm_running b - 1, bsm_waiting := bsm_waiting b + 1, bsm_activeGauge := bsm_activeGauge b - 1\<rparr>"

inductive bsm_reach :: "nat \<Rightarrow> blockstoreManager \<Rightarrow> bool" for n where
  bsm_started: "bsm_reach n (bsm_start (newBlockstoreManager n))"
| bsm_hand_over: "bsm_reach n b \<Longrightarrow> 0 < bsm_waiting b \<Longrightarrow> bsm_reach n (job_handed_over b)"
| bsm_count: "bsm_reach n b \<Longrightarrow> 0 < bsm_adding b \<Longrightarrow> bsm_reach n (addJob_counts b)"
| bsm_begin: "bsm_reach n b \<Longrightarrow> 0 < bsm_received b \<Longrightarrow> bsm_reach n (worker_begins b)"
| bsm_end: "bsm_reach n b \<Longrightarrow> 0 < bsm_running b \<Longrightarrow> bsm_reach n (worker_ends b)"
| bsm_close: "bsm_reach n b \<Longrightarrow> bsm_reach n (b\<lparr>bsm_closing := True\<rparr>)"
| bsm_exit: "bsm_reach n b \<Longrightarrow> bsm_closing b \<Longrightarrow> 0 < bsm_waiting b \<Longrightarrow> bsm_reach n (b\<lparr>bsm_waiting := bsm_waiting b - 1\<rparr>)"

text \<open>C39. The gauges of the pool: the active gauge is the number of jobs that run, never more than there are workers; the pending
gauge is the number of jobs received and not begun less those that \<^verbatim>\<open>addJob\<close> has not counted yet, so it is 0 when
nothing is under way, and it can be negative for a moment.\<close>

theorem bsm_gauges:
  assumes "bsm_reach n b"
  shows "bsm_activeGauge b = int (bsm_running b) \<and> bsm_running b \<le> n \<and>
    bsm_pendingGauge b = int (bsm_received b) - int (bsm_adding b)"
proof -
  have "bsm_activeGauge b = int (bsm_running b) \<and> bsm_waiting b + bsm_received b + bsm_running b \<le> n \<and>
    bsm_pendingGauge b = int (bsm_received b) - int (bsm_adding b)"
    using assms
    by induction
      (auto simp: bsm_start_def newBlockstoreManager_def job_handed_over_def addJob_counts_def worker_begins_def worker_ends_def)
  then show ?thesis by simp
qed

theorem bsm_gauges_witness:
  "bsm_pendingGauge (worker_begins (job_handed_over (bsm_start (newBlockstoreManager 2)))) = -1"
proof -
  have "bsm_reach 2 (worker_begins (job_handed_over (bsm_start (newBlockstoreManager 2))))"
    by (intro bsm_reach.bsm_begin bsm_reach.bsm_hand_over bsm_reach.bsm_started)
      (simp_all add: job_handed_over_def bsm_start_def newBlockstoreManager_def)
  from bsm_gauges [OF this] show ?thesis
    by (simp add: worker_begins_def job_handed_over_def bsm_start_def newBlockstoreManager_def)
qed

end
