(* ===== verification/Engine.thy ===== *)
theory Engine
  imports Ledgers ScoreLedger BlockstoreManager Message
begin

text \<open>
  \<^verbatim>\<open>internal/decision/engine.go\<close>: the server side. It keeps the wants of its peers, queues a task for every want it can
  answer, and packs tasks into messages. The queue of tasks is the library \<^verbatim>\<open>go-peertaskqueue\<close>: its operations are the
  record \<open>Q\<close>, over a state of any type. The blockstore \<open>bs\<close>, with the store \<open>s\<close> at the time of the call, is the authorising
  blockstore of package \<^verbatim>\<open>auth\<close>. Metrics and the texts of tags are left out; \<^verbatim>\<open>peerTagger\<close> is the list of calls made to it.
\<close>

section \<open>The engine\<close>

record 'q PeerTaskQueue =
  ptq_PushTasks :: "peer \<Rightarrow> Task list \<Rightarrow> 'q \<Rightarrow> 'q"
  ptq_PopTasks :: "int \<Rightarrow> 'q \<Rightarrow> (peer \<times> Task list \<times> int) \<times> 'q"
  ptq_Remove :: "Want \<Rightarrow> peer \<Rightarrow> 'q \<Rightarrow> 'q"
  ptq_TasksDone :: "peer \<Rightarrow> Task list \<Rightarrow> 'q \<Rightarrow> 'q"
  ptq_ThawRound :: "'q \<Rightarrow> 'q"

abbreviation (input) targetMessageSize :: int where
  "targetMessageSize \<equiv> 16 * 1024"

abbreviation (input) queuedTagWeight :: int where
  "queuedTagWeight \<equiv> 10"

abbreviation (input) maxBlockSizeReplaceHasWithBlock :: int where
  "maxBlockSizeReplaceHasWithBlock \<equiv> 1024"

datatype engine_tag = tagQueued | tagUseful

datatype tagger_call = TagPeer peer engine_tag int | UntagPeer peer engine_tag

record 'q Engine =
  e_peerRequestQueue :: 'q
  e_workSignal :: bool
  e_outboxClosed :: bool
  e_ledgerMap :: "peer \<rightharpoonup> ledger"
  e_peerLedger :: peerLedger
  e_scoreLedger :: DefaultScoreLedger
  e_taskWorkerCount :: int
  e_maxBlockSizeReplaceHasWithBlock :: int
  e_sendDontHaves :: bool
  e_self :: peer

definition newEngine :: "int \<Rightarrow> peer \<Rightarrow> int \<Rightarrow> 'q \<Rightarrow> 'q Engine" where
  "newEngine engineTaskWorkerCount self maxReplaceSize q =
     \<lparr>e_peerRequestQueue = q, e_workSignal = False, e_outboxClosed = False, e_ledgerMap = Map.empty, e_peerLedger = newPeerLedger,
      e_scoreLedger = NewDefaultScoreLedger, e_taskWorkerCount = engineTaskWorkerCount,
      e_maxBlockSizeReplaceHasWithBlock = maxReplaceSize, e_sendDontHaves = True, e_self = self\<rparr>"

definition NewEngine :: "int \<Rightarrow> peer \<Rightarrow> 'q \<Rightarrow> 'q Engine" where
  "NewEngine engineTaskWorkerCount self q = newEngine engineTaskWorkerCount self maxBlockSizeReplaceHasWithBlock q"

definition SetSendDontHaves :: "bool \<Rightarrow> 'q Engine \<Rightarrow> 'q Engine" where
  "SetSendDontHaves send e = e\<lparr>e_sendDontHaves := send\<rparr>"

text \<open>The function that \<^verbatim>\<open>startScoreLedger\<close> gives to the score ledger, and the hooks of the queue.\<close>

definition startScoreLedger :: "peer \<Rightarrow> int \<Rightarrow> tagger_call" where
  "startScoreLedger p score = (if score = 0 then UntagPeer p tagUseful else TagPeer p tagUseful score)"

definition onPeerAdded :: "peer \<Rightarrow> tagger_call" where
  "onPeerAdded p = TagPeer p tagQueued queuedTagWeight"

definition onPeerRemoved :: "peer \<Rightarrow> tagger_call" where
  "onPeerRemoved p = UntagPeer p tagQueued"

definition signalNewWork :: "'q Engine \<Rightarrow> 'q Engine" where
  "signalNewWork e = e\<lparr>e_workSignal := True\<rparr>"

definition findOrCreate :: "peer \<Rightarrow> 'q Engine \<Rightarrow> ledger \<times> 'q Engine" where
  "findOrCreate p e =
     (case e_ledgerMap e p of
        Some l \<Rightarrow> (l, e)
      | None \<Rightarrow> let l = newLedger p in (l, e\<lparr>e_ledgerMap := (e_ledgerMap e)(p \<mapsto> l)\<rparr>))"

definition set_ledger :: "peer \<Rightarrow> ledger \<Rightarrow> 'q Engine \<Rightarrow> 'q Engine" where
  "set_ledger p l e = e\<lparr>e_ledgerMap := (e_ledgerMap e)(p \<mapsto> l)\<rparr>"

definition WantlistForPeer :: "(Want set \<Rightarrow> Want list) \<Rightarrow> peer \<Rightarrow> 'q Engine \<Rightarrow> Entry list \<times> 'q Engine" where
  "WantlistForPeer itw p e =
     (case findOrCreate p e of (partner, e) \<Rightarrow> (SortEntries (Wantlist_Entries itw (l_wantList partner)), e))"

definition LedgerForPeer :: "peer \<Rightarrow> 'q Engine \<Rightarrow> Receipt" where
  "LedgerForPeer p e = dsl_GetReceipt p (e_scoreLedger e)"

definition numBytesSentTo :: "peer \<Rightarrow> 'q Engine \<Rightarrow> uint64" where
  "numBytesSentTo p e = r_Sent (LedgerForPeer p e)"

definition numBytesReceivedFrom :: "peer \<Rightarrow> 'q Engine \<Rightarrow> uint64" where
  "numBytesReceivedFrom p e = r_Recv (LedgerForPeer p e)"

definition engine_Peers :: "(peer set \<Rightarrow> peer list) \<Rightarrow> 'q Engine \<Rightarrow> peer list" where
  "engine_Peers itp e = map l_Partner (map_values itp (e_ledgerMap e))"

definition sendAsBlock :: "WantType \<Rightarrow> int \<Rightarrow> 'q Engine \<Rightarrow> bool" where
  "sendAsBlock wantType blockSize e \<longleftrightarrow>
     wantType = Message_Wantlist_Block \<or> blockSize \<le> e_maxBlockSizeReplaceHasWithBlock e"

section \<open>A message arrives\<close>

definition splitWantsCancels :: "msg_Entry list \<Rightarrow> msg_Entry list \<times> msg_Entry list" where
  "splitWantsCancels es =
     fold (\<lambda>et (wants, cancels). if me_Cancel et then (wants, cancels @ [et]) else (wants @ [et], cancels)) es ([], [])"

text \<open>The section under the engine's lock.\<close>

definition mr_index :: "peer \<Rightarrow> msg_Entry list \<Rightarrow> msg_Entry list \<Rightarrow> 'q Engine \<Rightarrow> 'q Engine" where
  "mr_index p wants cancels e =
     (let e = e\<lparr>e_peerLedger := fold (\<lambda>entry. peerLedger_Wants p (e_Want (me_Entry entry))) wants (e_peerLedger e)\<rparr>
      in e\<lparr>e_peerLedger := fold (\<lambda>entry. peerLedger_CancelWant p (e_Want (me_Entry entry))) cancels (e_peerLedger e)\<rparr>)"

definition mr_cancel :: "'q PeerTaskQueue \<Rightarrow> peer \<Rightarrow> msg_Entry \<Rightarrow> ledger \<times> 'q \<Rightarrow> ledger \<times> 'q" where
  "mr_cancel Q p entry st =
     (case st of (l, q) \<Rightarrow>
        case ledger_CancelWant (e_Want (me_Entry entry)) l of
          (removed, l) \<Rightarrow> (l, if removed then ptq_Remove Q (e_Want (me_Entry entry)) p q else q))"

text \<open>The task for a want whose block was not found, and for one whose block was.\<close>

definition dont_have_task :: "msg_Entry \<Rightarrow> Task" where
  "dont_have_task entry =
     (let c = e_Want (me_Entry entry)
      in \<lparr>t_Topic = c, t_Priority = sint (e_Priority (me_Entry entry)), t_Work = int (BlockPresenceSize c),
          t_Data = \<lparr>td_Auth = [], td_IsWantBlock = (e_WantType (me_Entry entry) = Message_Wantlist_Block),
                    td_SendDontHave = me_SendDontHave entry, td_BlockSize = 0, td_HaveBlock = False\<rparr>\<rparr>)"

definition have_task :: "Entry \<Rightarrow> int \<Rightarrow> bool \<Rightarrow> 'q Engine \<Rightarrow> Task" where
  "have_task entry blockSize sendDontHave e =
     (let c = e_Want entry;
          isWantBlock = sendAsBlock (e_WantType entry) blockSize e;
          entrySize = (if \<not> isWantBlock then int (BlockPresenceSize c) else blockSize)
      in \<lparr>t_Topic = c, t_Priority = sint (e_Priority entry), t_Work = entrySize,
          t_Data = \<lparr>td_Auth = [], td_IsWantBlock = isWantBlock, td_SendDontHave = sendDontHave,
                    td_BlockSize = blockSize, td_HaveBlock = True\<rparr>\<rparr>)"

definition mr_want ::
  "(Want \<rightharpoonup> int) \<Rightarrow> 'q Engine \<Rightarrow> msg_Entry \<Rightarrow> ledger \<times> Task list \<times> bool \<Rightarrow> ledger \<times> Task list \<times> bool" where
  "mr_want blockSizes e entry st =
     (case st of (l, activeEntries, newWorkExists) \<Rightarrow>
        let c = e_Want (me_Entry entry);
            l = ledger_Wants c (e_Priority (me_Entry entry)) (e_WantType (me_Entry entry)) l
        in case blockSizes c of
             None \<Rightarrow>
               if e_sendDontHaves e \<and> me_SendDontHave entry
               then (l, activeEntries @ [dont_have_task entry], True)
               else (l, activeEntries, newWorkExists)
           | Some blockSize \<Rightarrow>
               (l, activeEntries @ [have_task (me_Entry entry) blockSize (me_SendDontHave entry) e], True))"

text \<open>The section under the ledger's lock.\<close>

definition mr_ledger ::
  "'q PeerTaskQueue \<Rightarrow> peer \<Rightarrow> bool \<Rightarrow> (Want \<rightharpoonup> int) \<Rightarrow> msg_Entry list \<Rightarrow> msg_Entry list \<Rightarrow> 'q Engine \<Rightarrow> 'q Engine" where
  "mr_ledger Q p full blockSizes wants cancels e =
     (case findOrCreate p e of (l, e) \<Rightarrow>
        let l = (if full then l\<lparr>l_wantList := Wantlist_New\<rparr> else l)
        in case fold (mr_cancel Q p) cancels (l, e_peerRequestQueue e) of (l, q) \<Rightarrow>
           let e = e\<lparr>e_peerRequestQueue := q\<rparr>
           in case fold (mr_want blockSizes e) wants (l, [], False) of (l, activeEntries, newWorkExists) \<Rightarrow>
              let e = set_ledger p l e;
                  e = (if activeEntries \<noteq> []
                       then e\<lparr>e_peerRequestQueue := ptq_PushTasks Q p activeEntries (e_peerRequestQueue e)\<rparr> else e)
              in if newWorkExists then signalNewWork e else e)"

definition MessageReceived ::
  "'q PeerTaskQueue \<Rightarrow> (Want set \<Rightarrow> Want list) \<Rightarrow> 's AuthedBlockstore \<Rightarrow> 's \<Rightarrow> nat option \<Rightarrow> peer \<Rightarrow> impl \<Rightarrow> 'q Engine \<Rightarrow> 'q Engine" where
  "MessageReceived Q itw bs s accepted p m e =
     (case splitWantsCancels (impl_Wantlist itw m) of (wants, cancels) \<Rightarrow>
      case getBlockSizes bs s accepted (map (\<lambda>entry. e_Want (me_Entry entry)) wants) of (ok, blockSizes) \<Rightarrow>
        if \<not> ok then e
        else mr_ledger Q p (impl_Full m) blockSizes wants cancels (mr_index p wants cancels e))"

section \<open>Blocks arrive\<close>

definition rf_bytes :: "time \<Rightarrow> peer \<Rightarrow> AuthBlockImpl list \<Rightarrow> 'q Engine \<Rightarrow> 'q Engine" where
  "rf_bytes now from blks e =
     (if from \<noteq> no_peer
      then case findOrCreate from e of (l, e) \<Rightarrow>
             e\<lparr>e_scoreLedger := fold (\<lambda>blk. dsl_AddToReceivedBytes now (l_Partner l) (AuthBlock_Size blk)) blks (e_scoreLedger e)\<rparr>
      else e)"

definition block_sizes :: "AuthBlockImpl list \<Rightarrow> (Want \<rightharpoonup> int)" where
  "block_sizes blks = fold (\<lambda>blk m. m(AuthBlock_Want blk \<mapsto> AuthBlock_Size blk)) blks Map.empty"

definition append_missing :: "peer \<Rightarrow> Want \<Rightarrow> (peer \<rightharpoonup> Want list) \<Rightarrow> (peer \<rightharpoonup> Want list)" where
  "append_missing p w missing = missing(p \<mapsto> (case missing p of None \<Rightarrow> [] | Some ws \<Rightarrow> ws) @ [w])"

definition rf_peer ::
  "'q PeerTaskQueue \<Rightarrow> (Want \<rightharpoonup> int) \<Rightarrow> Want \<Rightarrow> peer \<Rightarrow> 'q Engine \<times> (peer \<rightharpoonup> Want list) \<times> bool
     \<Rightarrow> 'q Engine \<times> (peer \<rightharpoonup> Want list) \<times> bool" where
  "rf_peer Q blockSizes w p st =
     (case st of (e, missingWants, work) \<Rightarrow>
        case e_ledgerMap e p of
          None \<Rightarrow> (e, append_missing p w missingWants, work)
        | Some l \<Rightarrow>
            case ledger_WantListContains w l of
              None \<Rightarrow> (e, append_missing p w missingWants, work)
            | Some entry \<Rightarrow>
                let blockSize = (case blockSizes w of None \<Rightarrow> 0 | Some n \<Rightarrow> n)
                in (e\<lparr>e_peerRequestQueue := ptq_PushTasks Q p [have_task entry blockSize False e] (e_peerRequestQueue e)\<rparr>,
                    missingWants, True))"

definition rf_block ::
  "'q PeerTaskQueue \<Rightarrow> (peer set \<Rightarrow> peer list) \<Rightarrow> (Want \<rightharpoonup> int) \<Rightarrow> AuthBlockImpl \<Rightarrow> 'q Engine \<times> (peer \<rightharpoonup> Want list) \<times> bool
     \<Rightarrow> 'q Engine \<times> (peer \<rightharpoonup> Want list) \<times> bool" where
  "rf_block Q itp blockSizes b st =
     (let w = AuthBlock_Want b
      in fold (rf_peer Q blockSizes w) (peerLedger_Peers itp w (e_peerLedger (fst st))) st)"

definition rf_missing :: "peer \<Rightarrow> Want list \<Rightarrow> 'q Engine \<Rightarrow> 'q Engine" where
  "rf_missing p wl e =
     (case e_ledgerMap e p of
        Some l \<Rightarrow>
          fold (\<lambda>w e. if ledger_WantListContains w l \<noteq> None then e
                      else e\<lparr>e_peerLedger := peerLedger_CancelWant p w (e_peerLedger e)\<rparr>) wl e
      | None \<Rightarrow> fold (\<lambda>w e. e\<lparr>e_peerLedger := peerLedger_CancelWant p w (e_peerLedger e)\<rparr>) wl e)"

definition rf_cleanup :: "(peer set \<Rightarrow> peer list) \<Rightarrow> (peer \<rightharpoonup> Want list) \<Rightarrow> 'q Engine \<Rightarrow> 'q Engine" where
  "rf_cleanup itp missingWants e =
     fold (\<lambda>p e. case missingWants p of None \<Rightarrow> e | Some wl \<Rightarrow> rf_missing p wl e) (itp (dom missingWants)) e"

definition ReceiveFrom ::
  "'q PeerTaskQueue \<Rightarrow> (peer set \<Rightarrow> peer list) \<Rightarrow> time \<Rightarrow> peer \<Rightarrow> AuthBlockImpl list \<Rightarrow> 'q Engine \<Rightarrow> 'q Engine" where
  "ReceiveFrom Q itp now from blks e =
     (if blks = [] then e
      else case fold (rf_block Q itp (block_sizes blks)) blks (rf_bytes now from blks e, Map.empty, False) of
             (e, missingWants, work) \<Rightarrow>
               let e = (if dom missingWants \<noteq> {} then rf_cleanup itp missingWants e else e)
               in if work then signalNewWork e else e)"

section \<open>A message was sent; peers come and go\<close>

definition ms_block :: "time \<Rightarrow> AuthBlockImpl \<Rightarrow> ledger \<times> DefaultScoreLedger \<Rightarrow> ledger \<times> DefaultScoreLedger" where
  "ms_block now block st =
     (case st of (l, sl) \<Rightarrow>
        (l\<lparr>l_wantList := snd (Wantlist_RemoveType (AuthBlock_Want block) Message_Wantlist_Block (l_wantList l))\<rparr>,
         dsl_AddToSentBytes now (l_Partner l) (AuthBlock_Size block) sl))"

definition ms_presence :: "msg_BlockPresence \<Rightarrow> ledger \<Rightarrow> ledger" where
  "ms_presence bp l =
     (if mbp_Type bp = Message_Have
      then l\<lparr>l_wantList := snd (Wantlist_RemoveType (mbp_Want bp) Message_Wantlist_Have (l_wantList l))\<rparr> else l)"

definition MessageSent :: "(Want set \<Rightarrow> Want list) \<Rightarrow> time \<Rightarrow> peer \<Rightarrow> impl \<Rightarrow> 'q Engine \<Rightarrow> 'q Engine" where
  "MessageSent itw now p m e =
     (case findOrCreate p e of (l, e) \<Rightarrow>
        case fold (ms_block now) (impl_Blocks itw m) (l, e_scoreLedger e) of (l, sl) \<Rightarrow>
          set_ledger p (fold ms_presence (impl_BlockPresences itw m) l) (e\<lparr>e_scoreLedger := sl\<rparr>))"

definition engine_PeerConnected :: "peer \<Rightarrow> 'q Engine \<Rightarrow> 'q Engine" where
  "engine_PeerConnected p e =
     (let e = (case e_ledgerMap e p of Some _ \<Rightarrow> e | None \<Rightarrow> set_ledger p (newLedger p) e)
      in e\<lparr>e_scoreLedger := dsl_PeerConnected p (e_scoreLedger e)\<rparr>)"

definition engine_PeerDisconnected :: "(Want set \<Rightarrow> Want list) \<Rightarrow> peer \<Rightarrow> 'q Engine \<Rightarrow> 'q Engine" where
  "engine_PeerDisconnected itw p e =
     (let e = (case e_ledgerMap e p of
                 Some l \<Rightarrow> e\<lparr>e_peerLedger := fold (\<lambda>entry. peerLedger_CancelWant p (e_Want entry)) (ledger_Entries itw l) (e_peerLedger e)\<rparr>
               | None \<Rightarrow> e);
          e = e\<lparr>e_ledgerMap := (e_ledgerMap e)(p := None)\<rparr>
      in e\<lparr>e_scoreLedger := dsl_PeerDisconnected p (e_scoreLedger e)\<rparr>)"

section \<open>The workers\<close>

record Envelope =
  env_Peer :: peer
  env_Message :: impl
  env_tasks :: "Task list"

text \<open>The message for the tasks popped: first the presences and the wants of blocks, then the blocks.\<close>

definition ne_task :: "Task \<Rightarrow> impl \<times> Want list \<times> (Want \<rightharpoonup> taskData) \<Rightarrow> impl \<times> Want list \<times> (Want \<rightharpoonup> taskData)" where
  "ne_task t st =
     (case st of (msg, blockWants, blockTasks) \<Rightarrow>
        let w = t_Topic t; td = t_Data t
        in if td_HaveBlock td
           then if td_IsWantBlock td then (msg, blockWants @ [w], blockTasks(w \<mapsto> td)) else (impl_AddHave w msg, blockWants, blockTasks)
           else (impl_AddDontHave w msg, blockWants, blockTasks))"

definition ne_block :: "(Want \<rightharpoonup> block) \<Rightarrow> (Want \<rightharpoonup> taskData) \<Rightarrow> Want \<Rightarrow> impl \<Rightarrow> impl" where
  "ne_block blks blockTasks c msg =
     (case blockTasks c of
        None \<Rightarrow> msg
      | Some t \<Rightarrow>
          case blks c of
            None \<Rightarrow> if td_SendDontHave t then impl_AddDontHave c msg else msg
          | Some blk \<Rightarrow> impl_AddBlock blk (want_Auth c) msg)"

definition ne_message ::
  "(Want set \<Rightarrow> Want list) \<Rightarrow> 's AuthedBlockstore \<Rightarrow> 's \<Rightarrow> nat option \<Rightarrow> peer \<Rightarrow> Task list \<Rightarrow> int \<Rightarrow> impl option" where
  "ne_message itw bs s accepted p nextTasks pendingBytes =
     (let msg = impl_SetPendingBytes (of_int pendingBytes) (newMsg False)
      in case fold ne_task nextTasks (msg, [], Map.empty) of (msg, blockWants, blockTasks) \<Rightarrow>
         case getBlocks bs s accepted blockWants p of (ok, blks) \<Rightarrow>
           if \<not> ok then None else Some (fold (ne_block blks blockTasks) (itw (dom blockTasks)) msg))"

text \<open>What a worker that waits for tasks is woken by, and what a call of \<^verbatim>\<open>nextEnvelope\<close> comes to: an envelope, the error of a
cancelled context or closed pool, still waiting when nothing else happens, or still running when the given number of rounds is
used up. The store may differ from round to round.\<close>

datatype wake = CtxDone | WorkSignal | Tick

datatype next_result = Next Envelope | NextError | NextWaiting | NextRunning

fun nextEnvelope ::
  "'q PeerTaskQueue \<Rightarrow> (Want set \<Rightarrow> Want list) \<Rightarrow> 's AuthedBlockstore \<Rightarrow> (nat \<Rightarrow> 's \<times> nat option) \<Rightarrow> nat \<Rightarrow> wake list \<Rightarrow> 'q Engine
     \<Rightarrow> next_result \<times> 'q Engine" where
  "nextEnvelope Q itw bs store 0 wakes e = (NextRunning, e)"
| "nextEnvelope Q itw bs store (Suc n) wakes e =
     (case ptq_PopTasks Q targetMessageSize (e_peerRequestQueue e) of ((p, nextTasks, pendingBytes), q) \<Rightarrow>
        let e = e\<lparr>e_peerRequestQueue := q\<rparr>
        in if nextTasks = []
           then (case wakes of
                   [] \<Rightarrow> (NextWaiting, e)
                 | CtxDone # wakes \<Rightarrow> (NextError, e)
                 | WorkSignal # wakes \<Rightarrow> nextEnvelope Q itw bs store n wakes (e\<lparr>e_workSignal := False\<rparr>)
                 | Tick # wakes \<Rightarrow> nextEnvelope Q itw bs store n wakes (e\<lparr>e_peerRequestQueue := ptq_ThawRound Q q\<rparr>))
           else case ne_message itw bs (fst (store n)) (snd (store n)) p nextTasks pendingBytes of
                  None \<Rightarrow> (NextError, e)
                | Some msg \<Rightarrow>
                    if impl_Empty msg
                    then nextEnvelope Q itw bs store n wakes (e\<lparr>e_peerRequestQueue := ptq_TasksDone Q p nextTasks q\<rparr>)
                    else (Next \<lparr>env_Peer = p, env_Message = msg, env_tasks = nextTasks\<rparr>, e))"

text \<open>The function \<^verbatim>\<open>Sent\<close> of an envelope.\<close>

definition Envelope_Sent :: "'q PeerTaskQueue \<Rightarrow> Envelope \<Rightarrow> 'q Engine \<Rightarrow> 'q Engine" where
  "Envelope_Sent Q env e =
     signalNewWork (e\<lparr>e_peerRequestQueue := ptq_TasksDone Q (env_Peer env) (env_tasks env) (e_peerRequestQueue e)\<rparr>)"

definition taskWorkerExit :: "'q Engine \<Rightarrow> 'q Engine" where
  "taskWorkerExit e =
     (let e = e\<lparr>e_taskWorkerCount := e_taskWorkerCount e - 1\<rparr>
      in if e_taskWorkerCount e = 0 then e\<lparr>e_outboxClosed := True\<rparr> else e)"

section \<open>What an envelope holds\<close>

lemma AddHave_sel [simp]:
  "im_blocks (impl_AddBlockPresence c t m) = im_blocks m" "im_wantlist (impl_AddBlockPresence c t m) = im_wantlist m"
  by (simp_all add: impl_AddBlockPresence_def split: option.splits)

definition sends_block :: "Task \<Rightarrow> bool" where
  "sends_block t \<longleftrightarrow> td_HaveBlock (t_Data t) \<and> td_IsWantBlock (t_Data t)"

lemma ne_task_sel:
  "fst (ne_task t st) = (if sends_block t then fst st
     else impl_AddBlockPresence (t_Topic t) (if td_HaveBlock (t_Data t) then Message_Have else Message_DontHave) (fst st))"
  "fst (snd (ne_task t st)) = fst (snd st) @ (if sends_block t then [t_Topic t] else [])"
  "snd (snd (ne_task t st)) = (if sends_block t then (snd (snd st))(t_Topic t \<mapsto> t_Data t) else snd (snd st))"
  by (simp_all add: ne_task_def sends_block_def Let_def split_beta impl_AddHave_def impl_AddDontHave_def)

lemma ne_tasks_msg:
  "im_blocks (fst (fold ne_task ts st)) = im_blocks (fst st)" "im_wantlist (fst (fold ne_task ts st)) = im_wantlist (fst st)"
  by (induction ts arbitrary: st) (simp_all add: ne_task_sel)

lemma ne_tasks_wants:
  "set (fst (snd (fold ne_task ts st))) = set (fst (snd st)) \<union> t_Topic ` {t \<in> set ts. sends_block t}"
  "dom (snd (snd (fold ne_task ts st))) = dom (snd (snd st)) \<union> t_Topic ` {t \<in> set ts. sends_block t}"
  by (induction ts arbitrary: st) (auto simp: ne_task_sel)

lemma ne_tasks_data:
  "snd (snd (fold ne_task ts st)) c = Some td \<Longrightarrow>
     snd (snd st) c = Some td \<or> (\<exists>t \<in> set ts. t_Topic t = c \<and> t_Data t = td \<and> sends_block t)"
  by (induction ts arbitrary: st) (fastforce simp: ne_task_sel split: if_splits)+

lemma presence_upd:
  "im_blockPresences (impl_AddBlockPresence c t m) d = Some x \<Longrightarrow> im_blockPresences m d = Some x \<or> d = c \<and> x = t"
  by (auto simp: impl_AddBlockPresence_def split: option.splits if_splits)

lemma ne_tasks_presence:
  "im_blockPresences (fst (fold ne_task ts st)) c = Some x \<Longrightarrow> im_blockPresences (fst st) c = Some x \<or>
     (\<exists>t \<in> set ts. t_Topic t = c \<and> \<not> sends_block t \<and> x = (if td_HaveBlock (t_Data t) then Message_Have else Message_DontHave))"
proof (induction ts arbitrary: st)
  case (Cons t ts)
  from Cons.IH [of "ne_task t st"] Cons.prems
  consider "im_blockPresences (fst (ne_task t st)) c = Some x" |
    "\<exists>t \<in> set ts. t_Topic t = c \<and> \<not> sends_block t \<and> x = (if td_HaveBlock (t_Data t) then Message_Have else Message_DontHave)" by auto
  then show ?case by cases (auto simp: ne_task_sel split: if_splits dest!: presence_upd)
qed simp

lemma ne_block_blocks:
  "im_blocks (ne_block blks bt c m) w = Some b \<Longrightarrow>
     im_blocks m w = Some b \<or> c \<in> dom bt \<and> (\<exists>blk. blks c = Some blk \<and> b = NewBlock blk (want_Auth c))"
  by (auto simp: ne_block_def impl_AddDontHave_def AddBlock_eq split: option.splits if_splits)

lemma ne_blocks:
  "im_blocks (fold (ne_block blks bt) cs m) w = Some b \<Longrightarrow>
     im_blocks m w = Some b \<or> (\<exists>c \<in> set cs \<inter> dom bt. \<exists>blk. blks c = Some blk \<and> b = NewBlock blk (want_Auth c))"
proof (induction cs arbitrary: m)
  case (Cons c cs)
  from Cons.IH [of "ne_block blks bt c m"] Cons.prems show ?case by (auto dest!: ne_block_blocks)
qed simp

lemma ne_block_presence:
  "im_blockPresences (ne_block blks bt c m) w = Some x \<Longrightarrow>
     im_blockPresences m w = Some x \<or> w = c \<and> x = Message_DontHave \<and> blks c = None \<and> (\<exists>td. bt c = Some td \<and> td_SendDontHave td)"
  by (auto simp: ne_block_def impl_AddDontHave_def AddBlock_eq split: option.splits if_splits dest!: presence_upd)

lemma ne_blocks_presence:
  "im_blockPresences (fold (ne_block blks bt) cs m) w = Some x \<Longrightarrow>
     im_blockPresences m w = Some x \<or> x = Message_DontHave \<and> blks w = None \<and> (\<exists>td. bt w = Some td \<and> td_SendDontHave td)"
proof (induction cs arbitrary: m)
  case (Cons c cs)
  from Cons.IH [of "ne_block blks bt c m"] Cons.prems show ?case by (auto dest!: ne_block_presence)
qed simp

text \<open>What the message for a list of tasks holds: blocks that the blockstore gives to the peer for a task that sends a block, and
presences for the other tasks and for blocks that it does not give.\<close>

lemma ne_message_holds:
  assumes "ne_message itw bs s accepted p ts n = Some m"
  shows "im_blocks m w = Some b \<Longrightarrow>
      \<exists>t \<in> set ts. sends_block t \<and> block_for bs s p (t_Topic t) = Some (ab_block b) \<and> b = NewBlock (ab_block b) (want_Auth (t_Topic t))"
    and "im_blockPresences m w = Some x \<Longrightarrow> \<exists>t \<in> set ts. t_Topic t = w \<and>
      (if sends_block t then x = Message_DontHave \<and> td_SendDontHave (t_Data t) \<and> block_for bs s p w = None
       else x = (if td_HaveBlock (t_Data t) then Message_Have else Message_DontHave))"
proof -
  let ?m0 = "impl_SetPendingBytes (of_int n) (newMsg False)"
  let ?st = "fold ne_task ts (?m0, [], Map.empty)"
  obtain m1 ws bt where st: "?st = (m1, ws, bt)" by (metis prod_cases3)
  obtain ok blks where g: "getBlocks bs s accepted ws p = (ok, blks)" by force
  have ok: "ok" and m: "m = fold (ne_block blks bt) (itw (dom bt)) m1"
    using assms by (simp_all add: ne_message_def st g split: if_splits)
  have m0: "im_blocks ?m0 = Map.empty" "im_blockPresences ?m0 = Map.empty" by (simp_all add: impl_SetPendingBytes_def newMsg_def)
  have dom: "dom bt = t_Topic ` {t \<in> set ts. sends_block t}" "set ws = t_Topic ` {t \<in> set ts. sends_block t}"
    using ne_tasks_wants [of ts "(?m0, [], Map.empty)"] by (simp_all add: st)
  have blks: "blks c = (if c \<in> set ws then block_for bs s p c else None)" for c
    using getBlocks_ok [of bs s accepted ws p c] g ok by simp
  show "\<exists>t \<in> set ts. sends_block t \<and> block_for bs s p (t_Topic t) = Some (ab_block b) \<and> b = NewBlock (ab_block b) (want_Auth (t_Topic t))"
    if "im_blocks m w = Some b"
  proof -
    have "im_blocks m1 = Map.empty" using ne_tasks_msg(1) [of ts "(?m0, [], Map.empty)"] m0 by (simp add: st)
    with ne_blocks [of blks bt "itw (dom bt)" m1 w b] that
    obtain c blk where c: "c \<in> dom bt" "blks c = Some blk" "b = NewBlock blk (want_Auth c)" by (auto simp: m)
    then show ?thesis using dom blks [of c] by (auto split: if_splits)
  qed
  show "\<exists>t \<in> set ts. t_Topic t = w \<and>
      (if sends_block t then x = Message_DontHave \<and> td_SendDontHave (t_Data t) \<and> block_for bs s p w = None
       else x = (if td_HaveBlock (t_Data t) then Message_Have else Message_DontHave))" if "im_blockPresences m w = Some x"
  proof -
    from ne_blocks_presence [of blks bt "itw (dom bt)" m1 w x] that
    consider "im_blockPresences m1 w = Some x" | "x = Message_DontHave" "blks w = None" "\<exists>td. bt w = Some td \<and> td_SendDontHave td"
      by (auto simp: m)
    then show ?thesis
    proof cases
      case 1
      then have "\<exists>t \<in> set ts. t_Topic t = w \<and> \<not> sends_block t \<and> x = (if td_HaveBlock (t_Data t) then Message_Have else Message_DontHave)"
        using ne_tasks_presence [of ts "(?m0, [], Map.empty)" w x] m0(2) unfolding st by simp
      then obtain t where "t \<in> set ts" "t_Topic t = w" "\<not> sends_block t"
        "x = (if td_HaveBlock (t_Data t) then Message_Have else Message_DontHave)" by blast
      then show ?thesis by (intro bexI [of _ t]) simp_all
    next
      case 2
      then obtain td where td: "bt w = Some td" "td_SendDontHave td" by blast
      then obtain t where t: "t \<in> set ts" "t_Topic t = w" "t_Data t = td" "sends_block t"
        using ne_tasks_data [of ts "(?m0, [], Map.empty)" w td] by (auto simp: st)
      moreover have "block_for bs s p w = None" using 2(2) blks [of w] t dom(2) by (auto split: if_splits)
      ultimately show ?thesis using 2(1) td by auto
    qed
  qed
qed

lemma nextEnvelope_message:
  assumes "nextEnvelope Q itw bs store n wakes e = (Next env, e')"
  shows "\<exists>k pb. ne_message itw bs (fst (store k)) (snd (store k)) (env_Peer env) (env_tasks env) pb = Some (env_Message env) \<and>
    \<not> impl_Empty (env_Message env)"
  using assms
proof (induction n arbitrary: wakes e)
  case (Suc n)
  obtain p ts pb q where pop: "ptq_PopTasks Q targetMessageSize (e_peerRequestQueue e) = ((p, ts, pb), q)" by (metis prod_cases3 surj_pair)
  note u = Suc.prems [unfolded nextEnvelope.simps pop prod.case Let_def]
  show ?case
  proof (cases "ts = []")
    case True
    then show ?thesis using u Suc.IH by (auto split: list.splits wake.splits)
  next
    case False
    then obtain msg where msg: "ne_message itw bs (fst (store n)) (snd (store n)) p ts pb = Some msg"
      using u by (auto split: option.splits)
    show ?thesis
    proof (cases "impl_Empty msg")
      case True
      then show ?thesis using u Suc.IH False by (auto simp: msg)
    next
      case ne: False
      then have "env = \<lparr>env_Peer = p, env_Message = msg, env_tasks = ts\<rparr>" using u False by (simp add: msg)
      then show ?thesis using msg ne by (intro exI [of _ n] exI [of _ pb]) simp
    qed
  qed
qed simp

text \<open>C1. The engine hands out no block without authorisation: every block in an envelope for a peer answers a want of a task that
was queued for that peer, carries the authorisation of that want, is the block in the store under the want's cid, and the
blockstore's \<^verbatim>\<open>allow\<close> accepted that authorisation of that peer for its data. This holds whatever the queue of tasks does.\<close>

theorem envelope_authorised:
  assumes "nextEnvelope Q itw bs store n wakes e = (Next env, e')"
  shows "\<forall>b \<in> ran (im_blocks (env_Message env)). \<exists>t \<in> set (env_tasks env). \<exists>k.
    ab_want b = Want (block_Cid (ab_block b)) (want_Auth (t_Topic t)) \<and>
    src_stored bs (fst (store k)) (want_Cid (t_Topic t)) (ab_block b) \<and>
    bs_allow bs (want_Cid (t_Topic t)) (block_RawData (ab_block b)) (env_Peer env) (want_Auth (t_Topic t))"
proof
  fix b
  assume "b \<in> ran (im_blocks (env_Message env))"
  then obtain w where w: "im_blocks (env_Message env) w = Some b" by (auto simp: ran_def)
  obtain k pb where m: "ne_message itw bs (fst (store k)) (snd (store k)) (env_Peer env) (env_tasks env) pb = Some (env_Message env)"
    using nextEnvelope_message [OF assms] by blast
  obtain t where t: "t \<in> set (env_tasks env)" "block_for bs (fst (store k)) (env_Peer env) (t_Topic t) = Some (ab_block b)"
    "b = NewBlock (ab_block b) (want_Auth (t_Topic t))"
    using ne_message_holds(1) [OF m w] by blast
  have "ab_want b = Want (block_Cid (ab_block b)) (want_Auth (t_Topic t))" by (subst t(3)) (simp add: NewBlock_def NewWant_def)
  with t(1) block_for_allowed [OF t(2)]
  show "\<exists>t \<in> set (env_tasks env). \<exists>k. ab_want b = Want (block_Cid (ab_block b)) (want_Auth (t_Topic t)) \<and>
    src_stored bs (fst (store k)) (want_Cid (t_Topic t)) (ab_block b) \<and>
    bs_allow bs (want_Cid (t_Topic t)) (block_RawData (ab_block b)) (env_Peer env) (want_Auth (t_Topic t))" by blast
qed

text \<open>A queue that keeps the lists of tasks in the order in which they were pushed, and a store of one block that one authorisation
opens.\<close>

definition list_queue :: "(peer \<times> Task list) list PeerTaskQueue" where
  "list_queue =
     \<lparr>ptq_PushTasks = (\<lambda>p ts q. q @ [(p, ts)]),
      ptq_PopTasks = (\<lambda>n q. case q of [] \<Rightarrow> (([], [], 0), []) | (p, ts) # q \<Rightarrow> ((p, ts, 0), q)),
      ptq_Remove = (\<lambda>w p q. map (\<lambda>(p', ts). (p', if p' = p then filter (\<lambda>t. t_Topic t \<noteq> w) ts else ts)) q),
      ptq_TasksDone = (\<lambda>p ts q. q), ptq_ThawRound = (\<lambda>q. q)\<rparr>"

definition ex_block :: block where
  "ex_block = \<lparr>block_Cid = ''c'', block_RawData = [1, 2]\<rparr>"

definition ex_bs :: "unit AuthedBlockstore" where
  "ex_bs =
     \<lparr>bs_source =
        \<lparr>src_Has = (\<lambda>c s. Inr (c = ''c'')), src_Get = (\<lambda>c s. if c = ''c'' then Inr ex_block else Inl ErrNotFound),
         src_GetSize = (\<lambda>c s. if c = ''c'' then Inr 2 else Inl ErrNotFound),
         src_Put = (\<lambda>b s. (None, s)), src_PutMany = (\<lambda>bs s. (None, s)), src_DeleteBlock = (\<lambda>c s. (None, s)),
         src_BloomAdd = (\<lambda>c s. (None, s)), src_AllKeys = (\<lambda>s. Inr [''c'']), src_HashOnRead = (\<lambda>b s. s)\<rparr>,
      bs_allow = (\<lambda>c d p a. a = ''key'')\<rparr>"

definition ex_task :: "string \<Rightarrow> Task" where
  "ex_task a = \<lparr>t_Topic = Want ''c'' a, t_Priority = 1, t_Work = 2,
     t_Data = \<lparr>td_Auth = [], td_IsWantBlock = True, td_SendDontHave = True, td_BlockSize = 2, td_HaveBlock = True\<rparr>\<rparr>"

definition ex_envelope :: "string \<Rightarrow> next_result" where
  "ex_envelope a = fst (nextEnvelope list_queue sorted_list_of_set ex_bs (\<lambda>_. ((), None)) 1 []
     ((NewEngine 8 ''self'' [])\<lparr>e_peerRequestQueue := [(''p'', [ex_task a])]\<rparr>))"

lemma ex_getBlocks:
  "getBlocks ex_bs s None [Want ''c'' a] p = (True, if a = ''key'' then [Want ''c'' a \<mapsto> ex_block] else Map.empty)"
  by (simp add: getBlocks_def jobPerKey_def block_job_def AuthedBlockstore_Get_def ex_bs_def)

lemma ex_message:
  "ne_message sorted_list_of_set ex_bs s None p [ex_task a] 0 =
     Some ((if a = ''key'' then impl_AddBlock ex_block a else impl_AddDontHave (Want ''c'' a)) (newMsg False))"
proof -
  have n: "impl_SetPendingBytes 0 (newMsg False) = newMsg False" by (simp add: impl_SetPendingBytes_def newMsg_def)
  have t: "ne_task (ex_task a) (m, [], Map.empty) = (m, [Want ''c'' a], [Want ''c'' a \<mapsto> t_Data (ex_task a)])" for m
    by (simp add: ne_task_def ex_task_def Let_def)
  have d: "td_SendDontHave (t_Data (ex_task a))" by (simp add: ex_task_def)
  show ?thesis by (simp add: ne_message_def n t ex_getBlocks ne_block_def d)
qed

lemma ex_envelope_eq:
  "ex_envelope a = Next \<lparr>env_Peer = ''p'',
     env_Message = (if a = ''key'' then impl_AddBlock ex_block a else impl_AddDontHave (Want ''c'' a)) (newMsg False),
     env_tasks = [ex_task a]\<rparr>"
proof -
  have "\<not> impl_Empty ((if a = ''key'' then impl_AddBlock ex_block a else impl_AddDontHave (Want ''c'' a)) (newMsg False))"
    by (simp add: impl_Empty_def AddBlock_eq impl_AddDontHave_def impl_AddBlockPresence_def newMsg_def)
  then show ?thesis by (simp add: ex_envelope_def list_queue_def ex_message)
qed

theorem envelope_authorised_witness:
  "ex_envelope ''no key'' = Next \<lparr>env_Peer = ''p'',
     env_Message = impl_AddDontHave (Want ''c'' ''no key'') (newMsg False), env_tasks = [ex_task ''no key'']\<rparr> \<and>
   (\<exists>env b. ex_envelope ''key'' = Next env \<and> im_blocks (env_Message env) (Want ''c'' ''key'') = Some b \<and>
     bs_allow ex_bs ''c'' (block_RawData (ab_block b)) (env_Peer env) ''key'')"
proof -
  let ?env = "\<lparr>env_Peer = ''p'', env_Message = impl_AddBlock ex_block ''key'' (newMsg False), env_tasks = [ex_task ''key'']\<rparr>"
  let ?b = "NewBlock ex_block ''key''"
  let ?run = "nextEnvelope list_queue sorted_list_of_set ex_bs (\<lambda>_. ((), None)) 1 []
     ((NewEngine 8 ''self'' [])\<lparr>e_peerRequestQueue := [(''p'', [ex_task ''key''])]\<rparr>)"
  have "fst ?run = Next ?env" using ex_envelope_eq [of "''key''"] unfolding ex_envelope_def by (simp only: if_True simp_thms)
  then have run: "?run = (Next ?env, snd ?run)" by (metis prod.collapse)
  have b: "im_blocks (env_Message ?env) (Want ''c'' ''key'') = Some ?b" by (simp add: AddBlock_eq newMsg_def ex_block_def)
  then have "?b \<in> ran (im_blocks (env_Message ?env))" by (rule ranI)
  from bspec [OF envelope_authorised [OF run] this] have "bs_allow ex_bs ''c'' (block_RawData (ab_block ?b)) (env_Peer ?env) ''key''"
    by (simp add: ex_task_def)
  then have "\<exists>env b. ex_envelope ''key'' = Next env \<and> im_blocks (env_Message env) (Want ''c'' ''key'') = Some b \<and>
     bs_allow ex_bs ''c'' (block_RawData (ab_block b)) (env_Peer env) ''key''"
    using b by (intro exI [of _ ?env] exI [of _ ?b] conjI) (simp_all add: ex_envelope_eq)
  then show ?thesis by (simp add: ex_envelope_eq)
qed

end
