(* ===== verification/EngineSpec.thy ===== *)
theory EngineSpec
  imports Engine
begin

text \<open>
  What the decision engine (\<^verbatim>\<open>internal/decision/engine.go\<close>) promises: every want in the ledger of a peer is in the index by
  which arriving blocks find the peers that wait for them; a message changes the ledger and the queue as it asks; an arriving
  block is queued for every peer whose ledger holds it; envelopes only answer what the peer has asked for; and a worker that
  looks for an envelope ends or waits.
\<close>

section \<open>The index of the ledgers\<close>

lemma splitWantsCancels_eq: "splitWantsCancels es = (filter (\<lambda>et. \<not> me_Cancel et) es, filter me_Cancel es)"
proof -
  have "fold (\<lambda>et (wants, cancels). if me_Cancel et then (wants, cancels @ [et]) else (wants @ [et], cancels)) es (a, b) =
      (a @ filter (\<lambda>et. \<not> me_Cancel et) es, b @ filter me_Cancel es)" for a b
    by (induction es arbitrary: a b) auto
  then show ?thesis by (simp add: splitWantsCancels_def)
qed

definition eng_inv :: "'q Engine \<Rightarrow> bool" where
  "eng_inv e \<longleftrightarrow> pl_wf (e_peerLedger e) \<and>
     (\<forall>p l. e_ledgerMap e p = Some l \<longrightarrow>
        l_Partner l = p \<and> Wantlist_wf (l_wantList l) \<and> (\<forall>w \<in> dom (l_wantList l). p \<in> lookup_set (e_peerLedger e) w))"

definition ledger_ok :: "peer \<Rightarrow> peerLedger \<Rightarrow> ledger \<Rightarrow> bool" where
  "ledger_ok p pl l \<longleftrightarrow> l_Partner l = p \<and> Wantlist_wf (l_wantList l) \<and> (\<forall>w \<in> dom (l_wantList l). p \<in> lookup_set pl w)"

lemma eng_inv_alt: "eng_inv e \<longleftrightarrow> pl_wf (e_peerLedger e) \<and> (\<forall>p l. e_ledgerMap e p = Some l \<longrightarrow> ledger_ok p (e_peerLedger e) l)"
  by (auto simp: eng_inv_def ledger_ok_def)

lemma ledger_ok_new [simp]: "ledger_ok p pl (newLedger p)"
  by (simp add: ledger_ok_def newLedger_def Wantlist_New_def Wantlist_wf_def)

lemma findOrCreate_sel:
  "e_ledgerMap (snd (findOrCreate p e)) = (e_ledgerMap e)(p \<mapsto> fst (findOrCreate p e))"
  "fst (findOrCreate p e) = (case e_ledgerMap e p of Some l \<Rightarrow> l | None \<Rightarrow> newLedger p)"
  "e_peerLedger (snd (findOrCreate p e)) = e_peerLedger e" "e_peerRequestQueue (snd (findOrCreate p e)) = e_peerRequestQueue e"
  "e_scoreLedger (snd (findOrCreate p e)) = e_scoreLedger e" "e_workSignal (snd (findOrCreate p e)) = e_workSignal e"
  "e_sendDontHaves (snd (findOrCreate p e)) = e_sendDontHaves e"
  "e_maxBlockSizeReplaceHasWithBlock (snd (findOrCreate p e)) = e_maxBlockSizeReplaceHasWithBlock e"
  by (auto simp: findOrCreate_def Let_def split: option.splits)

lemma findOrCreate_ok: "eng_inv e \<Longrightarrow> ledger_ok p (e_peerLedger e) (fst (findOrCreate p e))"
  by (simp add: findOrCreate_sel eng_inv_alt split: option.splits)

lemma findOrCreate_inv: "eng_inv e \<Longrightarrow> eng_inv (snd (findOrCreate p e))"
  using findOrCreate_ok [of e p] by (auto simp: eng_inv_alt findOrCreate_sel(1,3))

lemma eng_inv_set_ledger: "eng_inv e \<Longrightarrow> ledger_ok p (e_peerLedger e) l \<Longrightarrow> eng_inv (set_ledger p l e)"
  by (simp add: eng_inv_alt set_ledger_def)

lemma eng_inv_cong:
  "e_peerLedger e' = e_peerLedger e \<Longrightarrow> e_ledgerMap e' = e_ledgerMap e \<Longrightarrow> eng_inv e' = eng_inv e"
  by (simp add: eng_inv_alt)

text \<open>A message arrives.\<close>

lemma mr_cancel_sel:
  "fst (mr_cancel Q p entry st) = snd (ledger_CancelWant (e_Want (me_Entry entry)) (fst st))"
  by (simp add: mr_cancel_def split_beta)

lemma CancelWant_sel [simp]:
  "l_Partner (snd (ledger_CancelWant w l)) = l_Partner l"
  "l_wantList (snd (ledger_CancelWant w l)) = (l_wantList l)(w := None)"
  by (auto simp: ledger_CancelWant_def Wantlist_Remove_def split: prod.splits option.splits)

lemma mr_cancels_ledger:
  "l_Partner (fst (fold (mr_cancel Q p) cs st)) = l_Partner (fst st)"
  "l_wantList (fst (fold (mr_cancel Q p) cs st)) = l_wantList (fst st) |` (- (\<lambda>en. e_Want (me_Entry en)) ` set cs)"
  by (induction cs arbitrary: st) (auto simp: mr_cancel_sel restrict_map_def fun_eq_iff)

lemma ledger_Wants_sel [simp]:
  "l_Partner (ledger_Wants w pr t l) = l_Partner l" "l_wantList (ledger_Wants w pr t l) = snd (Wantlist_Add w pr t (l_wantList l))"
  by (simp_all add: ledger_Wants_def)

lemma mr_want_ledger:
  "fst (mr_want sizes e entry st) =
     ledger_Wants (e_Want (me_Entry entry)) (e_Priority (me_Entry entry)) (e_WantType (me_Entry entry)) (fst st)"
  by (simp add: mr_want_def split_beta Let_def split: option.splits)

lemma dom_Wantlist_Add': "dom (snd (Wantlist_Add c p t w)) = insert c (dom w)"
  using wl.members_add [of c p t w] by (simp add: members_Wantlist)

lemma mr_wants_ledger:
  "l_Partner (fst (fold (mr_want sizes e) es st)) = l_Partner (fst st)"
  "Wantlist_wf (l_wantList (fst st)) \<Longrightarrow> Wantlist_wf (l_wantList (fst (fold (mr_want sizes e) es st)))"
  "dom (l_wantList (fst (fold (mr_want sizes e) es st))) = dom (l_wantList (fst st)) \<union> (\<lambda>en. e_Want (me_Entry en)) ` set es"
  by (induction es arbitrary: st) (simp_all add: mr_want_ledger Wantlist_wf_Add dom_Wantlist_Add')

definition wants_of :: "msg_Entry list \<Rightarrow> Want set" where
  "wants_of es = (\<lambda>en. e_Want (me_Entry en)) ` set es"

lemma mr_index_sel:
  "lookup_set (e_peerLedger (mr_index p ws cs e)) w =
     (if w \<in> wants_of cs then (if w \<in> wants_of ws then insert p (lookup_set (e_peerLedger e) w) else lookup_set (e_peerLedger e) w) - {p}
      else if w \<in> wants_of ws then insert p (lookup_set (e_peerLedger e) w) else lookup_set (e_peerLedger e) w)"
  "pl_wf (e_peerLedger e) \<Longrightarrow> pl_wf (e_peerLedger (mr_index p ws cs e))"
  "e_ledgerMap (mr_index p ws cs e) = e_ledgerMap e" "e_peerRequestQueue (mr_index p ws cs e) = e_peerRequestQueue e"
  "e_sendDontHaves (mr_index p ws cs e) = e_sendDontHaves e" "e_workSignal (mr_index p ws cs e) = e_workSignal e"
  "e_maxBlockSizeReplaceHasWithBlock (mr_index p ws cs e) = e_maxBlockSizeReplaceHasWithBlock e"
proof -
  have f: "fold (\<lambda>entry. peerLedger_Wants p (e_Want (me_Entry entry))) es pl =
      fold (\<lambda>k. peerLedger_Wants p k) (map (\<lambda>en. e_Want (me_Entry en)) es) pl"
    "fold (\<lambda>entry. peerLedger_CancelWant p (e_Want (me_Entry entry))) es pl =
      fold (\<lambda>k. peerLedger_CancelWant p k) (map (\<lambda>en. e_Want (me_Entry en)) es) pl" for es :: "msg_Entry list" and pl
    by (simp_all add: fold_map comp_def)
  show "lookup_set (e_peerLedger (mr_index p ws cs e)) w =
     (if w \<in> wants_of cs then (if w \<in> wants_of ws then insert p (lookup_set (e_peerLedger e) w) else lookup_set (e_peerLedger e) w) - {p}
      else if w \<in> wants_of ws then insert p (lookup_set (e_peerLedger e) w) else lookup_set (e_peerLedger e) w)"
    by (simp add: mr_index_def Let_def f
        plx.members_add_list plx.members_remove_list wants_of_def)
  show "pl_wf (e_peerLedger e) \<Longrightarrow> pl_wf (e_peerLedger (mr_index p ws cs e))"
    by (simp add: mr_index_def Let_def f
        plx.invar_add_list plx.invar_remove_list)
qed (simp_all add: mr_index_def Let_def)

text \<open>The tasks that a message leads to.\<close>

definition mr_task :: "(Want \<rightharpoonup> int) \<Rightarrow> 'q Engine \<Rightarrow> msg_Entry \<Rightarrow> Task option" where
  "mr_task sizes e en =
     (case sizes (e_Want (me_Entry en)) of
        None \<Rightarrow> if e_sendDontHaves e \<and> me_SendDontHave en then Some (dont_have_task en) else None
      | Some n \<Rightarrow> Some (have_task (me_Entry en) n (me_SendDontHave en) e))"

lemma mr_want_tasks:
  "fst (snd (mr_want sizes e en st)) = fst (snd st) @ (case mr_task sizes e en of None \<Rightarrow> [] | Some t \<Rightarrow> [t])"
  "snd (snd (mr_want sizes e en st)) \<longleftrightarrow> snd (snd st) \<or> mr_task sizes e en \<noteq> None"
  by (auto simp: mr_want_def mr_task_def split_beta Let_def split: option.splits)

lemma mr_wants_tasks:
  "fst (snd (fold (mr_want sizes e) es st)) = fst (snd st) @ List.map_filter (mr_task sizes e) es"
  "snd (snd (fold (mr_want sizes e) es st)) \<longleftrightarrow> snd (snd st) \<or> List.map_filter (mr_task sizes e) es \<noteq> []"
  by (induction es arbitrary: st) (auto simp: mr_want_tasks List.map_filter_def split: option.splits)

lemma mr_task_cong:
  "e_sendDontHaves e' = e_sendDontHaves e \<Longrightarrow> e_maxBlockSizeReplaceHasWithBlock e' = e_maxBlockSizeReplaceHasWithBlock e \<Longrightarrow>
     mr_task sizes e' = mr_task sizes e"
  by (auto simp: fun_eq_iff mr_task_def have_task_def sendAsBlock_def Let_def split: option.splits)

lemma mr_cancels_queue:
  assumes "distinct (map (\<lambda>en. e_Want (me_Entry en)) cs)"
  shows "snd (fold (mr_cancel Q p) cs st) =
    fold (\<lambda>w. ptq_Remove Q w p) (filter (\<lambda>w. w \<in> dom (l_wantList (fst st))) (map (\<lambda>en. e_Want (me_Entry en)) cs)) (snd st)"
  using assms
proof (induction cs arbitrary: st)
  case (Cons c cs)
  let ?w = "e_Want (me_Entry c)"
  have l: "l_wantList (fst (mr_cancel Q p c st)) = (l_wantList (fst st))(?w := None)" by (simp add: mr_cancel_sel)
  have q: "snd (mr_cancel Q p c st) = (if ?w \<in> dom (l_wantList (fst st)) then ptq_Remove Q ?w p (snd st) else snd st)"
    by (auto simp: mr_cancel_def ledger_CancelWant_def Wantlist_Remove_def split_beta split: option.splits)
  have f: "filter (\<lambda>w. w \<in> dom (l_wantList (fst (mr_cancel Q p c st)))) (map (\<lambda>en. e_Want (me_Entry en)) cs) =
      filter (\<lambda>w. w \<in> dom (l_wantList (fst st))) (map (\<lambda>en. e_Want (me_Entry en)) cs)"
    using Cons.prems by (intro filter_cong) (auto simp: l image_iff dest: sym)
  show ?case using Cons.IH [of "mr_cancel Q p c st"] Cons.prems by (simp add: f q)
qed simp

definition ledger_start :: "bool \<Rightarrow> peer \<Rightarrow> 'q Engine \<Rightarrow> ledger" where
  "ledger_start full p e =
     (let l = fst (findOrCreate p e) in if full then l\<lparr>l_wantList := Wantlist_New\<rparr> else l)"

lemma mr_ledger_eq:
  fixes e :: "'q Engine"
  defines "lc \<equiv> \<lambda>Q p full cs. fold (mr_cancel Q p) cs (ledger_start full p e, e_peerRequestQueue e)"
  shows "e_ledgerMap (mr_ledger Q p full sizes ws cs e) =
      (e_ledgerMap e)(p \<mapsto> fst (fold (mr_want sizes e) ws (fst (lc Q p full cs), [], False)))" (is ?ledger)
    and "e_peerLedger (mr_ledger Q p full sizes ws cs e) = e_peerLedger e" (is ?index)
    and "e_peerRequestQueue (mr_ledger Q p full sizes ws cs e) =
      (let ts = List.map_filter (mr_task sizes e) ws in if ts = [] then snd (lc Q p full cs) else ptq_PushTasks Q p ts (snd (lc Q p full cs)))"
      (is ?queue)
    and "e_workSignal (mr_ledger Q p full sizes ws cs e) \<longleftrightarrow> e_workSignal e \<or> List.map_filter (mr_task sizes e) ws \<noteq> []" (is ?signal)
    and "e_scoreLedger (mr_ledger Q p full sizes ws cs e) = e_scoreLedger e" (is ?score)
proof -
  obtain l e1 where f: "findOrCreate p e = (l, e1)" by force
  have l: "l = fst (findOrCreate p e)" by (simp add: f)
  have e1: "e_ledgerMap e1 = (e_ledgerMap e)(p \<mapsto> l)" "e_peerLedger e1 = e_peerLedger e" "e_peerRequestQueue e1 = e_peerRequestQueue e"
    "e_scoreLedger e1 = e_scoreLedger e" "e_workSignal e1 = e_workSignal e" "e_sendDontHaves e1 = e_sendDontHaves e"
    "e_maxBlockSizeReplaceHasWithBlock e1 = e_maxBlockSizeReplaceHasWithBlock e"
    using findOrCreate_sel [of p e] by (simp_all add: f)
  have st: "(if full then l\<lparr>l_wantList := Wantlist_New\<rparr> else l) = ledger_start full p e" by (simp add: ledger_start_def l)
  obtain l2 q where c: "lc Q p full cs = (l2, q)" by force
  let ?e2 = "e1\<lparr>e_peerRequestQueue := q\<rparr>"
  have ws: "fst (fold (mr_want sizes ?e2) ws st) = fst (fold (mr_want sizes e) ws st)" for st
  proof -
    have "fst (fold (mr_want sizes e') ws st) =
        fold (\<lambda>en. ledger_Wants (e_Want (me_Entry en)) (e_Priority (me_Entry en)) (e_WantType (me_Entry en))) ws (fst st)" for e' :: "'q Engine"
      by (rule fold_project) (simp add: mr_want_ledger)
    then show ?thesis by simp
  qed
  have t: "mr_task sizes ?e2 = mr_task sizes e" by (rule mr_task_cong) (simp_all add: e1)
  obtain l3 ts nw where w: "fold (mr_want sizes ?e2) ws (l2, [], False) = (l3, ts, nw)" by (metis prod_cases3)
  have w': "l3 = fst (fold (mr_want sizes e) ws (l2, [], False))" "ts = List.map_filter (mr_task sizes e) ws"
    "nw \<longleftrightarrow> List.map_filter (mr_task sizes e) ws \<noteq> []"
    using ws [of "(l2, [], False)"] mr_wants_tasks [of sizes ?e2 ws "(l2, [], False)"] by (simp_all add: w t)
  have c': "fold (mr_cancel Q p) cs (ledger_start full p e, e_peerRequestQueue e) = (l2, q)" using c by (simp add: lc_def)
  have m: "mr_ledger Q p full sizes ws cs e =
      (let e = set_ledger p l3 ?e2;
           e = (if ts \<noteq> [] then e\<lparr>e_peerRequestQueue := ptq_PushTasks Q p ts (e_peerRequestQueue e)\<rparr> else e)
       in if nw then signalNewWork e else e)"
    by (simp only: mr_ledger_def f prod.case Let_def st e1(3) c' w)
  show ?ledger ?index ?queue ?signal ?score unfolding m c fst_conv snd_conv w'(1) [symmetric] w'(2) [symmetric]
    by (simp_all add: set_ledger_def signalNewWork_def Let_def e1 w'(2,3))
qed

text \<open>The wants and the cancels of a message.\<close>

definition msg_wants :: "impl \<Rightarrow> Want set" where
  "msg_wants m = {w. \<exists>en. im_wantlist m w = Some en \<and> \<not> me_Cancel en}"

definition msg_cancels :: "impl \<Rightarrow> Want set" where
  "msg_cancels m = {w. \<exists>en. im_wantlist m w = Some en \<and> me_Cancel en}"

lemma entry_wants_distinct:
  assumes "impl_wf m" "iterates itw"
  shows "distinct (map (\<lambda>en. e_Want (me_Entry en)) (impl_Wantlist itw m))" "map (\<lambda>en. e_Want (me_Entry en)) (impl_Wantlist itw m) = itw (dom (im_wantlist m))"
proof -
  have fin: "finite (dom (im_wantlist m))" using assms(1) by (rule impl_wfD)
  show "map (\<lambda>en. e_Want (me_Entry en)) (impl_Wantlist itw m) = itw (dom (im_wantlist m))"
    using assms fin impl_wfD(4) [OF assms(1)]
    by (auto simp: impl_Wantlist_def map_values_eq intro!: map_idI)
  then show "distinct (map (\<lambda>en. e_Want (me_Entry en)) (impl_Wantlist itw m))" using assms fin by simp
qed

lemma set_Wantlist: "impl_wf m \<Longrightarrow> iterates itw \<Longrightarrow> set (impl_Wantlist itw m) = ran (im_wantlist m)"
  by (simp add: impl_Wantlist_def impl_wfD(1))

lemma wants_of_message:
  assumes "impl_wf m" "iterates itw"
  shows "wants_of (filter (\<lambda>et. \<not> me_Cancel et) (impl_Wantlist itw m)) = msg_wants m"
    "wants_of (filter me_Cancel (impl_Wantlist itw m)) = msg_cancels m"
  using impl_wfD(4) [OF assms(1)]
  by (fastforce simp: wants_of_def set_Wantlist [OF assms] msg_wants_def msg_cancels_def ran_def image_iff)+

lemma entries_disjoint: "w \<in> msg_wants m \<Longrightarrow> w \<notin> msg_cancels m"
  by (auto simp: msg_wants_def msg_cancels_def)

lemma Wantlist_Add_other: "w \<noteq> c \<Longrightarrow> snd (Wantlist_Add c p t wl) w = wl w"
  by (auto simp: Wantlist_Add_def Let_def split: option.splits)

lemma Wantlist_Add_local: "wl c = wl' c \<Longrightarrow> snd (Wantlist_Add c p t wl) c = snd (Wantlist_Add c p t wl') c"
  by (auto simp: Wantlist_Add_def Let_def split: option.splits)

lemma mr_wants_pointwise:
  "w \<notin> wants_of es \<Longrightarrow> l_wantList (fst (fold (mr_want sizes e) es st)) w = l_wantList (fst st) w"
  "distinct (map (\<lambda>en. e_Want (me_Entry en)) es) \<Longrightarrow> en \<in> set es \<Longrightarrow> e_Want (me_Entry en) = w \<Longrightarrow>
     l_wantList (fst (fold (mr_want sizes e) es st)) w =
     snd (Wantlist_Add w (e_Priority (me_Entry en)) (e_WantType (me_Entry en)) (l_wantList (fst st))) w"
proof (induction es arbitrary: st)
  case (Cons x es)
  { case 1
    then show ?case using Cons.IH(1) by (simp add: mr_want_ledger wants_of_def Wantlist_Add_other) }
  { case 2
    show ?case
    proof (cases "en = x")
      case True
      then have "w \<notin> wants_of es" using 2 by (auto simp: wants_of_def)
      then show ?thesis using Cons.IH(1) True 2(3) by (simp add: mr_want_ledger)
    next
      case False
      then have *: "en \<in> set es" "e_Want (me_Entry x) \<noteq> w" using 2 by (auto simp: image_iff)
      then have "l_wantList (fst (mr_want sizes e x st)) w = l_wantList (fst st) w" by (simp add: mr_want_ledger Wantlist_Add_other)
      then show ?thesis using Cons.IH(2) [of "mr_want sizes e x st"] 2 * by (simp cong: Wantlist_Add_local)
    qed }
qed simp_all

definition had_wants :: "impl \<Rightarrow> peer \<Rightarrow> 'q Engine \<Rightarrow> wantlist" where
  "had_wants m p e = (if impl_Full m then Map.empty else case e_ledgerMap e p of None \<Rightarrow> Map.empty | Some l \<Rightarrow> l_wantList l)"

lemma ledger_start_wants: "l_wantList (ledger_start (impl_Full m) p e) = had_wants m p e"
  by (simp add: ledger_start_def had_wants_def Wantlist_New_def findOrCreate_sel(2) newLedger_def Let_def split: option.splits)

lemma MessageReceived_eq:
  assumes "fst (getBlockSizes bs s accepted (map (\<lambda>en. e_Want (me_Entry en)) (filter (\<lambda>et. \<not> me_Cancel et) (impl_Wantlist itw m))))"
  shows "\<exists>sizes. (\<forall>w \<in> wants_of (filter (\<lambda>et. \<not> me_Cancel et) (impl_Wantlist itw m)). sizes w = size_of bs s w) \<and>
    MessageReceived Q itw bs s accepted p m e =
    mr_ledger Q p (impl_Full m) sizes (filter (\<lambda>et. \<not> me_Cancel et) (impl_Wantlist itw m)) (filter me_Cancel (impl_Wantlist itw m))
      (mr_index p (filter (\<lambda>et. \<not> me_Cancel et) (impl_Wantlist itw m)) (filter me_Cancel (impl_Wantlist itw m)) e)"
proof -
  let ?ws = "map (\<lambda>en. e_Want (me_Entry en)) (filter (\<lambda>et. \<not> me_Cancel et) (impl_Wantlist itw m))"
  obtain ok sizes where g: "getBlockSizes bs s accepted ?ws = (ok, sizes)" by force
  with assms have ok: "ok" by simp
  have "\<forall>w \<in> set ?ws. sizes w = size_of bs s w" using getBlockSizes_ok [of bs s accepted ?ws] g ok by simp
  then show ?thesis
    by (intro exI [of _ sizes] conjI) (simp_all only: MessageReceived_def splitWantsCancels_eq prod.case g ok wants_of_def set_map if_False not_True_eq_False)
qed

lemma map_filter_cong: "(\<And>x. x \<in> set xs \<Longrightarrow> f x = g x) \<Longrightarrow> List.map_filter f xs = List.map_filter g xs"
  by (induction xs) (auto simp: List.map_filter_def)

lemma start_index: "ledger_start full p (mr_index p' ws cs e) = ledger_start full p e"
  by (simp add: ledger_start_def findOrCreate_sel(2) mr_index_sel)

lemma mr_task_topic: "mr_task sizes e en = Some t \<Longrightarrow> t_Topic t = e_Want (me_Entry en)"
  by (auto simp: mr_task_def dont_have_task_def have_task_def Let_def split: option.splits if_splits)

lemma map_filter_topics:
  "distinct (map (\<lambda>en. e_Want (me_Entry en)) es) \<Longrightarrow> distinct (map t_Topic (List.map_filter (mr_task sizes e) es))"
  by (induction es) (fastforce simp: List.map_filter_def mr_task_topic split: option.splits)+

lemma MessageReceived_parts:
  fixes e :: "'q Engine" and p :: peer and Q :: "'q PeerTaskQueue"
  assumes wf: "impl_wf m" and it: "iterates itw"
    and ok: "fst (getBlockSizes bs s accepted (map (\<lambda>en. e_Want (me_Entry en)) (filter (\<lambda>et. \<not> me_Cancel et) (impl_Wantlist itw m))))"
  defines "e' \<equiv> MessageReceived Q itw bs s accepted p m e"
  shows "\<exists>l. e_ledgerMap e' = (e_ledgerMap e)(p \<mapsto> l) \<and> l_Partner l = l_Partner (ledger_start (impl_Full m) p e) \<and>
      (Wantlist_wf (had_wants m p e) \<longrightarrow> Wantlist_wf (l_wantList l)) \<and>
      (\<forall>w. l_wantList l w = (case im_wantlist m w of
         None \<Rightarrow> had_wants m p e w
       | Some en \<Rightarrow> if me_Cancel en then None
           else snd (Wantlist_Add w (e_Priority (me_Entry en)) (e_WantType (me_Entry en)) (had_wants m p e)) w))" (is ?ledger)
    and "lookup_set (e_peerLedger e') w =
      (if w \<in> msg_wants m then insert p (lookup_set (e_peerLedger e) w)
       else if w \<in> msg_cancels m then lookup_set (e_peerLedger e) w - {p} else lookup_set (e_peerLedger e) w)" (is ?index)
    and "pl_wf (e_peerLedger e) \<Longrightarrow> pl_wf (e_peerLedger e')" (is "_ \<Longrightarrow> ?wf")
    and "\<exists>ts rs. distinct rs \<and> set rs = msg_cancels m \<inter> dom (had_wants m p e) \<and> distinct (map t_Topic ts) \<and>
      set ts = {t. \<exists>w en. im_wantlist m w = Some en \<and> \<not> me_Cancel en \<and> mr_task (size_of bs s) e en = Some t} \<and>
      e_peerRequestQueue e' = (if ts = [] then id else ptq_PushTasks Q p ts) (fold (\<lambda>w. ptq_Remove Q w p) rs (e_peerRequestQueue e)) \<and>
      (e_workSignal e' \<longleftrightarrow> e_workSignal e \<or> ts \<noteq> [])" (is ?queue)
proof -
  let ?ws = "filter (\<lambda>et. \<not> me_Cancel et) (impl_Wantlist itw m)" and ?cs = "filter me_Cancel (impl_Wantlist itw m)"
  let ?i = "mr_index p ?ws ?cs e"
  obtain sizes where sz: "\<forall>w \<in> wants_of ?ws. sizes w = size_of bs s w" and eq: "e' = mr_ledger Q p (impl_Full m) sizes ?ws ?cs ?i"
    using MessageReceived_eq [OF ok, of Q p e] unfolding e'_def by blast
  note wants = wants_of_message [OF wf it]
  have dist: "distinct (map (\<lambda>en. e_Want (me_Entry en)) ?ws)" "distinct (map (\<lambda>en. e_Want (me_Entry en)) ?cs)"
    using entry_wants_distinct(1) [OF wf it] by (auto intro: distinct_map_filter)
  let ?c = "fold (mr_cancel Q p) ?cs (ledger_start (impl_Full m) p e, e_peerRequestQueue e)"
  let ?l = "fst (fold (mr_want sizes ?i) ?ws (fst ?c, [], False))"
  have map: "e_ledgerMap e' = (e_ledgerMap e)(p \<mapsto> ?l)"
    unfolding eq mr_ledger_eq(1) by (simp add: start_index mr_index_sel)
  have partner: "l_Partner ?l = l_Partner (ledger_start (impl_Full m) p e)" by (simp add: mr_wants_ledger(1) mr_cancels_ledger(1))
  have c: "l_wantList (fst ?c) = had_wants m p e |` (- msg_cancels m)"
    using wants(2) by (simp add: mr_cancels_ledger(2) ledger_start_wants wants_of_def)
  have wfl: "Wantlist_wf (l_wantList ?l)" if "Wantlist_wf (had_wants m p e)"
    using that by (intro mr_wants_ledger(2)) (auto simp: c Wantlist_wf_def restrict_map_def dom_def elim!: finite_subset [rotated])
  have "l_wantList ?l w = (case im_wantlist m w of None \<Rightarrow> had_wants m p e w
       | Some en \<Rightarrow> if me_Cancel en then None
           else snd (Wantlist_Add w (e_Priority (me_Entry en)) (e_WantType (me_Entry en)) (had_wants m p e)) w)" for w
  proof (cases "w \<in> msg_wants m")
    case True
    then obtain en where en: "im_wantlist m w = Some en" "\<not> me_Cancel en" by (auto simp: msg_wants_def)
    then have "en \<in> set ?ws" "e_Want (me_Entry en) = w" using impl_wfD(4) [OF wf] set_Wantlist [OF wf it] by (auto simp: ran_def)
    from mr_wants_pointwise(2) [OF dist(1) this, of sizes ?i "(fst ?c, [], False)"]
    show ?thesis using en entries_disjoint [OF True] by (simp add: c cong: Wantlist_Add_local)
  next
    case False
    then have "l_wantList ?l w = l_wantList (fst ?c) w" using mr_wants_pointwise(1) [of w ?ws sizes ?i "(fst ?c, [], False)"] wants(1) by simp
    then show ?thesis using False by (auto simp: c restrict_map_def msg_wants_def msg_cancels_def split: option.splits)
  qed
  with map partner wfl show ?ledger by blast
  show ?index unfolding eq mr_ledger_eq(2) mr_index_sel(1) wants using entries_disjoint [of w m] by auto
  show ?wf if "pl_wf (e_peerLedger e)" unfolding eq mr_ledger_eq(2) using that by (rule mr_index_sel(2))
  let ?ts = "List.map_filter (mr_task (size_of bs s) e) ?ws"
  have ts: "List.map_filter (mr_task sizes ?i) ?ws = ?ts"
  proof (rule map_filter_cong)
    fix en assume "en \<in> set ?ws"
    then have "sizes (e_Want (me_Entry en)) = size_of bs s (e_Want (me_Entry en))" using sz by (simp add: wants_of_def)
    moreover have "mr_task sizes ?i = mr_task sizes e" by (rule mr_task_cong) (simp_all add: mr_index_sel)
    ultimately show "mr_task sizes ?i en = mr_task (size_of bs s) e en" by (simp add: mr_task_def)
  qed
  let ?rs = "filter (\<lambda>w. w \<in> dom (had_wants m p e)) (map (\<lambda>en. e_Want (me_Entry en)) ?cs)"
  have "snd ?c = fold (\<lambda>w. ptq_Remove Q w p) ?rs (e_peerRequestQueue e)"
    using mr_cancels_queue [OF dist(2), of Q p "(ledger_start (impl_Full m) p e, e_peerRequestQueue e)"]
    by (simp add: ledger_start_wants)
  then have "e_peerRequestQueue e' = (if ?ts = [] then id else ptq_PushTasks Q p ?ts) (fold (\<lambda>w. ptq_Remove Q w p) ?rs (e_peerRequestQueue e))"
    unfolding eq mr_ledger_eq(3) ts by (simp add: start_index mr_index_sel Let_def)
  moreover have "e_workSignal e' \<longleftrightarrow> e_workSignal e \<or> ?ts \<noteq> []" unfolding eq mr_ledger_eq(4) ts by (simp add: mr_index_sel)
  moreover have "set ?rs = msg_cancels m \<inter> dom (had_wants m p e)" using wants(2) by (auto simp: wants_of_def)
  moreover have "set ?ts = {t. \<exists>w en. im_wantlist m w = Some en \<and> \<not> me_Cancel en \<and> mr_task (size_of bs s) e en = Some t}"
    by (auto simp: set_map_filter_eq set_Wantlist [OF wf it] ran_def)
  ultimately show ?queue using dist map_filter_topics [OF dist(1)] by (intro exI [of _ ?ts] exI [of _ ?rs]) simp
qed

lemma getBlockSizes_all: "fst (getBlockSizes bs s None ws)"
  by (simp add: getBlockSizes_def jobPerKey_def)

text \<open>C12. What a message does. The ledger of the peer, or an empty one if the message is a full wantlist, loses the cancels of the
message and gains its wants, a want-have never replacing a want-block; other ledgers stay as they are; the index follows. From the
queue go the tasks of the cancels that were in the ledger, and it gains one task for every want that has an answer: the block or
its presence if the block is stored, and otherwise a DONT_HAVE if the peer asked for one and the engine sends them. A worker is woken
exactly if there is such a task.\<close>

theorem MessageReceived_effect:
  assumes "impl_wf m" "iterates itw"
  shows "(\<exists>l. e_ledgerMap (MessageReceived Q itw bs s None p m e) = (e_ledgerMap e)(p \<mapsto> l) \<and>
      (\<forall>w. l_wantList l w = (case im_wantlist m w of
         None \<Rightarrow> had_wants m p e w
       | Some en \<Rightarrow> if me_Cancel en then None
           else snd (Wantlist_Add w (e_Priority (me_Entry en)) (e_WantType (me_Entry en)) (had_wants m p e)) w))) \<and>
    (\<forall>w. lookup_set (e_peerLedger (MessageReceived Q itw bs s None p m e)) w =
      (if w \<in> msg_wants m then insert p (lookup_set (e_peerLedger e) w)
       else if w \<in> msg_cancels m then lookup_set (e_peerLedger e) w - {p} else lookup_set (e_peerLedger e) w)) \<and>
    (\<exists>ts rs. distinct rs \<and> set rs = msg_cancels m \<inter> dom (had_wants m p e) \<and> distinct (map t_Topic ts) \<and>
      set ts = {t. \<exists>w en. im_wantlist m w = Some en \<and> \<not> me_Cancel en \<and> mr_task (size_of bs s) e en = Some t} \<and>
      e_peerRequestQueue (MessageReceived Q itw bs s None p m e) =
        (if ts = [] then id else ptq_PushTasks Q p ts) (fold (\<lambda>w. ptq_Remove Q w p) rs (e_peerRequestQueue e)) \<and>
      (e_workSignal (MessageReceived Q itw bs s None p m e) \<longleftrightarrow> e_workSignal e \<or> ts \<noteq> []))"
proof (intro conjI allI)
  note parts = MessageReceived_parts [OF assms getBlockSizes_all, where Q = Q and p = p and e = e and bs = bs and s = s]
  show "\<exists>l. e_ledgerMap (MessageReceived Q itw bs s None p m e) = (e_ledgerMap e)(p \<mapsto> l) \<and>
      (\<forall>w. l_wantList l w = (case im_wantlist m w of
         None \<Rightarrow> had_wants m p e w
       | Some en \<Rightarrow> if me_Cancel en then None
           else snd (Wantlist_Add w (e_Priority (me_Entry en)) (e_WantType (me_Entry en)) (had_wants m p e)) w))"
    using parts(1) by (elim exE conjE) (intro exI conjI)
qed (use MessageReceived_parts(2,4) [OF assms getBlockSizes_all, where Q = Q and p = p and e = e and bs = bs and s = s] in simp_all)

section \<open>Blocks arrive\<close>

lemma have_task_cong:
  "e_maxBlockSizeReplaceHasWithBlock e' = e_maxBlockSizeReplaceHasWithBlock e \<Longrightarrow> have_task en n b e' = have_task en n b e"
  by (simp add: have_task_def sendAsBlock_def Let_def)

lemma rf_bytes_sel:
  "e_peerLedger (rf_bytes now from blks e) = e_peerLedger e" "e_peerRequestQueue (rf_bytes now from blks e) = e_peerRequestQueue e"
  "e_workSignal (rf_bytes now from blks e) = e_workSignal e"
  "e_maxBlockSizeReplaceHasWithBlock (rf_bytes now from blks e) = e_maxBlockSizeReplaceHasWithBlock e"
  "e_ledgerMap (rf_bytes now from blks e) = (if from = [] then e_ledgerMap e else (e_ledgerMap e)(from \<mapsto> fst (findOrCreate from e)))"
  by (simp_all add: rf_bytes_def split_beta findOrCreate_sel)

text \<open>The entry in the ledger of a peer for a want.\<close>

definition wanted :: "'q Engine \<Rightarrow> peer \<Rightarrow> Want \<Rightarrow> Entry option" where
  "wanted e p w = (case e_ledgerMap e p of None \<Rightarrow> None | Some l \<Rightarrow> l_wantList l w)"

lemma wanted_rf_bytes [simp]: "wanted (rf_bytes now from blks e) p w = wanted e p w"
  by (auto simp: wanted_def rf_bytes_sel findOrCreate_sel(2) newLedger_def Wantlist_New_def split: option.splits)

definition the_size :: "(Want \<rightharpoonup> int) \<Rightarrow> Want \<Rightarrow> int" where
  "the_size sizes w = (case sizes w of None \<Rightarrow> 0 | Some n \<Rightarrow> n)"

lemma rf_peer_eq:
  "rf_peer Q sizes w p (e, mw, work) =
     (case wanted e p w of
        None \<Rightarrow> (e, append_missing p w mw, work)
      | Some en \<Rightarrow>
          (e\<lparr>e_peerRequestQueue := ptq_PushTasks Q p [have_task en (the_size sizes w) False e] (e_peerRequestQueue e)\<rparr>, mw, True))"
  by (auto simp: rf_peer_def wanted_def the_size_def ledger_WantListContains_def Wantlist_Contains_def Let_def split: option.splits)

definition served :: "(Want \<rightharpoonup> int) \<Rightarrow> 'q Engine \<Rightarrow> (Want \<times> peer) list \<Rightarrow> (peer \<times> Task) list" where
  "served sizes e ps =
     List.map_filter (\<lambda>(w, p). map_option (\<lambda>en. (p, have_task en (the_size sizes w) False e)) (wanted e p w)) ps"

abbreviation (input) push_all :: "'q PeerTaskQueue \<Rightarrow> (peer \<times> Task) list \<Rightarrow> 'q \<Rightarrow> 'q" where
  "push_all Q pts q \<equiv> fold (\<lambda>(p, t). ptq_PushTasks Q p [t]) pts q"

lemma wanted_queue [simp]: "wanted (e\<lparr>e_peerRequestQueue := q\<rparr>) p w = wanted e p w"
  by (simp add: wanted_def)

lemma have_task_queue [simp]: "have_task en n b (e\<lparr>e_peerRequestQueue := q\<rparr>) = have_task en n b e"
  by (rule have_task_cong) simp

lemma served_queue [simp]: "served sizes (e\<lparr>e_peerRequestQueue := q\<rparr>) ps = served sizes e ps"
  by (simp add: served_def)

lemma rf_pairs:
  "fold (\<lambda>(w, p). rf_peer Q sizes w p) ps (e, mw, work) =
     (e\<lparr>e_peerRequestQueue := push_all Q (served sizes e ps) (e_peerRequestQueue e)\<rparr>,
      fold (\<lambda>(w, p). append_missing p w) (filter (\<lambda>(w, p). wanted e p w = None) ps) mw, work \<or> served sizes e ps \<noteq> [])"
proof (induction ps arbitrary: e mw work)
  case Nil
  then show ?case by (simp add: served_def List.map_filter_def)
next
  case (Cons x ps)
  obtain w p where x: "x = (w, p)" by force
  show ?case
  proof (cases "wanted e p w")
    case None
    then have "served sizes e (x # ps) = served sizes e ps" by (simp add: served_def List.map_filter_def x)
    then show ?thesis using None Cons.IH by (simp add: x rf_peer_eq)
  next
    case (Some en)
    then have "served sizes e (x # ps) = (p, have_task en (the_size sizes w) False e) # served sizes e ps"
      by (simp add: served_def List.map_filter_def x)
    then show ?thesis using Some Cons.IH by (simp add: x rf_peer_eq)
  qed
qed

definition rf_pair_list :: "(peer set \<Rightarrow> peer list) \<Rightarrow> peerLedger \<Rightarrow> AuthBlockImpl list \<Rightarrow> (Want \<times> peer) list" where
  "rf_pair_list itp pl blks = concat (map (\<lambda>b. map (Pair (AuthBlock_Want b)) (peerLedger_Peers itp (AuthBlock_Want b) pl)) blks)"

lemma rf_blocks_pairs:
  "e_peerLedger (fst st) = pl \<Longrightarrow> fold (rf_block Q itp sizes) blks st = fold (\<lambda>(w, p). rf_peer Q sizes w p) (rf_pair_list itp pl blks) st"
proof (induction blks arbitrary: st)
  case (Cons b blks)
  let ?ps = "map (Pair (AuthBlock_Want b)) (peerLedger_Peers itp (AuthBlock_Want b) pl)"
  obtain e mw work where st: "st = (e, mw, work)" by (metis prod_cases3)
  have b: "rf_block Q itp sizes b st = fold (\<lambda>(w, p). rf_peer Q sizes w p) ?ps st"
    using Cons.prems by (simp add: rf_block_def Let_def fold_map comp_def)
  have "e_peerLedger (fst (rf_block Q itp sizes b st)) = pl" unfolding b unfolding st rf_pairs using Cons.prems by (simp add: st)
  from Cons.IH [OF this] show ?case by (simp add: rf_pair_list_def b)
qed (simp add: rf_pair_list_def)

lemma append_missing_fold:
  "fold (\<lambda>(w, p). append_missing p w) ps mw p = Some ws \<Longrightarrow> w \<in> set ws \<Longrightarrow>
     (w, p) \<in> set ps \<or> (\<exists>ws'. mw p = Some ws' \<and> w \<in> set ws')"
proof (induction ps arbitrary: mw)
  case (Cons x ps)
  obtain w' p' where x: "x = (w', p')" by force
  from Cons.IH [of "append_missing p' w' mw"] Cons.prems
  consider "(w, p) \<in> set ps" | "\<exists>ws'. append_missing p' w' mw p = Some ws' \<and> w \<in> set ws'" by (auto simp: x)
  then show ?case by cases (auto simp: x append_missing_def split: if_splits option.splits)
qed simp

lemma append_missing_dom: "finite (dom mw) \<Longrightarrow> finite (dom (fold (\<lambda>(w, p). append_missing p w) ps mw))"
  by (induction ps arbitrary: mw) (auto simp: append_missing_def split: prod.splits)

lemma rf_missing_eq:
  "rf_missing p wl e = e\<lparr>e_peerLedger := fold (\<lambda>w. peerLedger_CancelWant p w) (filter (\<lambda>w. wanted e p w = None) wl) (e_peerLedger e)\<rparr>"
proof -
  have "fold (\<lambda>w e. if P w then e else e\<lparr>e_peerLedger := peerLedger_CancelWant p w (e_peerLedger e)\<rparr>) wl e' =
      e'\<lparr>e_peerLedger := fold (\<lambda>w. peerLedger_CancelWant p w) (filter (\<lambda>w. \<not> P w) wl) (e_peerLedger e')\<rparr>" for P and e' :: "'a Engine"
    by (induction wl arbitrary: e') auto
  from this [of "\<lambda>_. False"] this [of "\<lambda>w. wanted e p w \<noteq> None"] show ?thesis
    by (auto simp: rf_missing_def wanted_def ledger_WantListContains_def Wantlist_Contains_def split: option.splits)
qed

lemma rf_cleanup_sel:
  fixes e :: "'q Engine"
  assumes "\<forall>p ws. mw p = Some ws \<longrightarrow> (\<forall>w \<in> set ws. wanted e p w = None)"
  shows "e_ledgerMap (rf_cleanup itp mw e) = e_ledgerMap e \<and> e_peerRequestQueue (rf_cleanup itp mw e) = e_peerRequestQueue e \<and>
    e_workSignal (rf_cleanup itp mw e) = e_workSignal e \<and> (pl_wf (e_peerLedger e) \<longrightarrow> pl_wf (e_peerLedger (rf_cleanup itp mw e))) \<and>
    (\<forall>p w. wanted e p w \<noteq> None \<longrightarrow> p \<in> lookup_set (e_peerLedger e) w \<longrightarrow> p \<in> lookup_set (e_peerLedger (rf_cleanup itp mw e)) w) \<and>
    e_maxBlockSizeReplaceHasWithBlock (rf_cleanup itp mw e) = e_maxBlockSizeReplaceHasWithBlock e"
  unfolding rf_cleanup_def
proof (rule fold_invariant, goal_cases)
  case (2 p e')
  show ?case
  proof (cases "mw p")
    case (Some ws)
    have "wanted e' = wanted e" using 2 by (simp add: fun_eq_iff wanted_def)
    then show ?thesis using 2(2) plx.invar_remove_list [of "e_peerLedger e'" p ws] plx.members_remove_list [of p ws "e_peerLedger e'"] assms Some
      by (auto simp: Some rf_missing_eq plx.members_remove_list plx.invar_remove_list)
  qed (use 2 in simp)
qed simp

lemma served_cong:
  "wanted e' = wanted e \<Longrightarrow> e_maxBlockSizeReplaceHasWithBlock e' = e_maxBlockSizeReplaceHasWithBlock e \<Longrightarrow> served sizes e' ps = served sizes e ps"
  using have_task_cong [of e' e] by (simp add: served_def)

lemma ReceiveFrom_parts:
  fixes e :: "'q Engine" and Q :: "'q PeerTaskQueue"
  defines "e' \<equiv> \<lambda>itp now from blks. ReceiveFrom Q itp now from blks e"
    and "pts \<equiv> \<lambda>itp blks. served (block_sizes blks) e (rf_pair_list itp (e_peerLedger e) blks)"
  shows "e_ledgerMap (e' itp now from blks) = (if blks = [] then e_ledgerMap e else e_ledgerMap (rf_bytes now from blks e))"
    and "e_peerRequestQueue (e' itp now from blks) = push_all Q (pts itp blks) (e_peerRequestQueue e)"
    and "e_workSignal (e' itp now from blks) \<longleftrightarrow> e_workSignal e \<or> pts itp blks \<noteq> []"
    and "pl_wf (e_peerLedger e) \<Longrightarrow> pl_wf (e_peerLedger (e' itp now from blks))"
    and "wanted e p w \<noteq> None \<Longrightarrow> p \<in> lookup_set (e_peerLedger e) w \<Longrightarrow> p \<in> lookup_set (e_peerLedger (e' itp now from blks)) w"
proof -
  let ?b = "rf_bytes now from blks e"
  let ?ps = "rf_pair_list itp (e_peerLedger e) blks"
  let ?mw = "fold (\<lambda>(w, p). append_missing p w) (filter (\<lambda>(w, p). wanted e p w = None) ?ps) Map.empty"
  let ?q = "push_all Q (pts itp blks) (e_peerRequestQueue e)"
  let ?e1 = "?b\<lparr>e_peerRequestQueue := ?q\<rparr>"
  have w: "wanted ?b = wanted e" by (simp add: fun_eq_iff)
  have s: "served (block_sizes blks) ?b ?ps = pts itp blks" unfolding pts_def by (rule served_cong [OF w]) (simp add: rf_bytes_sel)
  have loop: "fold (rf_block Q itp (block_sizes blks)) blks (?b, Map.empty, False) = (?e1, ?mw, pts itp blks \<noteq> [])"
    using rf_blocks_pairs [of "(?b, Map.empty, False)" "e_peerLedger e"] by (simp add: rf_bytes_sel rf_pairs s)
  have mw: "\<forall>p ws. ?mw p = Some ws \<longrightarrow> (\<forall>w \<in> set ws. wanted ?e1 p w = None)"
  proof (intro allI impI ballI)
    fix p ws w
    assume "?mw p = Some ws" "w \<in> set ws"
    from append_missing_fold [OF this] show "wanted ?e1 p w = None" by auto
  qed
  have "\<exists>e2. e' itp now from blks = (if blks = [] then e else if pts itp blks \<noteq> [] then signalNewWork e2 else e2) \<and>
      e_ledgerMap e2 = e_ledgerMap ?b \<and> e_peerRequestQueue e2 = ?q \<and> e_workSignal e2 = e_workSignal e \<and>
      (pl_wf (e_peerLedger e) \<longrightarrow> pl_wf (e_peerLedger e2)) \<and>
      (\<forall>p w. wanted e p w \<noteq> None \<longrightarrow> p \<in> lookup_set (e_peerLedger e) w \<longrightarrow> p \<in> lookup_set (e_peerLedger e2) w)"
  proof (cases "dom ?mw = {}")
    case True
    then have "e' itp now from blks = (if blks = [] then e else if pts itp blks \<noteq> [] then signalNewWork ?e1 else ?e1)"
      unfolding e'_def ReceiveFrom_def loop prod.case Let_def by simp
    then show ?thesis by (intro exI [of _ ?e1]) (simp add: rf_bytes_sel)
  next
    case False
    then have "e' itp now from blks = (if blks = [] then e else if pts itp blks \<noteq> [] then signalNewWork (rf_cleanup itp ?mw ?e1) else rf_cleanup itp ?mw ?e1)"
      unfolding e'_def ReceiveFrom_def loop prod.case Let_def by simp
    then show ?thesis using rf_cleanup_sel [OF mw, of itp] by (intro exI [of _ "rf_cleanup itp ?mw ?e1"]) (simp add: rf_bytes_sel)
  qed
  then obtain e2 where e2: "e' itp now from blks = (if blks = [] then e else if pts itp blks \<noteq> [] then signalNewWork e2 else e2)"
    "e_ledgerMap e2 = e_ledgerMap ?b" "e_peerRequestQueue e2 = ?q" "e_workSignal e2 = e_workSignal e"
    "pl_wf (e_peerLedger e) \<longrightarrow> pl_wf (e_peerLedger e2)"
    "\<forall>p w. wanted e p w \<noteq> None \<longrightarrow> p \<in> lookup_set (e_peerLedger e) w \<longrightarrow> p \<in> lookup_set (e_peerLedger e2) w" by blast
  have none: "blks = [] \<Longrightarrow> pts itp blks = []" by (simp add: pts_def rf_pair_list_def served_def List.map_filter_def)
  show "e_ledgerMap (e' itp now from blks) = (if blks = [] then e_ledgerMap e else e_ledgerMap ?b)"
    "e_peerRequestQueue (e' itp now from blks) = ?q" "e_workSignal (e' itp now from blks) \<longleftrightarrow> e_workSignal e \<or> pts itp blks \<noteq> []"
    "pl_wf (e_peerLedger e) \<Longrightarrow> pl_wf (e_peerLedger (e' itp now from blks))"
    "wanted e p w \<noteq> None \<Longrightarrow> p \<in> lookup_set (e_peerLedger e) w \<Longrightarrow> p \<in> lookup_set (e_peerLedger (e' itp now from blks)) w"
    using e2(2-6) none by (simp_all add: e2(1) signalNewWork_def)
qed

lemma block_sizes_eq:
  assumes "distinct (map AuthBlock_Want blks)" "b \<in> set blks"
  shows "block_sizes blks (AuthBlock_Want b) = Some (AuthBlock_Size b)"
proof -
  let ?f = "\<lambda>blk m. m(AuthBlock_Want blk \<mapsto> AuthBlock_Size blk)"
  have other: "w \<notin> AuthBlock_Want ` set bs \<Longrightarrow> fold ?f bs m w = m w" for bs m w by (induction bs arbitrary: m) auto
  have "distinct (map AuthBlock_Want bs) \<Longrightarrow> b \<in> set bs \<Longrightarrow> fold ?f bs m (AuthBlock_Want b) = Some (AuthBlock_Size b)" for bs m
    by (induction bs arbitrary: m) (auto simp: other)
  with assms show ?thesis by (simp add: block_sizes_def)
qed

section \<open>Every operation keeps the index\<close>

lemma wanted_Some: "eng_inv e \<Longrightarrow> wanted e p w \<noteq> None \<Longrightarrow> p \<in> lookup_set (e_peerLedger e) w"
  by (auto simp: wanted_def eng_inv_def split: option.splits)

lemma had_wants_ok:
  assumes "eng_inv e"
  shows "Wantlist_wf (had_wants m p e)" "w \<in> dom (had_wants m p e) \<Longrightarrow> p \<in> lookup_set (e_peerLedger e) w"
    "l_Partner (ledger_start full p e) = p"
  using assms findOrCreate_ok [OF assms, of p]
  by (auto simp: had_wants_def eng_inv_def Wantlist_wf_def ledger_start_def Let_def ledger_ok_def split: option.splits if_splits)

lemma MessageReceived_inv:
  assumes wf: "impl_wf m" and it: "iterates itw" and inv: "eng_inv e"
  shows "eng_inv (MessageReceived Q itw bs s accepted p m e)"
proof (cases "fst (getBlockSizes bs s accepted (map (\<lambda>en. e_Want (me_Entry en)) (filter (\<lambda>et. \<not> me_Cancel et) (impl_Wantlist itw m))))")
  case False
  then have "MessageReceived Q itw bs s accepted p m e = e" by (simp add: MessageReceived_def splitWantsCancels_eq split_beta)
  then show ?thesis using inv by simp
next
  case True
  let ?e = "MessageReceived Q itw bs s accepted p m e"
  note parts = MessageReceived_parts [OF wf it True, where Q = Q and p = p and e = e]
  obtain l where l: "e_ledgerMap ?e = (e_ledgerMap e)(p \<mapsto> l)" "l_Partner l = p" "Wantlist_wf (l_wantList l)"
    "\<And>w. l_wantList l w = (case im_wantlist m w of None \<Rightarrow> had_wants m p e w | Some en \<Rightarrow> if me_Cancel en then None
           else snd (Wantlist_Add w (e_Priority (me_Entry en)) (e_WantType (me_Entry en)) (had_wants m p e)) w)"
    using parts(1) had_wants_ok [OF inv] by metis
  have index: "p \<in> lookup_set (e_peerLedger ?e) w" if "w \<in> dom (l_wantList l)" for w
  proof (cases "im_wantlist m w")
    case None
    then have "w \<in> dom (had_wants m p e)" "w \<notin> msg_cancels m" using that l(4) [of w] by (simp_all add: dom_def msg_cancels_def)
    then show ?thesis using had_wants_ok(2) [OF inv] by (simp add: parts(2))
  next
    case (Some en)
    then have "w \<in> msg_wants m" using that l(4) [of w] by (auto simp: msg_wants_def split: if_splits)
    then show ?thesis by (simp add: parts(2))
  qed
  have others: "q \<in> lookup_set (e_peerLedger ?e) w" if "q \<noteq> p" "q \<in> lookup_set (e_peerLedger e) w" for q w
    using that by (simp add: parts(2))
  have "ledger_ok q (e_peerLedger ?e) l'" if "e_ledgerMap ?e q = Some l'" for q l'
    using that l(1-3) index others inv by (cases "q = p") (auto simp: ledger_ok_def eng_inv_alt)
  moreover have "pl_wf (e_peerLedger ?e)" using inv parts(3) by (simp add: eng_inv_def)
  ultimately show ?thesis by (simp add: eng_inv_alt)
qed

lemma ReceiveFrom_inv:
  assumes "eng_inv e"
  shows "eng_inv (ReceiveFrom Q itp now from blks e)"
proof -
  let ?e = "ReceiveFrom Q itp now from blks e"
  have keep: "ledger_ok q (e_peerLedger ?e) l" if "ledger_ok q (e_peerLedger e) l" "\<And>w. w \<in> dom (l_wantList l) \<Longrightarrow> wanted e q w \<noteq> None" for q l
    using that ReceiveFrom_parts(5) [of e q _ Q itp now "from" blks] by (fastforce simp: ledger_ok_def)
  have "ledger_ok q (e_peerLedger ?e) l" if l: "e_ledgerMap ?e q = Some l" for q l
  proof (cases "e_ledgerMap e q")
    case (Some l')
    then have "l = l'" using l by (auto simp: ReceiveFrom_parts(1) rf_bytes_sel(5) findOrCreate_sel(2) split: if_splits)
    then show ?thesis using Some assms by (intro keep) (auto simp: eng_inv_alt wanted_def)
  next
    case None
    then have "l = newLedger q" using l by (auto simp: ReceiveFrom_parts(1) rf_bytes_sel(5) findOrCreate_sel(2) split: if_splits)
    then show ?thesis by simp
  qed
  then show ?thesis using assms ReceiveFrom_parts(4) [of e Q itp now "from" blks] by (simp add: eng_inv_alt)
qed

lemma RemoveType_dom: "dom (snd (Wantlist_RemoveType c t wl)) \<subseteq> dom wl"
  by (auto simp: Wantlist_RemoveType_def split: option.splits if_splits)

lemma ms_ledger_ok:
  "ledger_ok p pl l \<Longrightarrow> ledger_ok p pl (l\<lparr>l_wantList := snd (Wantlist_RemoveType c t (l_wantList l))\<rparr>)"
  using RemoveType_dom [of c t "l_wantList l"] by (auto simp: ledger_ok_def Wantlist_wf_RemoveType)

lemma ms_blocks_ok: "ledger_ok p pl (fst st) \<Longrightarrow> ledger_ok p pl (fst (fold (ms_block now) bs st))"
  by (induction bs arbitrary: st) (simp_all add: ms_block_def split_beta ms_ledger_ok)

lemma ms_presences_ok: "ledger_ok p pl l \<Longrightarrow> ledger_ok p pl (fold ms_presence bps l)"
  by (induction bps arbitrary: l) (simp_all add: ms_presence_def ms_ledger_ok)

lemma MessageSent_eq:
  "MessageSent itw now p m e =
     (let st = fold (ms_block now) (impl_Blocks itw m) (fst (findOrCreate p e), e_scoreLedger (snd (findOrCreate p e)))
      in set_ledger p (fold ms_presence (impl_BlockPresences itw m) (fst st)) (snd (findOrCreate p e)\<lparr>e_scoreLedger := snd st\<rparr>))"
  by (simp add: MessageSent_def split_beta Let_def)

lemma MessageSent_inv:
  assumes "eng_inv e"
  shows "eng_inv (MessageSent itw now p m e)"
proof -
  have "eng_inv (snd (findOrCreate p e)\<lparr>e_scoreLedger := sl\<rparr>)" for sl
    using findOrCreate_inv [OF assms, of p] by (simp add: eng_inv_alt)
  then show ?thesis unfolding MessageSent_eq Let_def
    by (rule eng_inv_set_ledger) (simp add: ms_presences_ok ms_blocks_ok findOrCreate_ok [OF assms] findOrCreate_sel(3))
qed

lemma engine_PeerConnected_inv: "eng_inv e \<Longrightarrow> eng_inv (engine_PeerConnected p e)"
  by (simp add: engine_PeerConnected_def Let_def eng_inv_alt set_ledger_def split: option.splits)

lemma engine_PeerDisconnected_inv:
  assumes "eng_inv e"
  shows "eng_inv (engine_PeerDisconnected itw p e)"
proof (cases "e_ledgerMap e p")
  case None
  then show ?thesis using assms by (simp add: engine_PeerDisconnected_def eng_inv_alt)
next
  case (Some l)
  let ?ks = "map e_Want (ledger_Entries itw l)"
  have *: "fold (\<lambda>entry. peerLedger_CancelWant p (e_Want entry)) (ledger_Entries itw l) pl = fold (\<lambda>k. peerLedger_CancelWant p k) ?ks pl" for pl
    by (simp add: fold_map comp_def)
  have "pl_wf (fold (\<lambda>k. peerLedger_CancelWant p k) ?ks (e_peerLedger e))" using assms by (intro plx.invar_remove_list) (simp add: eng_inv_def)
  moreover have "ledger_ok q (fold (\<lambda>k. peerLedger_CancelWant p k) ?ks (e_peerLedger e)) l'" if "q \<noteq> p" "e_ledgerMap e q = Some l'" for q l'
    using that assms by (auto simp: ledger_ok_def eng_inv_alt plx.members_remove_list)
  ultimately show ?thesis using Some by (simp add: engine_PeerDisconnected_def eng_inv_alt * Let_def)
qed

section \<open>Runs of the engine\<close>

text \<open>What the engine relies on of the queue: it holds tasks for peers and wants (\<open>topics\<close>), only such as were pushed, and pops
only such as it holds.\<close>

definition queue_keeps :: "'q PeerTaskQueue \<Rightarrow> ('q \<Rightarrow> (peer \<times> Want) set) \<Rightarrow> bool" where
  "queue_keeps Q topics \<longleftrightarrow>
     (\<forall>p ts q. topics (ptq_PushTasks Q p ts q) \<subseteq> topics q \<union> {p} \<times> t_Topic ` set ts) \<and>
     (\<forall>n q p ts b q'. ptq_PopTasks Q n q = ((p, ts, b), q') \<longrightarrow> {p} \<times> t_Topic ` set ts \<subseteq> topics q \<and> topics q' \<subseteq> topics q) \<and>
     (\<forall>w p q. topics (ptq_Remove Q w p q) \<subseteq> topics q) \<and> (\<forall>p ts q. topics (ptq_TasksDone Q p ts q) \<subseteq> topics q) \<and>
     (\<forall>q. topics (ptq_ThawRound Q q) \<subseteq> topics q)"

text \<open>The states of the engine, with all that peers have asked for so far.\<close>

inductive eng_reach ::
  "'q PeerTaskQueue \<Rightarrow> (Want set \<Rightarrow> Want list) \<Rightarrow> (peer set \<Rightarrow> peer list) \<Rightarrow> 's AuthedBlockstore \<Rightarrow> 'q \<Rightarrow> 'q Engine \<Rightarrow> (peer \<times> Want) set \<Rightarrow> bool"
  for Q itw itp bs q where
  eng_new: "eng_reach Q itw itp bs q (NewEngine n self q) {}"
| eng_received: "eng_reach Q itw itp bs q e H \<Longrightarrow> impl_wf m \<Longrightarrow>
    eng_reach Q itw itp bs q (MessageReceived Q itw bs s accepted p m e) (H \<union> {p} \<times> msg_wants m)"
| eng_blocks: "eng_reach Q itw itp bs q e H \<Longrightarrow> eng_reach Q itw itp bs q (ReceiveFrom Q itp now from blks e) H"
| eng_message_sent: "eng_reach Q itw itp bs q e H \<Longrightarrow> eng_reach Q itw itp bs q (MessageSent itw now p m e) H"
| eng_connected: "eng_reach Q itw itp bs q e H \<Longrightarrow> eng_reach Q itw itp bs q (engine_PeerConnected p e) H"
| eng_disconnected: "eng_reach Q itw itp bs q e H \<Longrightarrow> eng_reach Q itw itp bs q (engine_PeerDisconnected itw p e) H"
| eng_envelope: "eng_reach Q itw itp bs q e H \<Longrightarrow> eng_reach Q itw itp bs q (snd (nextEnvelope Q itw bs store n wakes e)) H"
| eng_envelope_sent: "eng_reach Q itw itp bs q e H \<Longrightarrow> eng_reach Q itw itp bs q (Envelope_Sent Q env e) H"
| eng_dont_haves: "eng_reach Q itw itp bs q e H \<Longrightarrow> eng_reach Q itw itp bs q (SetSendDontHaves b e) H"
| eng_wantlist: "eng_reach Q itw itp bs q e H \<Longrightarrow> eng_reach Q itw itp bs q (snd (WantlistForPeer itw p e)) H"
| eng_worker_exit: "eng_reach Q itw itp bs q e H \<Longrightarrow> eng_reach Q itw itp bs q (taskWorkerExit e) H"
| eng_score: "eng_reach Q itw itp bs q e H \<Longrightarrow> eng_reach Q itw itp bs q (e\<lparr>e_scoreLedger := sl\<rparr>) H"

lemma nextEnvelope_fields:
  "e_ledgerMap (snd (nextEnvelope Q itw bs store n wakes e)) = e_ledgerMap e \<and>
   e_peerLedger (snd (nextEnvelope Q itw bs store n wakes e)) = e_peerLedger e"
proof (induction n arbitrary: wakes e)
  case (Suc n)
  obtain p ts pb q where pop: "ptq_PopTasks Q targetMessageSize (e_peerRequestQueue e) = ((p, ts, pb), q)" by (metis prod_cases3 surj_pair)
  show ?case unfolding nextEnvelope.simps pop prod.case Let_def
    using Suc.IH by (simp split: list.splits wake.splits option.splits)
qed simp

lemma eng_small_inv:
  "eng_inv e \<Longrightarrow> eng_inv (snd (nextEnvelope Q itw bs store n wakes e))" "eng_inv e \<Longrightarrow> eng_inv (Envelope_Sent Q env e)"
  "eng_inv e \<Longrightarrow> eng_inv (SetSendDontHaves b e)" "eng_inv e \<Longrightarrow> eng_inv (snd (WantlistForPeer itw p e))"
  "eng_inv e \<Longrightarrow> eng_inv (taskWorkerExit e)" "eng_inv e \<Longrightarrow> eng_inv (e\<lparr>e_scoreLedger := sl\<rparr>)" "eng_inv (NewEngine k self q)"
  using nextEnvelope_fields [of Q itw bs store n wakes e] findOrCreate_inv [of e p]
  by (simp_all add: eng_inv_alt Envelope_Sent_def signalNewWork_def SetSendDontHaves_def WantlistForPeer_def split_beta
      taskWorkerExit_def NewEngine_def newEngine_def Let_def)

lemma eng_reach_inv:
  assumes "eng_reach Q itw itp bs q e H" "iterates itw"
  shows "eng_inv e"
  using assms(1)
  by induction
    (simp_all add: eng_small_inv MessageReceived_inv assms(2) ReceiveFrom_inv MessageSent_inv engine_PeerConnected_inv engine_PeerDisconnected_inv)

text \<open>What is in the ledgers was asked for.\<close>

lemma wanted_cong: "e_ledgerMap e' = e_ledgerMap e \<Longrightarrow> wanted e' = wanted e"
  by (simp add: wanted_def fun_eq_iff)

lemma wanted_MessageReceived:
  assumes "impl_wf m" "iterates itw" "wanted (MessageReceived Q itw bs s accepted p m e) r w \<noteq> None"
  shows "wanted e r w \<noteq> None \<or> r = p \<and> w \<in> msg_wants m"
proof (cases "fst (getBlockSizes bs s accepted (map (\<lambda>en. e_Want (me_Entry en)) (filter (\<lambda>et. \<not> me_Cancel et) (impl_Wantlist itw m))))")
  case False
  then have "MessageReceived Q itw bs s accepted p m e = e" by (simp add: MessageReceived_def splitWantsCancels_eq split_beta)
  then show ?thesis using assms by simp
next
  case True
  from MessageReceived_parts(1) [OF assms(1,2) this, of Q p e]
  obtain l where l: "e_ledgerMap (MessageReceived Q itw bs s accepted p m e) = (e_ledgerMap e)(p \<mapsto> l)"
    "\<forall>w. l_wantList l w = (case im_wantlist m w of None \<Rightarrow> had_wants m p e w | Some en \<Rightarrow> if me_Cancel en then None
           else snd (Wantlist_Add w (e_Priority (me_Entry en)) (e_WantType (me_Entry en)) (had_wants m p e)) w)" by blast
  show ?thesis
  proof (cases "r = p")
    case rp: True
    have "had_wants m p e w \<noteq> None \<Longrightarrow> wanted e p w \<noteq> None" by (simp add: had_wants_def wanted_def split: if_splits option.splits)
    then show ?thesis using assms(3) l(2) rp by (auto simp: wanted_def l(1) msg_wants_def split: option.splits if_splits)
  next
    case False
    then show ?thesis using assms(3) by (simp add: wanted_def l(1))
  qed
qed

lemma wanted_ReceiveFrom: "wanted (ReceiveFrom Q itp now from blks e) = wanted e"
proof (cases "blks = []")
  case False
  then have "wanted (ReceiveFrom Q itp now from blks e) = wanted (rf_bytes now from blks e)"
    by (intro wanted_cong) (simp add: ReceiveFrom_parts(1))
  then show ?thesis by (simp add: fun_eq_iff)
qed (simp add: ReceiveFrom_def)

lemma ms_dom:
  "dom (l_wantList (fst (fold (ms_block now) bs st))) \<subseteq> dom (l_wantList (fst st))"
  "dom (l_wantList (fold ms_presence bps l)) \<subseteq> dom (l_wantList l)"
proof -
  have "dom (l_wantList (fst (ms_block now b st))) \<subseteq> dom (l_wantList (fst st))" for b st
    using RemoveType_dom by (simp add: ms_block_def split_beta)
  then show "dom (l_wantList (fst (fold (ms_block now) bs st))) \<subseteq> dom (l_wantList (fst st))"
    by (induction bs arbitrary: st) (simp, metis fold_simps(2) subset_trans)
  have "dom (l_wantList (ms_presence b l)) \<subseteq> dom (l_wantList l)" for b l
    using RemoveType_dom by (simp add: ms_presence_def)
  then show "dom (l_wantList (fold ms_presence bps l)) \<subseteq> dom (l_wantList l)"
    by (induction bps arbitrary: l) (simp, metis fold_simps(2) subset_trans)
qed

lemma wanted_MessageSent: "wanted (MessageSent itw now p m e) r w \<noteq> None \<Longrightarrow> wanted e r w \<noteq> None"
  using ms_dom(1) [of now "impl_Blocks itw m" "(fst (findOrCreate p e), e_scoreLedger (snd (findOrCreate p e)))"]
    ms_dom(2) [of "impl_BlockPresences itw m" "fst (fold (ms_block now) (impl_Blocks itw m) (fst (findOrCreate p e), e_scoreLedger (snd (findOrCreate p e))))"]
  by (auto simp: MessageSent_eq Let_def wanted_def set_ledger_def findOrCreate_sel(1,2) newLedger_def Wantlist_New_def split: if_splits option.splits)

lemma wanted_peers:
  "wanted (engine_PeerConnected p e) = wanted e" "wanted (engine_PeerDisconnected itw p e) r w \<noteq> None \<Longrightarrow> wanted e r w \<noteq> None"
  "wanted (snd (WantlistForPeer itw p e)) = wanted e"
  by (auto simp: engine_PeerConnected_def engine_PeerDisconnected_def WantlistForPeer_def split_beta Let_def wanted_def set_ledger_def
      fun_eq_iff findOrCreate_sel(1,2) newLedger_def Wantlist_New_def split: option.splits if_splits)

text \<open>What is in the queue was asked for.\<close>

lemma queue_keepsD:
  assumes "queue_keeps Q topics"
  shows "topics (ptq_PushTasks Q p ts q) \<subseteq> topics q \<union> {p} \<times> t_Topic ` set ts"
    "ptq_PopTasks Q n q = ((p, ts, b), q') \<Longrightarrow> {p} \<times> t_Topic ` set ts \<subseteq> topics q"
    "ptq_PopTasks Q n q = ((p, ts, b), q') \<Longrightarrow> topics q' \<subseteq> topics q"
    "topics (ptq_Remove Q w p q) \<subseteq> topics q" "topics (ptq_TasksDone Q p ts q) \<subseteq> topics q" "topics (ptq_ThawRound Q q) \<subseteq> topics q"
  using assms unfolding queue_keeps_def by blast+

lemma removes_topics: "queue_keeps Q topics \<Longrightarrow> topics (fold (\<lambda>w. ptq_Remove Q w p) ws q) \<subseteq> topics q"
  by (induction ws arbitrary: q) (simp, metis fold_simps(2) queue_keepsD(4) subset_trans)

lemma push_all_topics:
  assumes "queue_keeps Q topics"
  shows "topics (push_all Q pts q) \<subseteq> topics q \<union> {(p, t_Topic t) | p t. (p, t) \<in> set pts}"
proof (induction pts arbitrary: q)
  case (Cons x pts)
  obtain p t where x: "x = (p, t)" by force
  show ?case using Cons.IH [of "ptq_PushTasks Q p [t] q"] queue_keepsD(1) [OF assms, of p "[t]" q] by (simp add: x) blast
qed simp

text \<open>One round of \<^verbatim>\<open>nextEnvelope\<close>.\<close>

lemma nextEnvelope_round:
  assumes "ptq_PopTasks Q targetMessageSize (e_peerRequestQueue e) = ((p, ts, pb), q)"
  shows "ts = [] \<Longrightarrow> nextEnvelope Q itw bs store (Suc n) [] e = (NextWaiting, e\<lparr>e_peerRequestQueue := q\<rparr>)"
    "ts = [] \<Longrightarrow> nextEnvelope Q itw bs store (Suc n) (CtxDone # wk) e = (NextError, e\<lparr>e_peerRequestQueue := q\<rparr>)"
    "ts = [] \<Longrightarrow> nextEnvelope Q itw bs store (Suc n) (WorkSignal # wk) e =
       nextEnvelope Q itw bs store n wk (e\<lparr>e_peerRequestQueue := q, e_workSignal := False\<rparr>)"
    "ts = [] \<Longrightarrow> nextEnvelope Q itw bs store (Suc n) (Tick # wk) e =
       nextEnvelope Q itw bs store n wk (e\<lparr>e_peerRequestQueue := ptq_ThawRound Q q\<rparr>)"
    "ts \<noteq> [] \<Longrightarrow> ne_message itw bs (fst (store n)) (snd (store n)) p ts pb = None \<Longrightarrow>
       nextEnvelope Q itw bs store (Suc n) wk e = (NextError, e\<lparr>e_peerRequestQueue := q\<rparr>)"
    "ts \<noteq> [] \<Longrightarrow> ne_message itw bs (fst (store n)) (snd (store n)) p ts pb = Some msg \<Longrightarrow> impl_Empty msg \<Longrightarrow>
       nextEnvelope Q itw bs store (Suc n) wk e = nextEnvelope Q itw bs store n wk (e\<lparr>e_peerRequestQueue := ptq_TasksDone Q p ts q\<rparr>)"
    "ts \<noteq> [] \<Longrightarrow> ne_message itw bs (fst (store n)) (snd (store n)) p ts pb = Some msg \<Longrightarrow> \<not> impl_Empty msg \<Longrightarrow>
       nextEnvelope Q itw bs store (Suc n) wk e =
         (Next \<lparr>env_Peer = p, env_Message = msg, env_tasks = ts\<rparr>, e\<lparr>e_peerRequestQueue := q\<rparr>)"
  unfolding nextEnvelope.simps assms prod.case Let_def by simp_all

text \<open>A call of \<^verbatim>\<open>nextEnvelope\<close> ends after a round or goes on with fewer rounds and a queue made from the popped one.\<close>

lemma nextEnvelope_cases:
  assumes "ptq_PopTasks Q targetMessageSize (e_peerRequestQueue e) = ((p, ts, pb), q)"
  obtains (ends) r where "nextEnvelope Q itw bs store (Suc n) wakes e = (r, e\<lparr>e_peerRequestQueue := q\<rparr>)" "r = NextWaiting \<or> r = NextError"
  | (envelope) msg where "ts \<noteq> []"
      "nextEnvelope Q itw bs store (Suc n) wakes e = (Next \<lparr>env_Peer = p, env_Message = msg, env_tasks = ts\<rparr>, e\<lparr>e_peerRequestQueue := q\<rparr>)"
  | (woken) w wk q' b where "ts = []" "wakes = w # wk" "q' = q \<or> q' = ptq_ThawRound Q q"
      "nextEnvelope Q itw bs store (Suc n) wakes e = nextEnvelope Q itw bs store n wk (e\<lparr>e_peerRequestQueue := q', e_workSignal := b\<rparr>)"
  | (empty) "ts \<noteq> []"
      "nextEnvelope Q itw bs store (Suc n) wakes e = nextEnvelope Q itw bs store n wakes (e\<lparr>e_peerRequestQueue := ptq_TasksDone Q p ts q\<rparr>)"
proof (cases "ts = []")
  case True
  note r = nextEnvelope_round(1-4) [OF assms True]
  have s: "e\<lparr>e_peerRequestQueue := q'\<rparr> = e\<lparr>e_peerRequestQueue := q', e_workSignal := e_workSignal e\<rparr>" for q' by simp
  show ?thesis
  proof (cases wakes)
    case (Cons w wk)
    then show ?thesis using True r(2-4) [of itw bs store n wk] ends woken [of w wk] s by (cases w) metis+
  next
    case Nil
    show ?thesis by (rule ends [unfolded Nil, OF r(1)]) simp
  qed
next
  case False
  then show ?thesis using nextEnvelope_round(5-7) [OF assms] ends envelope empty
    by (cases "ne_message itw bs (fst (store n)) (snd (store n)) p ts pb") blast+
qed

lemma nextEnvelope_topics:
  assumes "queue_keeps Q topics"
  shows "topics (e_peerRequestQueue (snd (nextEnvelope Q itw bs store n wakes e))) \<subseteq> topics (e_peerRequestQueue e) \<and>
    (\<forall>env. fst (nextEnvelope Q itw bs store n wakes e) = Next env \<longrightarrow>
      {env_Peer env} \<times> t_Topic ` set (env_tasks env) \<subseteq> topics (e_peerRequestQueue e))"
proof (induction n arbitrary: wakes e)
  case (Suc n)
  obtain p ts pb q where pop: "ptq_PopTasks Q targetMessageSize (e_peerRequestQueue e) = ((p, ts, pb), q)" by (metis prod_cases3 surj_pair)
  have q: "topics q \<subseteq> topics (e_peerRequestQueue e)" and ts: "{p} \<times> t_Topic ` set ts \<subseteq> topics (e_peerRequestQueue e)"
    using queue_keepsD(2,3) [OF assms pop] by blast+
  have IH: ?case if "nextEnvelope Q itw bs store (Suc n) wakes e = nextEnvelope Q itw bs store n wk e1"
      "topics (e_peerRequestQueue e1) \<subseteq> topics q" for wk and e1 :: "'a Engine"
    using Suc.IH [of wk e1] that(2) q unfolding that(1) by (meson subset_trans)
  from pop show ?case
  proof (cases rule: nextEnvelope_cases [where itw = itw and bs = bs and store = store and n = n and wakes = wakes])
    case (ends r)
    then show ?thesis using q by auto
  next
    case (envelope msg)
    then show ?thesis using q ts by simp
  next
    case (woken w wk q' b)
    show ?thesis using queue_keepsD(6) [OF assms, of q] woken(3) by (intro IH [OF woken(4)]) auto
  next
    case empty
    show ?thesis using queue_keepsD(5) [OF assms] by (intro IH [OF empty(2)]) simp
  qed
qed simp

definition eng_asked :: "('q \<Rightarrow> (peer \<times> Want) set) \<Rightarrow> (peer \<times> Want) set \<Rightarrow> 'q Engine \<Rightarrow> bool" where
  "eng_asked topics H e \<longleftrightarrow> (\<forall>p w. wanted e p w \<noteq> None \<longrightarrow> (p, w) \<in> H) \<and> topics (e_peerRequestQueue e) \<subseteq> H"

lemma served_asked:
  assumes "eng_inv e" "eng_asked topics H e" "(p, t) \<in> set (served sizes e ps)"
  shows "(p, t_Topic t) \<in> H"
proof -
  obtain w en where en: "wanted e p w = Some en" "t = have_task en (the_size sizes w) False e"
    using assms(3) by (auto simp: served_def set_map_filter_eq)
  then have "e_Want en = w" using assms(1) by (auto simp: wanted_def eng_inv_def Wantlist_wf_def split: option.splits)
  then show ?thesis using assms(2) en by (auto simp: eng_asked_def have_task_def Let_def)
qed

lemma MessageReceived_asked:
  assumes "impl_wf m" "iterates itw" "queue_keeps Q topics" "eng_asked topics H e"
  shows "eng_asked topics (H \<union> {p} \<times> msg_wants m) (MessageReceived Q itw bs s accepted p m e)"
proof (cases "fst (getBlockSizes bs s accepted (map (\<lambda>en. e_Want (me_Entry en)) (filter (\<lambda>et. \<not> me_Cancel et) (impl_Wantlist itw m))))")
  case False
  then have "MessageReceived Q itw bs s accepted p m e = e" by (simp add: MessageReceived_def splitWantsCancels_eq split_beta)
  then show ?thesis using assms(4) by (auto simp: eng_asked_def)
next
  case True
  let ?e = "MessageReceived Q itw bs s accepted p m e"
  from MessageReceived_parts(4) [OF assms(1,2) True, where Q = Q and p = p and e = e] obtain ts rs where
    ts: "set ts = {t. \<exists>w en. im_wantlist m w = Some en \<and> \<not> me_Cancel en \<and> mr_task (size_of bs s) e en = Some t}"
    and q: "e_peerRequestQueue ?e = (if ts = [] then id else ptq_PushTasks Q p ts) (fold (\<lambda>w. ptq_Remove Q w p) rs (e_peerRequestQueue e))"
    by blast
  have sub: "{p} \<times> t_Topic ` set ts \<subseteq> {p} \<times> msg_wants m"
    using impl_wfD(4) [OF assms(1)] by (auto simp: ts msg_wants_def mr_task_topic)
  have "topics (e_peerRequestQueue ?e) \<subseteq> topics (e_peerRequestQueue e) \<union> {p} \<times> t_Topic ` set ts"
    using removes_topics [OF assms(3), of p rs "e_peerRequestQueue e"]
      queue_keepsD(1) [OF assms(3), of p ts "fold (\<lambda>w. ptq_Remove Q w p) rs (e_peerRequestQueue e)"]
    unfolding q by (cases "ts = []") auto
  also have "\<dots> \<subseteq> H \<union> {p} \<times> msg_wants m" using sub assms(4) by (intro Un_mono) (auto simp: eng_asked_def)
  finally have "topics (e_peerRequestQueue ?e) \<subseteq> H \<union> {p} \<times> msg_wants m" .
  moreover have "(r, w) \<in> H \<union> {p} \<times> msg_wants m" if "wanted ?e r w \<noteq> None" for r w
    using wanted_MessageReceived [OF assms(1,2) that] assms(4) by (auto simp: eng_asked_def)
  ultimately show ?thesis unfolding eng_asked_def by (intro conjI allI impI)
qed

lemma eng_asked_mono:
  "eng_asked topics H e \<Longrightarrow> (\<And>p w. wanted e' p w \<noteq> None \<Longrightarrow> wanted e p w \<noteq> None) \<Longrightarrow>
     topics (e_peerRequestQueue e') \<subseteq> topics (e_peerRequestQueue e) \<Longrightarrow> eng_asked topics H e'"
  unfolding eng_asked_def by blast

lemma eng_small_queue [simp]:
  "e_peerRequestQueue (MessageSent itw now p m e) = e_peerRequestQueue e" "e_peerRequestQueue (engine_PeerConnected p e) = e_peerRequestQueue e"
  "e_peerRequestQueue (engine_PeerDisconnected itw p e) = e_peerRequestQueue e" "e_peerRequestQueue (SetSendDontHaves b e) = e_peerRequestQueue e"
  "e_peerRequestQueue (snd (WantlistForPeer itw p e)) = e_peerRequestQueue e" "e_peerRequestQueue (taskWorkerExit e) = e_peerRequestQueue e"
  by (simp_all add: MessageSent_eq set_ledger_def findOrCreate_sel(4) engine_PeerConnected_def engine_PeerDisconnected_def SetSendDontHaves_def
      WantlistForPeer_def split_beta taskWorkerExit_def Let_def split: option.splits)

lemma eng_reach_asked:
  assumes "eng_reach Q itw itp bs q e H" "iterates itw" "queue_keeps Q topics" "topics q = {}"
  shows "eng_asked topics H e"
  using assms(1)
proof induction
  case (eng_new n self)
  then show ?case using assms(4) by (simp add: eng_asked_def NewEngine_def newEngine_def wanted_def)
next
  case (eng_received e H m s accepted p)
  show ?case by (rule MessageReceived_asked [OF eng_received(2) assms(2,3) eng_received(3)])
next
  case (eng_blocks e H now "from" blks)
  have inv: "eng_inv e" using eng_reach_inv [OF eng_blocks(1) assms(2)] .
  let ?pts = "served (block_sizes blks) e (rf_pair_list itp (e_peerLedger e) blks)"
  have "topics (push_all Q ?pts (e_peerRequestQueue e)) \<subseteq> topics (e_peerRequestQueue e) \<union> {(p, t_Topic t) | p t. (p, t) \<in> set ?pts}"
    by (rule push_all_topics [OF assms(3)])
  also have "\<dots> \<subseteq> H" using served_asked [OF inv eng_blocks(2)] eng_blocks(2) by (auto simp: eng_asked_def)
  finally show ?case using eng_blocks(2) by (simp add: eng_asked_def wanted_ReceiveFrom ReceiveFrom_parts(2))
next
  case (eng_envelope e H store n wakes)
  show ?case using nextEnvelope_fields [of Q itw bs store n wakes e] nextEnvelope_topics [OF assms(3), of itw bs store n wakes e]
    by (intro eng_asked_mono [OF eng_envelope(2)]) (auto simp: wanted_def)
next
  case (eng_envelope_sent e H env)
  show ?case using queue_keepsD(5) [OF assms(3)]
    by (intro eng_asked_mono [OF eng_envelope_sent(2)]) (auto simp: Envelope_Sent_def signalNewWork_def wanted_def)
next
  case (eng_message_sent e H now p m)
  show ?case by (rule eng_asked_mono [OF eng_message_sent(2)]) (erule wanted_MessageSent, simp)
next
  case (eng_disconnected e H p)
  show ?case by (rule eng_asked_mono [OF eng_disconnected(2)]) (erule wanted_peers(2), simp)
qed (simp_all add: eng_asked_def wanted_peers(1,3), simp_all add: wanted_def SetSendDontHaves_def taskWorkerExit_def Let_def)

section \<open>Correctness of the engine\<close>

lemma distinct_map_filter':
  "distinct xs \<Longrightarrow> (\<And>x y z. x \<in> set xs \<Longrightarrow> y \<in> set xs \<Longrightarrow> f x = Some z \<Longrightarrow> f y = Some z \<Longrightarrow> x = y) \<Longrightarrow> distinct (List.map_filter f xs)"
  by (induction xs) (auto simp: List.map_filter_def split: option.splits, metis option.sel)

lemma rf_pair_list_set:
  assumes "iterates itp" "pl_wf pl"
  shows "set (rf_pair_list itp pl blks) = {(AuthBlock_Want b, p) | b p. b \<in> set blks \<and> p \<in> lookup_set pl (AuthBlock_Want b)}"
    "distinct (map AuthBlock_Want blks) \<Longrightarrow> distinct (rf_pair_list itp pl blks)"
proof -
  show "set (rf_pair_list itp pl blks) = {(AuthBlock_Want b, p) | b p. b \<in> set blks \<and> p \<in> lookup_set pl (AuthBlock_Want b)}"
    by (auto simp: rf_pair_list_def set_Peers [OF assms])
  show "distinct (rf_pair_list itp pl blks)" if "distinct (map AuthBlock_Want blks)"
    using that by (induction blks) (auto simp: rf_pair_list_def distinct_map inj_on_def distinct_Peers [OF assms])
qed

lemma wanted_entry: "eng_inv e \<Longrightarrow> wanted e p w = Some en \<Longrightarrow> e_Want en = w"
  by (auto simp: wanted_def eng_inv_def Wantlist_wf_def split: option.splits)


text \<open>C5. The engine answers only what it was asked: whatever happened before, every presence in an envelope for a peer is about a
want that this peer has sent in a message, and every block in it is the stored block of such a want, whose authorisation the
blockstore's \<^verbatim>\<open>allow\<close> accepts for this peer.\<close>

theorem answers_only_asked:
  assumes "eng_reach Q itw itp bs q e H" "iterates itw" "queue_keeps Q topics" "topics q = {}"
    and "nextEnvelope Q itw bs store n wakes e = (Next env, e')"
  shows "{env_Peer env} \<times> dom (im_blockPresences (env_Message env)) \<subseteq> H \<and>
    (\<forall>b \<in> ran (im_blocks (env_Message env)). \<exists>w k. (env_Peer env, w) \<in> H \<and> want_Auth (ab_want b) = want_Auth w \<and>
       src_stored bs (fst (store k)) (want_Cid w) (ab_block b) \<and>
       bs_allow bs (want_Cid w) (block_RawData (ab_block b)) (env_Peer env) (want_Auth w))"
proof -
  have "topics (e_peerRequestQueue e) \<subseteq> H" using eng_reach_asked [OF assms(1-4)] by (simp add: eng_asked_def)
  then have tasks: "(env_Peer env, t_Topic t) \<in> H" if "t \<in> set (env_tasks env)" for t
    using nextEnvelope_topics [OF assms(3), of itw bs store n wakes e] that by (simp add: assms(5)) blast
  obtain k pb where m: "ne_message itw bs (fst (store k)) (snd (store k)) (env_Peer env) (env_tasks env) pb = Some (env_Message env)"
    using nextEnvelope_message [OF assms(5)] by blast
  have "(env_Peer env, w) \<in> H" if "im_blockPresences (env_Message env) w = Some x" for w x
    using ne_message_holds(2) [OF m that] tasks by auto
  moreover have "\<exists>w k. (env_Peer env, w) \<in> H \<and> want_Auth (ab_want b) = want_Auth w \<and>
       src_stored bs (fst (store k)) (want_Cid w) (ab_block b) \<and>
       bs_allow bs (want_Cid w) (block_RawData (ab_block b)) (env_Peer env) (want_Auth w)"
    if vb: "im_blocks (env_Message env) v = Some b" for v b
  proof -
    obtain t where t: "t \<in> set (env_tasks env)" "block_for bs (fst (store k)) (env_Peer env) (t_Topic t) = Some (ab_block b)"
      "b = NewBlock (ab_block b) (want_Auth (t_Topic t))"
      using ne_message_holds(1) [OF m vb] by blast
    have "want_Auth (ab_want b) = want_Auth (t_Topic t)" by (subst t(3)) (simp add: NewBlock_def)
    with tasks [OF t(1)] block_for_allowed [OF t(2)] show ?thesis by blast
  qed
  ultimately show ?thesis by (auto simp: ran_def)
qed

text \<open>What a queue must do for a worker to come to an end: popping tasks leaves fewer of them.\<close>

definition queue_drains :: "'q PeerTaskQueue \<Rightarrow> ('q \<Rightarrow> nat) \<Rightarrow> bool" where
  "queue_drains Q load \<longleftrightarrow>
     (\<forall>n q p ts b q'. ptq_PopTasks Q n q = ((p, ts, b), q') \<longrightarrow> load q' \<le> load q \<and> (ts \<noteq> [] \<longrightarrow> load q' < load q)) \<and>
     (\<forall>p ts q. load (ptq_TasksDone Q p ts q) \<le> load q) \<and> (\<forall>q. load (ptq_ThawRound Q q) \<le> load q)"

lemma queue_drainsD:
  assumes "queue_drains Q load"
  shows "ptq_PopTasks Q n q = ((p, ts, b), q') \<Longrightarrow> load q' \<le> load q"
    "ptq_PopTasks Q n q = ((p, ts, b), q') \<Longrightarrow> ts \<noteq> [] \<Longrightarrow> load q' < load q"
    "load (ptq_TasksDone Q p ts q) \<le> load q" "load (ptq_ThawRound Q q) \<le> load q"
  using assms unfolding queue_drains_def by blast+

lemma nextEnvelope_stops:
  assumes "queue_drains Q load" "load (e_peerRequestQueue e) + length wakes < n"
  shows "fst (nextEnvelope Q itw bs store n wakes e) \<noteq> NextRunning"
  using assms(2)
proof (induction n arbitrary: wakes e)
  case (Suc n)
  obtain p ts pb q where pop: "ptq_PopTasks Q targetMessageSize (e_peerRequestQueue e) = ((p, ts, pb), q)" by (metis prod_cases3 surj_pair)
  note q = queue_drainsD [OF assms(1)]
  from pop show ?case
  proof (cases rule: nextEnvelope_cases [where itw = itw and bs = bs and store = store and n = n and wakes = wakes])
    case (woken w wk q' b)
    have "load q' \<le> load (e_peerRequestQueue e)" using woken(3) q(1) [OF pop] q(4) [of q] by auto
    then show ?thesis unfolding woken(4) using Suc.prems by (intro Suc.IH) (simp add: woken(2))
  next
    case empty
    have "load (ptq_TasksDone Q p ts q) < load (e_peerRequestQueue e)" using q(2) [OF pop empty(1)] q(3) [of p ts q] by simp
    then show ?thesis unfolding empty(2) using Suc.prems by (intro Suc.IH) simp
  qed auto
qed simp

lemma nextEnvelope_waits:
  assumes "fst (nextEnvelope Q itw bs store n wakes e) = NextWaiting"
  shows "CtxDone \<notin> set wakes"
  using assms
proof (induction n arbitrary: wakes e)
  case (Suc n)
  obtain p ts pb q where pop: "ptq_PopTasks Q targetMessageSize (e_peerRequestQueue e) = ((p, ts, pb), q)" by (metis prod_cases3 surj_pair)
  note r = nextEnvelope_round [OF pop, of itw bs store n]
  show ?case
  proof (cases "ts = []")
    case True
    show ?thesis
    proof (cases wakes)
      case (Cons w wk)
      then show ?thesis using Suc.IH Suc.prems r(2-4) [OF True, of wk] by (cases w) auto
    qed simp
  next
    case False
    then show ?thesis using Suc.IH Suc.prems r(5-7) [OF False]
      by (cases "ne_message itw bs (fst (store n)) (snd (store n)) p ts pb") (simp, metis fst_conv next_result.distinct(3))
  qed
qed simp

text \<open>C19. The loop of \<^verbatim>\<open>nextEnvelope\<close> ends. With a queue that has fewer tasks after each pop, a worker that is woken a finite number of
times comes, within as many rounds as there are tasks and wakes, to an envelope or an error, or it waits for work; and it never
waits once its context is cancelled. Messages that turn out empty do not keep it busy for ever.\<close>

theorem nextEnvelope_ends:
  assumes "queue_drains Q load" "load (e_peerRequestQueue e) + length wakes < n"
  shows "\<exists>r. fst (nextEnvelope Q itw bs store n wakes e) = r \<and>
    ((\<exists>env. r = Next env) \<or> r = NextError \<or> r = NextWaiting \<and> CtxDone \<notin> set wakes)"
  using nextEnvelope_stops [OF assms, of itw bs store] nextEnvelope_waits [of Q itw bs store n wakes e]
  by (cases "fst (nextEnvelope Q itw bs store n wakes e)") auto

section \<open>An example run\<close>

definition list_topics :: "(peer \<times> Task list) list \<Rightarrow> (peer \<times> Want) set" where
  "list_topics q = {(p, t_Topic t) | p ts t. (p, ts) \<in> set q \<and> t \<in> set ts}"

lemma list_queue_keeps: "queue_keeps list_queue list_topics"
  by (auto simp: queue_keeps_def list_queue_def list_topics_def split: list.splits if_splits) blast+

lemma list_queue_drains: "queue_drains list_queue length"
  by (auto simp: queue_drains_def list_queue_def split: list.splits)

definition ex_msg :: impl where
  "ex_msg = snd (impl_AddEntry (Want ''c'' ''key'') 1 Message_Wantlist_Block True (newMsg False))"

definition ex_engine :: "(peer \<times> Task list) list Engine" where
  "ex_engine = MessageReceived list_queue sorted_list_of_set ex_bs () None ''p'' ex_msg (NewEngine 8 ''self'' [])"

lemma ex_msg_wf: "impl_wf ex_msg"
  unfolding ex_msg_def by (intro inv_intros)

lemma ex_msg_wantlist: "im_wantlist ex_msg = [Want ''c'' ''key'' \<mapsto>
    \<lparr>me_Entry = \<lparr>e_Want = Want ''c'' ''key'', e_Priority = 1, e_WantType = Message_Wantlist_Block\<rparr>, me_Cancel = False, me_SendDontHave = True\<rparr>]"
  by (simp add: ex_msg_def impl_AddEntry_def impl_addEntry_def newMsg_def Let_def)

lemma ex_engine_reach: "eng_reach list_queue sorted_list_of_set sorted_list_of_set ex_bs [] ex_engine {(''p'', Want ''c'' ''key'')}"
proof -
  have "msg_wants ex_msg = {Want ''c'' ''key''}" by (auto simp: msg_wants_def ex_msg_wantlist)
  then show ?thesis unfolding ex_engine_def using eng_received [OF eng_new ex_msg_wf, where p = "''p''"] by simp
qed

lemma ex_engine_queue: "e_peerRequestQueue ex_engine = [(''p'', [ex_task ''key''])]"
proof -
  let ?en = "\<lparr>me_Entry = \<lparr>e_Want = Want ''c'' ''key'', e_Priority = 1, e_WantType = Message_Wantlist_Block\<rparr>, me_Cancel = False, me_SendDontHave = True\<rparr>"
  have l: "impl_Wantlist sorted_list_of_set ex_msg = [?en]" by (simp add: impl_Wantlist_def map_values_def ex_msg_wantlist List.map_filter_def)
  have s: "getBlockSizes ex_bs () None [Want ''c'' ''key''] = (True, [Want ''c'' ''key'' \<mapsto> 2])"
    by (simp add: getBlockSizes_def jobPerKey_def size_job_def AuthedBlockstore_GetSize_def ex_bs_def)
  have t: "mr_task [Want ''c'' ''key'' \<mapsto> 2] e ?en = Some (ex_task ''key'')" for e :: "(peer \<times> Task list) list Engine"
    by (simp add: mr_task_def have_task_def sendAsBlock_def ex_task_def Let_def)
  show ?thesis unfolding ex_engine_def MessageReceived_def splitWantsCancels_eq
    by (simp add: l s mr_ledger_eq(3) t Let_def List.map_filter_def mr_index_sel list_queue_def NewEngine_def newEngine_def)
qed

lemma ex_engine_run:
  "nextEnvelope list_queue sorted_list_of_set ex_bs (\<lambda>_. ((), None)) 2 [] ex_engine =
     (Next \<lparr>env_Peer = ''p'', env_Message = impl_AddBlock ex_block ''key'' (newMsg False), env_tasks = [ex_task ''key'']\<rparr>,
      ex_engine\<lparr>e_peerRequestQueue := []\<rparr>)"
proof -
  have "ptq_PopTasks list_queue targetMessageSize (e_peerRequestQueue ex_engine) = ((''p'', [ex_task ''key''], 0), [])"
    by (simp add: list_queue_def ex_engine_queue)
  moreover have "\<not> impl_Empty (impl_AddBlock ex_block ''key'' (newMsg False))" by (simp add: impl_Empty_def AddBlock_eq newMsg_def)
  ultimately show ?thesis unfolding numeral_2_eq_2 using ex_message [of "()" "''p''" "''key''"]
    by (intro nextEnvelope_round(7)) simp_all
qed

lemma ex_new: "e_ledgerMap (NewEngine n self q) = Map.empty" "had_wants m p (NewEngine n self q) = Map.empty"
  by (simp_all add: had_wants_def NewEngine_def newEngine_def)

lemma ex_engine_wanted:
  "wanted ex_engine p w =
     (if p = ''p'' \<and> w = Want ''c'' ''key'' then Some \<lparr>e_Want = w, e_Priority = 1, e_WantType = Message_Wantlist_Block\<rparr> else None)"
proof -
  obtain l where "e_ledgerMap ex_engine = [''p'' \<mapsto> l]" "\<forall>w. l_wantList l w = (case im_wantlist ex_msg w of
         None \<Rightarrow> None | Some en \<Rightarrow> if me_Cancel en then None
           else snd (Wantlist_Add w (e_Priority (me_Entry en)) (e_WantType (me_Entry en)) Map.empty) w)"
    using MessageReceived_parts(1) [OF ex_msg_wf iterates_sorted_list_of_set getBlockSizes_all,
      where bs = ex_bs and s = "()" and Q = list_queue and p = "''p''" and e = "NewEngine 8 ''self'' []", folded ex_engine_def, unfolded ex_new] by blast
  then show ?thesis by (simp add: wanted_def ex_msg_wantlist Wantlist_Add_def)
qed

theorem MessageReceived_effect_witness:
  "\<exists>l. e_ledgerMap ex_engine = [''p'' \<mapsto> l] \<and> dom (l_wantList l) = {Want ''c'' ''key''}"
proof -
  note effect = MessageReceived_effect [OF ex_msg_wf iterates_sorted_list_of_set, of list_queue ex_bs "()" "''p''" "NewEngine 8 ''self'' []",
      folded ex_engine_def, unfolded ex_new]
  obtain l where l: "e_ledgerMap ex_engine = [''p'' \<mapsto> l]" "\<forall>w. l_wantList l w = (case im_wantlist ex_msg w of
         None \<Rightarrow> None | Some en \<Rightarrow> if me_Cancel en then None
           else snd (Wantlist_Add w (e_Priority (me_Entry en)) (e_WantType (me_Entry en)) Map.empty) w)"
    using conjunct1 [OF effect] by blast
  have "dom (l_wantList l) = {Want ''c'' ''key''}"
    using l(2) by (auto simp: dom_def ex_msg_wantlist Wantlist_Add_def split: if_splits)
  with l(1) show ?thesis by blast
qed


theorem answers_only_asked_witness:
  "bs_allow ex_bs ''c'' (block_RawData ex_block) ''p'' ''key''"
proof -
  let ?m = "impl_AddBlock ex_block ''key'' (newMsg False)"
  have "list_topics [] = {}" by (simp add: list_topics_def)
  note all = answers_only_asked [OF ex_engine_reach iterates_sorted_list_of_set list_queue_keeps this ex_engine_run]
  have "im_blocks ?m (Want ''c'' ''key'') = Some (NewBlock ex_block ''key'')" by (simp add: AddBlock_eq newMsg_def ex_block_def)
  then have b: "NewBlock ex_block ''key'' \<in> ran (im_blocks ?m)" by (rule ranI)
  have "\<forall>b \<in> ran (im_blocks ?m). bs_allow ex_bs ''c'' (block_RawData (ab_block b)) ''p'' ''key''" using all by simp
  from bspec [OF this b] show ?thesis by simp
qed

theorem nextEnvelope_ends_witness:
  "\<exists>env. fst (nextEnvelope list_queue sorted_list_of_set ex_bs (\<lambda>_. ((), None)) 2 [] ex_engine) = Next env"
proof -
  have "length (e_peerRequestQueue ex_engine) + length ([] :: wake list) < 2" by (simp add: ex_engine_queue)
  from nextEnvelope_ends [OF list_queue_drains this, of sorted_list_of_set ex_bs "\<lambda>_. ((), None)"] show ?thesis
    unfolding ex_engine_run by simp
qed

end
