(* ===== verification/SessionPeers.thy ===== *)
theory SessionPeers
  imports Prelude
begin

text \<open>
  \<^verbatim>\<open>internal/sessionpeermanager/sessionpeermanager.go\<close>: the peers of a session, and the tags by which the connection manager
  keeps the connections to them. Operations return the calls they make to the tagger.
\<close>

section \<open>Operations\<close>

abbreviation (input) sessionPeerTagValue :: int where
  "sessionPeerTagValue \<equiv> 5"

datatype spm_call = spm_TagPeer peer int | spm_UntagPeer peer | spm_Protect peer | spm_Unprotect peer

record SessionPeerManager =
  spm_id :: uint64
  spm_peers :: "peer set"
  spm_peersDiscovered :: bool

definition spm_New :: "uint64 \<Rightarrow> SessionPeerManager" where
  "spm_New sid = \<lparr>spm_id = sid, spm_peers = {}, spm_peersDiscovered = False\<rparr>"

definition AddPeer :: "peer \<Rightarrow> SessionPeerManager \<Rightarrow> bool \<times> SessionPeerManager \<times> spm_call list" where
  "AddPeer p spm =
     (if p \<in> spm_peers spm then (False, spm, [])
      else (True, spm\<lparr>spm_peers := insert p (spm_peers spm), spm_peersDiscovered := True\<rparr>, [spm_TagPeer p sessionPeerTagValue]))"

definition ProtectConnection :: "peer \<Rightarrow> SessionPeerManager \<Rightarrow> spm_call list" where
  "ProtectConnection p spm = (if p \<notin> spm_peers spm then [] else [spm_Protect p])"

definition RemovePeer :: "peer \<Rightarrow> SessionPeerManager \<Rightarrow> bool \<times> SessionPeerManager \<times> spm_call list" where
  "RemovePeer p spm =
     (if p \<notin> spm_peers spm then (False, spm, [])
      else (True, spm\<lparr>spm_peers := spm_peers spm - {p}\<rparr>, [spm_UntagPeer p, spm_Unprotect p]))"

definition PeersDiscovered :: "SessionPeerManager \<Rightarrow> bool" where
  "PeersDiscovered spm = spm_peersDiscovered spm"

definition spm_Peers :: "(peer set \<Rightarrow> peer list) \<Rightarrow> SessionPeerManager \<Rightarrow> peer list" where
  "spm_Peers itp spm = itp (spm_peers spm)"

definition HasPeers :: "SessionPeerManager \<Rightarrow> bool" where
  "HasPeers spm \<longleftrightarrow> spm_peers spm \<noteq> {}"

definition HasPeer :: "peer \<Rightarrow> SessionPeerManager \<Rightarrow> bool" where
  "HasPeer p spm \<longleftrightarrow> p \<in> spm_peers spm"

definition spm_Shutdown :: "(peer set \<Rightarrow> peer list) \<Rightarrow> SessionPeerManager \<Rightarrow> spm_call list" where
  "spm_Shutdown itp spm = concat (map (\<lambda>p. [spm_UntagPeer p, spm_Unprotect p]) (itp (spm_peers spm)))"

section \<open>The tags at the connection manager\<close>

text \<open>The peers that carry the tag of the session, and the peers that it protects.\<close>

fun tag_call :: "spm_call \<Rightarrow> peer set \<times> peer set \<Rightarrow> peer set \<times> peer set" where
  "tag_call (spm_TagPeer p n) (tagged, prot) = (insert p tagged, prot)"
| "tag_call (spm_UntagPeer p) (tagged, prot) = (tagged - {p}, prot)"
| "tag_call (spm_Protect p) (tagged, prot) = (tagged, insert p prot)"
| "tag_call (spm_Unprotect p) (tagged, prot) = (tagged, prot - {p})"

text \<open>A session peer manager together with the tags that its calls have left.\<close>

inductive spm_reach :: "SessionPeerManager \<Rightarrow> peer set \<times> peer set \<Rightarrow> bool" where
  spm_new: "spm_reach (spm_New sid) ({}, {})"
| spm_add: "spm_reach spm ts \<Longrightarrow> AddPeer p spm = (b, spm', cs) \<Longrightarrow> spm_reach spm' (fold tag_call cs ts)"
| spm_remove: "spm_reach spm ts \<Longrightarrow> RemovePeer p spm = (b, spm', cs) \<Longrightarrow> spm_reach spm' (fold tag_call cs ts)"
| spm_protect: "spm_reach spm ts \<Longrightarrow> spm_reach spm (fold tag_call (ProtectConnection p spm) ts)"

lemma shutdown_tags:
  "fold tag_call (concat (map (\<lambda>p. [spm_UntagPeer p, spm_Unprotect p]) ps)) (tagged, prot) = (tagged - set ps, prot - set ps)"
  by (induction ps arbitrary: tagged prot) auto

lemma spm_reach_tags:
  assumes "spm_reach spm ts"
  shows "finite (spm_peers spm) \<and> fst ts = spm_peers spm \<and> snd ts \<subseteq> spm_peers spm \<and> (spm_peers spm \<noteq> {} \<longrightarrow> spm_peersDiscovered spm)"
  using assms
proof induction
  case (spm_add spm ts p b spm' cs)
  then show ?case by (cases ts) (auto simp: AddPeer_def split: if_splits)
next
  case (spm_remove spm ts p b spm' cs)
  then show ?case by (cases ts) (auto simp: RemovePeer_def split: if_splits)
next
  case (spm_protect spm ts p)
  then show ?case by (cases ts) (auto simp: ProtectConnection_def split: if_splits)
qed (simp add: spm_New_def)



end
