(* ===== verification/SessionSender.thy ===== *)
theory SessionSender
  imports BlockPresence SessionInterest SessionPeers Complex_Main
begin

text \<open>
  \<^verbatim>\<open>internal/session/sessionwantsender.go\<close> with \<^verbatim>\<open>peerresponsetracker.go\<close> and \<^verbatim>\<open>sentwantblockstracker.go\<close>: for each want
  of a session, a want-block goes to one peer and want-haves to the others, and the answers decide who is asked next.

  The block presence manager is shared between sessions: operations that read it take it as the argument \<open>bpm\<close>. The calls made to
  other components are collected in \<open>sws_calls\<close>. \<open>rnd\<close> holds the numbers drawn by \<^verbatim>\<open>math/rand\<close>, one for each time the best peer of a
  want is calculated. The goroutine that reports peers to be pruned is the list \<open>sws_prune\<close> of reports it has not made yet.
\<close>

section \<open>Trackers\<close>

type_synonym peerResponseTracker = "peer \<rightharpoonup> int"

definition newPeerResponseTracker :: peerResponseTracker where
  "newPeerResponseTracker = Map.empty"

definition receivedBlockFrom :: "peer \<Rightarrow> peerResponseTracker \<Rightarrow> peerResponseTracker" where
  "receivedBlockFrom from prt = prt(from \<mapsto> (case prt from of None \<Rightarrow> 0 | Some n \<Rightarrow> n) + 1)"

definition getPeerCount :: "peerResponseTracker \<Rightarrow> peer \<Rightarrow> int" where
  "getPeerCount prt p = (case prt p of Some count \<Rightarrow> count | None \<Rightarrow> 1)"

fun choose_loop :: "peerResponseTracker \<Rightarrow> rat \<Rightarrow> int \<Rightarrow> rat \<Rightarrow> peer list \<Rightarrow> peer option" where
  "choose_loop prt rnd total' counted [] = None"
| "choose_loop prt rnd total' counted (p # ps) =
     (let counted = counted + of_int (getPeerCount prt p) / of_int total'
      in if counted > rnd then Some p else choose_loop prt rnd total' counted ps)"

definition prt_choose :: "peerResponseTracker \<Rightarrow> rat \<Rightarrow> peer list \<Rightarrow> peer" where
  "prt_choose prt rnd peers =
     (if peers = [] then no_peer
      else let total' = fold (\<lambda>p t. t + getPeerCount prt p) peers 0
           in case choose_loop prt rnd total' 0 peers of Some p \<Rightarrow> p | None \<Rightarrow> last peers)"

type_synonym sentWantBlocksTracker = "peer \<rightharpoonup> Want set"

definition newSentWantBlocksTracker :: sentWantBlocksTracker where
  "newSentWantBlocksTracker = Map.empty"

definition addSentWantBlocksTo :: "peer \<Rightarrow> Want list \<Rightarrow> sentWantBlocksTracker \<Rightarrow> sentWantBlocksTracker" where
  "addSentWantBlocksTo p ks s =
     (let cids = (case s p of None \<Rightarrow> {} | Some cids \<Rightarrow> cids) in s(p \<mapsto> fold insert ks cids))"

definition haveSentWantBlockTo :: "sentWantBlocksTracker \<Rightarrow> peer \<Rightarrow> Want \<Rightarrow> bool" where
  "haveSentWantBlockTo s p w \<longleftrightarrow> w \<in> lookup_set s p"

section \<open>What is known about a want\<close>

datatype BlockPresence = BPDontHave | BPUnknown | BPHave

definition bp_rank :: "BlockPresence \<Rightarrow> nat" where
  "bp_rank b = (case b of BPDontHave \<Rightarrow> 0 | BPUnknown \<Rightarrow> 1 | BPHave \<Rightarrow> 2)"

instantiation BlockPresence :: linorder
begin

definition less_eq_BlockPresence :: "BlockPresence \<Rightarrow> BlockPresence \<Rightarrow> bool" where
  "less_eq_BlockPresence a b \<longleftrightarrow> bp_rank a \<le> bp_rank b"

definition less_BlockPresence :: "BlockPresence \<Rightarrow> BlockPresence \<Rightarrow> bool" where
  "less_BlockPresence a b \<longleftrightarrow> bp_rank a < bp_rank b"

instance
  by standard (auto simp: less_eq_BlockPresence_def less_BlockPresence_def bp_rank_def split: BlockPresence.splits)

end

lemma BPDontHave_least [simp]: "BPDontHave \<le> b"
  by (simp add: less_eq_BlockPresence_def bp_rank_def)

lemma BPDontHave_less [simp]: "BPDontHave < b \<longleftrightarrow> b \<noteq> BPDontHave"
  by (cases b) (simp_all add: less_BlockPresence_def bp_rank_def)

record wantInfo =
  wi_blockPresence :: "peer \<rightharpoonup> BlockPresence"
  wi_sentTo :: peer
  wi_bestPeer :: peer
  wi_exhausted :: bool

definition newWantInfo :: wantInfo where
  "newWantInfo = \<lparr>wi_blockPresence = Map.empty, wi_sentTo = no_peer, wi_bestPeer = no_peer, wi_exhausted = False\<rparr>"

text \<open>The loop that looks for the best presence, the first peer that has it and how many have it.\<close>

definition best_step :: "(peer \<rightharpoonup> BlockPresence) \<Rightarrow> peer \<Rightarrow> BlockPresence \<times> peer \<times> nat \<Rightarrow> BlockPresence \<times> peer \<times> nat" where
  "best_step bps p st =
     (case st of (bestBP, bestPeer, countWithBest) \<Rightarrow>
        case bps p of
          None \<Rightarrow> st
        | Some bp \<Rightarrow>
            if bp > bestBP then (bp, p, 1)
            else if bp = bestBP then (bestBP, bestPeer, countWithBest + 1) else st)"

definition calculateBestPeer :: "(peer set \<Rightarrow> peer list) \<Rightarrow> rat \<Rightarrow> peerResponseTracker \<Rightarrow> wantInfo \<Rightarrow> wantInfo" where
  "calculateBestPeer itp r prt wi =
     (let bps = wi_blockPresence wi; order = itp (dom bps)
      in case fold (best_step bps) order (BPDontHave, no_peer, 0) of (bestBP, bestPeer, countWithBest) \<Rightarrow>
         let wi = wi\<lparr>wi_bestPeer := bestPeer\<rparr>
         in if bestPeer = no_peer then wi
            else if countWithBest \<le> 1 then wi
            else let peersWithBest = filter (\<lambda>p. bps p = Some bestBP) order
                 in wi\<lparr>wi_bestPeer := prt_choose prt r peersWithBest\<rparr>)"

definition setPeerBlockPresence ::
  "(peer set \<Rightarrow> peer list) \<Rightarrow> rat \<Rightarrow> peerResponseTracker \<Rightarrow> peer \<Rightarrow> BlockPresence \<Rightarrow> wantInfo \<Rightarrow> wantInfo" where
  "setPeerBlockPresence itp r prt p bp wi =
     (let wi = wi\<lparr>wi_blockPresence := (wi_blockPresence wi)(p \<mapsto> bp)\<rparr>;
          wi = calculateBestPeer itp r prt wi
      in if bp = BPHave then wi\<lparr>wi_exhausted := False\<rparr> else wi)"

definition wi_removePeer :: "(peer set \<Rightarrow> peer list) \<Rightarrow> rat \<Rightarrow> peerResponseTracker \<Rightarrow> peer \<Rightarrow> wantInfo \<Rightarrow> wantInfo" where
  "wi_removePeer itp r prt p wi =
     (let wi = (if p = wi_sentTo wi then wi\<lparr>wi_sentTo := no_peer\<rparr> else wi);
          wi = wi\<lparr>wi_blockPresence := (wi_blockPresence wi)(p := None)\<rparr>
      in calculateBestPeer itp r prt wi)"

section \<open>The sender\<close>

abbreviation (input) changesBufferSize :: nat where
  "changesBufferSize \<equiv> 128"

abbreviation (input) peerDontHaveLimit :: int where
  "peerDontHaveLimit \<equiv> 16"

record sws_update =
  upd_from :: peer
  upd_ks :: "Want list"
  upd_haves :: "Want list"
  upd_dontHaves :: "Want list"

record peerAvailability =
  pa_target :: peer
  pa_available :: bool

record change =
  ch_add :: "Want list"
  ch_cancel :: "Want list"
  ch_update :: sws_update
  ch_availability :: peerAvailability

definition no_change :: change where
  "no_change = \<lparr>ch_add = [], ch_cancel = [], ch_update = \<lparr>upd_from = no_peer, upd_ks = [], upd_haves = [], upd_dontHaves = []\<rparr>,
     ch_availability = \<lparr>pa_target = no_peer, pa_available = False\<rparr>\<rparr>"

datatype sws_call =
    Call_RegisterSession peer
  | Call_UnregisterSession
  | Call_SendWants peer "Want list" "Want list"
  | Call_onSend peer "Want list" "Want list"
  | Call_onPeersExhausted "Want list"
  | Call_CancelSessionWants "Want list"
  | Call_tagger spm_call

record sessionWantSender =
  sws_sessionID :: session_id
  sws_changes :: "change list"
  sws_wants :: "Want \<rightharpoonup> wantInfo"
  sws_wantDups :: "cid \<rightharpoonup> Want list"
  sws_peerConsecutiveDontHaves :: "peer \<rightharpoonup> int"
  sws_swbt :: sentWantBlocksTracker
  sws_peerRspTrkr :: peerResponseTracker
  sws_spm :: SessionPeerManager
  sws_calls :: "sws_call list"
  sws_prune :: "peer list"
  sws_draws :: nat
  sws_closed :: bool

definition newSessionWantSender :: "session_id \<Rightarrow> SessionPeerManager \<Rightarrow> sessionWantSender" where
  "newSessionWantSender sid spm =
     \<lparr>sws_sessionID = sid, sws_changes = [], sws_wants = Map.empty, sws_wantDups = Map.empty,
      sws_peerConsecutiveDontHaves = Map.empty, sws_swbt = newSentWantBlocksTracker, sws_peerRspTrkr = newPeerResponseTracker,
      sws_spm = spm, sws_calls = [], sws_prune = [], sws_draws = 0, sws_closed = False\<rparr>"

definition emit :: "sws_call list \<Rightarrow> sessionWantSender \<Rightarrow> sessionWantSender" where
  "emit cs s = s\<lparr>sws_calls := sws_calls s @ cs\<rparr>"

text \<open>Changes are put into a channel; a caller that finds it full waits, or leaves a goroutine waiting.\<close>

definition addChange :: "change \<Rightarrow> sessionWantSender \<Rightarrow> sessionWantSender" where
  "addChange c s = s\<lparr>sws_changes := sws_changes s @ [c]\<rparr>"

definition sws_Add :: "Want list \<Rightarrow> sessionWantSender \<Rightarrow> sessionWantSender" where
  "sws_Add ws s = (if ws = [] then s else addChange (no_change\<lparr>ch_add := ws\<rparr>) s)"

definition sws_Cancel :: "Want list \<Rightarrow> sessionWantSender \<Rightarrow> sessionWantSender" where
  "sws_Cancel ws s = (if ws = [] then s else addChange (no_change\<lparr>ch_cancel := ws\<rparr>) s)"

definition sws_Update :: "peer \<Rightarrow> Want list \<Rightarrow> Want list \<Rightarrow> Want list \<Rightarrow> sessionWantSender \<Rightarrow> sessionWantSender" where
  "sws_Update from ks haves dontHaves s =
     (let hasUpdate = (ks \<noteq> [] \<or> haves \<noteq> [] \<or> dontHaves \<noteq> [])
      in if \<not> hasUpdate then s
         else addChange (no_change\<lparr>ch_update := \<lparr>upd_from = from, upd_ks = ks, upd_haves = haves, upd_dontHaves = dontHaves\<rparr>\<rparr>) s)"

definition SignalAvailability :: "peer \<Rightarrow> bool \<Rightarrow> sessionWantSender \<Rightarrow> sessionWantSender" where
  "SignalAvailability p isAvailable s =
     addChange (no_change\<lparr>ch_availability := \<lparr>pa_target = p, pa_available = isAvailable\<rparr>\<rparr>) s"

definition collectChanges :: "change list \<Rightarrow> sessionWantSender \<Rightarrow> change list \<times> sessionWantSender" where
  "collectChanges changes s =
     (let n = changesBufferSize - length changes
      in (changes @ take n (sws_changes s), s\<lparr>sws_changes := drop n (sws_changes s)\<rparr>))"

subsection \<open>Wants and presences\<close>

definition updateWantBlockPresence ::
  "(peer set \<Rightarrow> peer list) \<Rightarrow> (nat \<Rightarrow> rat) \<Rightarrow> BlockPresenceManager \<Rightarrow> Want \<Rightarrow> peer \<Rightarrow> sessionWantSender \<Rightarrow> sessionWantSender" where
  "updateWantBlockPresence itp rnd bpm w p s =
     (case sws_wants s w of
        None \<Rightarrow> s
      | Some wi \<Rightarrow>
          let bp = (if PeerHasBlock bpm p (want_Cid w) then BPHave
                    else if PeerDoesNotHaveBlock bpm p (want_Cid w) then BPDontHave else BPUnknown)
          in s\<lparr>sws_wants := (sws_wants s)(w \<mapsto> setPeerBlockPresence itp (rnd (sws_draws s)) (sws_peerRspTrkr s) p bp wi),
               sws_draws := sws_draws s + 1\<rparr>)"

definition trackWant ::
  "(peer set \<Rightarrow> peer list) \<Rightarrow> (nat \<Rightarrow> rat) \<Rightarrow> BlockPresenceManager \<Rightarrow> Want \<Rightarrow> sessionWantSender \<Rightarrow> sessionWantSender" where
  "trackWant itp rnd bpm w s =
     (case sws_wants s w of
        Some _ \<Rightarrow> s
      | None \<Rightarrow>
          let dups = (case sws_wantDups s (want_Cid w) of None \<Rightarrow> [] | Some ws \<Rightarrow> ws);
              s = s\<lparr>sws_wants := (sws_wants s)(w \<mapsto> newWantInfo),
                   sws_wantDups := (sws_wantDups s)(want_Cid w \<mapsto> (if length dups = 0 then [w] else dups @ [w]))\<rparr>
          in fold (updateWantBlockPresence itp rnd bpm w) (spm_Peers itp (sws_spm s)) s)"

definition untrackWant :: "Want \<Rightarrow> sessionWantSender \<Rightarrow> sessionWantSender" where
  "untrackWant w s = s\<lparr>sws_wants := (sws_wants s)(w := None)\<rparr>"

definition removeWant :: "Want \<Rightarrow> sessionWantSender \<Rightarrow> wantInfo option \<times> sessionWantSender" where
  "removeWant w s =
     (case sws_wants s w of Some wi \<Rightarrow> (Some wi, s\<lparr>sws_wants := (sws_wants s)(w := None)\<rparr>) | None \<Rightarrow> (None, s))"

definition getWantSentTo :: "Want \<Rightarrow> sessionWantSender \<Rightarrow> peer option" where
  "getWantSentTo w s = (case sws_wants s w of Some wi \<Rightarrow> Some (wi_sentTo wi) | None \<Rightarrow> None)"

definition setWantSentTo :: "Want \<Rightarrow> peer \<Rightarrow> sessionWantSender \<Rightarrow> sessionWantSender" where
  "setWantSentTo w p s =
     (case sws_wants s w of Some wi \<Rightarrow> s\<lparr>sws_wants := (sws_wants s)(w \<mapsto> wi\<lparr>wi_sentTo := p\<rparr>)\<rparr> | None \<Rightarrow> s)"

definition availability_step ::
  "(peer set \<Rightarrow> peer list) \<Rightarrow> (nat \<Rightarrow> rat) \<Rightarrow> BlockPresenceManager \<Rightarrow> peer \<Rightarrow> bool \<Rightarrow> Want \<Rightarrow> sessionWantSender \<Rightarrow> sessionWantSender" where
  "availability_step itp rnd bpm p isNowAvailable w s =
     (if isNowAvailable then updateWantBlockPresence itp rnd bpm w p s
      else case sws_wants s w of
             None \<Rightarrow> s
           | Some wi \<Rightarrow>
               s\<lparr>sws_wants := (sws_wants s)(w \<mapsto> wi_removePeer itp (rnd (sws_draws s)) (sws_peerRspTrkr s) p wi),
                 sws_draws := sws_draws s + 1\<rparr>)"

definition updateWantsPeerAvailability ::
  "(Want set \<Rightarrow> Want list) \<Rightarrow> (peer set \<Rightarrow> peer list) \<Rightarrow> (nat \<Rightarrow> rat) \<Rightarrow> BlockPresenceManager \<Rightarrow> peer \<Rightarrow> bool
     \<Rightarrow> sessionWantSender \<Rightarrow> sessionWantSender" where
  "updateWantsPeerAvailability itw itp rnd bpm p isNowAvailable s =
     fold (availability_step itp rnd bpm p isNowAvailable) (itw (dom (sws_wants s))) s"

definition available_peer ::
  "(Want set \<Rightarrow> Want list) \<Rightarrow> (peer set \<Rightarrow> peer list) \<Rightarrow> (nat \<Rightarrow> rat) \<Rightarrow> BlockPresenceManager \<Rightarrow> (peer \<rightharpoonup> bool) \<Rightarrow> peer
     \<Rightarrow> sessionWantSender \<times> peer list \<times> peer list \<Rightarrow> sessionWantSender \<times> peer list \<times> peer list" where
  "available_peer itw itp rnd bpm availability p st =
     (case st of (s, newlyAvailable, newlyUnavailable) \<Rightarrow>
        let isNowAvailable = (availability p = Some True)
        in case (if isNowAvailable then AddPeer p (sws_spm s) else RemovePeer p (sws_spm s)) of (stateChange, spm, cs) \<Rightarrow>
           let s = emit (map Call_tagger cs) (s\<lparr>sws_spm := spm\<rparr>)
           in if stateChange
              then let s = updateWantsPeerAvailability itw itp rnd bpm p isNowAvailable s;
                       s = s\<lparr>sws_peerConsecutiveDontHaves := (sws_peerConsecutiveDontHaves s)(p := None)\<rparr>
                   in if isNowAvailable then (s, newlyAvailable @ [p], newlyUnavailable)
                      else (s, newlyAvailable, newlyUnavailable @ [p])
              else (s, newlyAvailable, newlyUnavailable))"

definition processAvailability ::
  "(Want set \<Rightarrow> Want list) \<Rightarrow> (peer set \<Rightarrow> peer list) \<Rightarrow> (nat \<Rightarrow> rat) \<Rightarrow> BlockPresenceManager \<Rightarrow> (peer \<rightharpoonup> bool)
     \<Rightarrow> sessionWantSender \<Rightarrow> sessionWantSender \<times> peer list \<times> peer list" where
  "processAvailability itw itp rnd bpm availability s =
     fold (available_peer itw itp rnd bpm availability) (itp (dom availability)) (s, [], [])"

subsection \<open>Messages\<close>

text \<open>Blocks, DONT_HAVEs and HAVEs are processed in three passes over the updates.\<close>

definition block_step :: "peer \<Rightarrow> Want \<Rightarrow> sessionWantSender \<times> Want set \<Rightarrow> sessionWantSender \<times> Want set" where
  "block_step from c st =
     (case st of (s, blkCids) \<Rightarrow>
        case removeWant c s of (removed, s) \<Rightarrow>
          let s = (if removed \<noteq> None
                   then emit (map Call_tagger (ProtectConnection from (sws_spm s)))
                          (s\<lparr>sws_peerRspTrkr := receivedBlockFrom from (sws_peerRspTrkr s)\<rparr>)
                   else s)
          in (s\<lparr>sws_peerConsecutiveDontHaves := (sws_peerConsecutiveDontHaves s)(from := None)\<rparr>, insert c blkCids))"

definition dont_have_count :: "peer \<Rightarrow> sessionWantSender \<times> peer set \<Rightarrow> sessionWantSender \<times> peer set" where
  "dont_have_count from st =
     (case st of (s, prunePeers) \<Rightarrow>
        let n = (case sws_peerConsecutiveDontHaves s from of None \<Rightarrow> 0 | Some n \<Rightarrow> n)
        in if n = peerDontHaveLimit then (s, insert from prunePeers)
           else (s\<lparr>sws_peerConsecutiveDontHaves := (sws_peerConsecutiveDontHaves s)(from \<mapsto> n + 1)\<rparr>, prunePeers))"

definition dont_have_want ::
  "(peer set \<Rightarrow> peer list) \<Rightarrow> (nat \<Rightarrow> rat) \<Rightarrow> BlockPresenceManager \<Rightarrow> peer \<Rightarrow> Want \<Rightarrow> sessionWantSender \<Rightarrow> sessionWantSender" where
  "dont_have_want itp rnd bpm from w s =
     (let s = updateWantBlockPresence itp rnd bpm w from s
      in if haveSentWantBlockTo (sws_swbt s) from w
         then if getWantSentTo w s = Some from then setWantSentTo w no_peer s else s
         else s)"

definition dont_have_step ::
  "(peer set \<Rightarrow> peer list) \<Rightarrow> (nat \<Rightarrow> rat) \<Rightarrow> BlockPresenceManager \<Rightarrow> Want set \<Rightarrow> peer \<Rightarrow> Want
     \<Rightarrow> sessionWantSender \<times> peer set \<times> Want list \<Rightarrow> sessionWantSender \<times> peer set \<times> Want list" where
  "dont_have_step itp rnd bpm blkCids from w st =
     (case st of (s, prunePeers, dontHaves) \<Rightarrow>
        case dont_have_count from (s, prunePeers) of (s, prunePeers) \<Rightarrow>
          if w \<in> blkCids then (s, prunePeers, dontHaves)
          else (dont_have_want itp rnd bpm from w s, prunePeers, dontHaves @ [w]))"

definition have_step ::
  "(peer set \<Rightarrow> peer list) \<Rightarrow> (nat \<Rightarrow> rat) \<Rightarrow> BlockPresenceManager \<Rightarrow> Want set \<Rightarrow> peer \<Rightarrow> Want
     \<Rightarrow> sessionWantSender \<times> peer set \<Rightarrow> sessionWantSender \<times> peer set" where
  "have_step itp rnd bpm blkCids from w st =
     (case st of (s, prunePeers) \<Rightarrow>
        let s = (if w \<notin> blkCids then updateWantBlockPresence itp rnd bpm w from s else s)
        in (s\<lparr>sws_peerConsecutiveDontHaves := (sws_peerConsecutiveDontHaves s)(from := None)\<rparr>, prunePeers - {from}))"

definition still_wanted_from :: "(Want set \<Rightarrow> Want list) \<Rightarrow> BlockPresenceManager \<Rightarrow> sessionWantSender \<Rightarrow> peer \<Rightarrow> bool" where
  "still_wanted_from itw bpm s p \<longleftrightarrow> list_ex (\<lambda>c. PeerHasBlock bpm p (want_Cid c)) (itw (dom (sws_wants s)))"

definition prune_peers ::
  "(Want set \<Rightarrow> Want list) \<Rightarrow> (peer set \<Rightarrow> peer list) \<Rightarrow> BlockPresenceManager \<Rightarrow> peer set \<Rightarrow> sessionWantSender \<Rightarrow> sessionWantSender" where
  "prune_peers itw itp bpm prunePeers s =
     (let prunePeers = fold (\<lambda>p ps. if still_wanted_from itw bpm s p then ps - {p} else ps) (itp prunePeers) prunePeers
      in s\<lparr>sws_prune := sws_prune s @ itp prunePeers\<rparr>)"

definition process_blocks :: "sws_update list \<Rightarrow> sessionWantSender \<Rightarrow> sessionWantSender \<times> Want set" where
  "process_blocks updates s = fold (\<lambda>upd. fold (block_step (upd_from upd)) (upd_ks upd)) updates (s, {})"

definition process_dontHaves ::
  "(peer set \<Rightarrow> peer list) \<Rightarrow> (nat \<Rightarrow> rat) \<Rightarrow> BlockPresenceManager \<Rightarrow> Want set \<Rightarrow> sws_update list \<Rightarrow> sessionWantSender
     \<Rightarrow> sessionWantSender \<times> peer set \<times> Want list" where
  "process_dontHaves itp rnd bpm blkCids updates s =
     fold (\<lambda>upd. fold (dont_have_step itp rnd bpm blkCids (upd_from upd)) (upd_dontHaves upd)) updates (s, {}, [])"

definition process_haves ::
  "(peer set \<Rightarrow> peer list) \<Rightarrow> (nat \<Rightarrow> rat) \<Rightarrow> BlockPresenceManager \<Rightarrow> Want set \<Rightarrow> sws_update list \<Rightarrow> sessionWantSender \<times> peer set
     \<Rightarrow> sessionWantSender \<times> peer set" where
  "process_haves itp rnd bpm blkCids updates st =
     fold (\<lambda>upd. fold (have_step itp rnd bpm blkCids (upd_from upd)) (upd_haves upd)) updates st"

definition processUpdates ::
  "(Want set \<Rightarrow> Want list) \<Rightarrow> (peer set \<Rightarrow> peer list) \<Rightarrow> (nat \<Rightarrow> rat) \<Rightarrow> BlockPresenceManager \<Rightarrow> sws_update list \<Rightarrow> sessionWantSender
     \<Rightarrow> sessionWantSender \<times> Want list" where
  "processUpdates itw itp rnd bpm updates s =
     (case process_blocks updates s of (s, blkCids) \<Rightarrow>
      case process_dontHaves itp rnd bpm blkCids updates s of (s, prunePeers, dontHaves) \<Rightarrow>
      case process_haves itp rnd bpm blkCids updates (s, prunePeers) of (s, prunePeers) \<Rightarrow>
        (prune_peers itw itp bpm prunePeers s, dontHaves))"

text \<open>The goroutine started by \<^verbatim>\<open>processUpdates\<close> reports one peer.\<close>

definition report_pruned :: "sessionWantSender \<Rightarrow> sessionWantSender" where
  "report_pruned s =
     (case sws_prune s of [] \<Rightarrow> s | p # ps \<Rightarrow> SignalAvailability p False (s\<lparr>sws_prune := ps\<rparr>))"

subsection \<open>Exhausted wants\<close>

definition exhausted_step :: "Want \<Rightarrow> sessionWantSender \<times> Want list \<Rightarrow> sessionWantSender \<times> Want list" where
  "exhausted_step w st =
     (case st of (s, res) \<Rightarrow>
        case sws_wants s w of
          None \<Rightarrow> (s, res)
        | Some wi \<Rightarrow>
            if \<not> wi_exhausted wi
            then (s\<lparr>sws_wants := (sws_wants s)(w \<mapsto> wi\<lparr>wi_exhausted := True\<rparr>)\<rparr>, res @ [w])
            else (s, res))"

definition newlyExhausted :: "Want list \<Rightarrow> sessionWantSender \<Rightarrow> sessionWantSender \<times> Want list" where
  "newlyExhausted ws s = fold exhausted_step ws (s, [])"

definition processExhaustedWants :: "Want list \<Rightarrow> sessionWantSender \<Rightarrow> sessionWantSender" where
  "processExhaustedWants exhausted s =
     (case newlyExhausted exhausted s of (s, newly) \<Rightarrow> if newly \<noteq> [] then emit [Call_onPeersExhausted newly] s else s)"

text \<open>\<^verbatim>\<open>make([]auth.Want, len(sws.wants))\<close> gives that many zero wants, to which the pending wants are appended.\<close>

definition checkForExhaustedWants ::
  "(Want set \<Rightarrow> Want list) \<Rightarrow> (peer set \<Rightarrow> peer list) \<Rightarrow> BlockPresenceManager \<Rightarrow> Want list \<Rightarrow> peer list \<Rightarrow> sessionWantSender \<Rightarrow> sessionWantSender" where
  "checkForExhaustedWants itw itp bpm dontHaves newlyUnavailable s =
     (if dontHaves = [] \<and> newlyUnavailable = [] then s
      else let wants = (if newlyUnavailable \<noteq> []
                        then replicate (card (dom (sws_wants s))) Undef @ itw (dom (sws_wants s)) else dontHaves)
           in if newlyUnavailable \<noteq> [] \<and> \<not> HasPeers (sws_spm s) then processExhaustedWants wants s
              else if wants \<noteq> []
              then processExhaustedWants (AllPeersDoNotHaveBlock bpm (spm_Peers itp (sws_spm s)) wants) s
              else s)"

subsection \<open>Sending\<close>

type_synonym wantSets = "Want set \<times> Want set"

type_synonym allWants = "peer \<rightharpoonup> wantSets"

definition forPeer :: "peer \<Rightarrow> allWants \<Rightarrow> wantSets" where
  "forPeer p aw = (case aw p of None \<Rightarrow> ({}, {}) | Some ws \<Rightarrow> ws)"

definition add_wantBlock :: "peer \<Rightarrow> Want \<Rightarrow> allWants \<Rightarrow> allWants" where
  "add_wantBlock p w aw = aw(p \<mapsto> (insert w (fst (forPeer p aw)), snd (forPeer p aw)))"

definition add_wantHave :: "peer \<Rightarrow> Want \<Rightarrow> allWants \<Rightarrow> allWants" where
  "add_wantHave p w aw = aw(p \<mapsto> (fst (forPeer p aw), insert w (snd (forPeer p aw))))"

definition next_want ::
  "(peer set \<Rightarrow> peer list) \<Rightarrow> peer list \<Rightarrow> Want \<Rightarrow> sessionWantSender \<times> allWants \<Rightarrow> sessionWantSender \<times> allWants" where
  "next_want itp newlyAvailable w st =
     (case st of (s, toSend) \<Rightarrow>
        case sws_wants s w of
          None \<Rightarrow> st
        | Some wi \<Rightarrow>
            let toSend = fold (\<lambda>p. add_wantHave p w) newlyAvailable toSend
            in if wi_sentTo wi \<noteq> no_peer then (s, toSend)
               else if wi_bestPeer wi = no_peer then (s, toSend)
               else let s = setWantSentTo w (wi_bestPeer wi) s;
                        toSend = add_wantBlock (wi_bestPeer wi) w toSend
                    in (s, fold (\<lambda>p aw. if p \<noteq> wi_bestPeer wi then add_wantHave p w aw else aw) (spm_Peers itp (sws_spm s)) toSend))"

definition getPiggybackWantHaves :: "(Want set \<Rightarrow> Want list) \<Rightarrow> peer \<Rightarrow> Want set \<Rightarrow> sessionWantSender \<Rightarrow> Want list" where
  "getPiggybackWantHaves itw p wantBlocks s =
     filter (\<lambda>w. w \<notin> wantBlocks \<and> \<not> haveSentWantBlockTo (sws_swbt s) p w) (itw (dom (sws_wants s)))"

definition send_to :: "(Want set \<Rightarrow> Want list) \<Rightarrow> allWants \<Rightarrow> peer \<Rightarrow> sessionWantSender \<Rightarrow> sessionWantSender" where
  "send_to itw sends p s =
     (case forPeer p sends of (wantBlocks, wantHaves) \<Rightarrow>
        let wantHaves = fold insert (getPiggybackWantHaves itw p wantBlocks s) wantHaves;
            wblks = itw wantBlocks; whaves = itw wantHaves;
            s = emit [Call_SendWants p wblks whaves, Call_onSend p wblks whaves] s
        in s\<lparr>sws_swbt := addSentWantBlocksTo p wblks (sws_swbt s)\<rparr>)"

definition sws_sendWants :: "(Want set \<Rightarrow> Want list) \<Rightarrow> (peer set \<Rightarrow> peer list) \<Rightarrow> allWants \<Rightarrow> sessionWantSender \<Rightarrow> sessionWantSender" where
  "sws_sendWants itw itp sends s = fold (send_to itw sends) (itp (dom sends)) s"

definition sendNextWants ::
  "(Want set \<Rightarrow> Want list) \<Rightarrow> (peer set \<Rightarrow> peer list) \<Rightarrow> peer list \<Rightarrow> sessionWantSender \<Rightarrow> sessionWantSender" where
  "sendNextWants itw itp newlyAvailable s =
     (case fold (next_want itp newlyAvailable) (itw (dom (sws_wants s))) (s, Map.empty) of (s, toSend) \<Rightarrow> sws_sendWants itw itp toSend s)"

subsection \<open>The run loop\<close>

definition apply_change ::
  "(peer set \<Rightarrow> peer list) \<Rightarrow> (nat \<Rightarrow> rat) \<Rightarrow> BlockPresenceManager \<Rightarrow> change
     \<Rightarrow> sessionWantSender \<times> (peer \<rightharpoonup> bool) \<times> Want list \<times> sws_update list
     \<Rightarrow> sessionWantSender \<times> (peer \<rightharpoonup> bool) \<times> Want list \<times> sws_update list" where
  "apply_change itp rnd bpm chng st =
     (case st of (s, availability, cancels, updates) \<Rightarrow>
        let s = fold (trackWant itp rnd bpm) (ch_add chng) s;
            s = fold untrackWant (ch_cancel chng) s;
            cancels = cancels @ ch_cancel chng;
            upd = ch_update chng;
            available = (upd_from upd \<noteq> no_peer \<and> (upd_ks upd \<noteq> [] \<or> upd_haves upd \<noteq> []));
            availability = (if available then availability(upd_from upd \<mapsto> True) else availability);
            s = (if available then emit [Call_RegisterSession (upd_from upd)] s else s);
            updates = (if upd_from upd \<noteq> no_peer then updates @ [upd] else updates);
            pa = ch_availability chng;
            availability = (if pa_target pa \<noteq> no_peer then availability(pa_target pa \<mapsto> pa_available pa) else availability)
        in (s, availability, cancels, updates))"

definition onChange ::
  "(Want set \<Rightarrow> Want list) \<Rightarrow> (peer set \<Rightarrow> peer list) \<Rightarrow> (nat \<Rightarrow> rat) \<Rightarrow> BlockPresenceManager \<Rightarrow> change list \<Rightarrow> sessionWantSender \<Rightarrow> sessionWantSender" where
  "onChange itw itp rnd bpm changes s =
     (case collectChanges changes s of (changes, s) \<Rightarrow>
      case fold (apply_change itp rnd bpm) changes (s, Map.empty, [], []) of (s, availability, cancels, updates) \<Rightarrow>
      case processAvailability itw itp rnd bpm availability s of (s, newlyAvailable, newlyUnavailable) \<Rightarrow>
      case processUpdates itw itp rnd bpm updates s of (s, dontHaves) \<Rightarrow>
        let s = checkForExhaustedWants itw itp bpm dontHaves newlyUnavailable s;
            s = (if cancels \<noteq> [] then emit [Call_CancelSessionWants cancels] s else s)
        in if HasPeers (sws_spm s) then sendNextWants itw itp newlyAvailable s else s)"

text \<open>One round of \<^verbatim>\<open>Run\<close> that takes a change, and the round that ends it.\<close>

definition sws_Run_step ::
  "(Want set \<Rightarrow> Want list) \<Rightarrow> (peer set \<Rightarrow> peer list) \<Rightarrow> (nat \<Rightarrow> rat) \<Rightarrow> BlockPresenceManager \<Rightarrow> sessionWantSender \<Rightarrow> sessionWantSender" where
  "sws_Run_step itw itp rnd bpm s =
     (case sws_changes s of
        [] \<Rightarrow> s
      | ch # chs \<Rightarrow> if sws_closed s then s else onChange itw itp rnd bpm [ch] (s\<lparr>sws_changes := chs\<rparr>))"

definition sws_Run_exit :: "sessionWantSender \<Rightarrow> sessionWantSender" where
  "sws_Run_exit s = (if sws_closed s then s else emit [Call_UnregisterSession] (s\<lparr>sws_closed := True\<rparr>))"

end
