(* ===== verification/Session.thy ===== *)
theory Session
  imports SessionSender SessionWants
begin

text \<open>
  \<^verbatim>\<open>internal/session/session.go\<close>: a session, which keeps the wants of one transfer, asks peers for them through its want sender,
  broadcasts them when it gets nowhere, and looks for providers.

  The session peer manager is the one in the sender (\<^verbatim>\<open>s.sprm\<close> and \<^verbatim>\<open>s.sws.spm\<close> are the same object). The session interest manager
  is shared between sessions: operations take it as an argument and return it. Operations of the run loop return the calls
  that they make to the peer manager, the tagger and the session manager. The channel \<^verbatim>\<open>incoming\<close> is a queue; a caller
  that finds it full waits, or leaves a goroutine waiting. A nil slice of wants is the empty list: no operation carries an empty slice
  that is not nil. The searches for providers in progress, each a goroutine, are the list \<open>s_searches\<close>.
\<close>

section \<open>Timers\<close>

text \<open>A \<^verbatim>\<open>time.Timer\<close>: when it is due, if it is running, and whether a tick is in its channel. Neither \<^verbatim>\<open>Stop\<close> nor \<^verbatim>\<open>Reset\<close> take
the tick out.\<close>

record gotimer =
  gt_due :: "time option"
  gt_tick :: bool

definition NewTimer :: "time \<Rightarrow> duration \<Rightarrow> gotimer" where
  "NewTimer now d = \<lparr>gt_due = Some (now + d), gt_tick = False\<rparr>"

definition timer_Stop :: "gotimer \<Rightarrow> gotimer" where
  "timer_Stop t = t\<lparr>gt_due := None\<rparr>"

definition timer_Reset :: "time \<Rightarrow> duration \<Rightarrow> gotimer \<Rightarrow> gotimer" where
  "timer_Reset now d t = t\<lparr>gt_due := Some (now + d)\<rparr>"

definition timer_expire :: "time \<Rightarrow> gotimer \<Rightarrow> gotimer" where
  "timer_expire now t =
     (case gt_due t of Some due \<Rightarrow> if due \<le> now then \<lparr>gt_due = None, gt_tick = True\<rparr> else t | None \<Rightarrow> t)"

definition timer_taken :: "gotimer \<Rightarrow> gotimer" where
  "timer_taken t = t\<lparr>gt_tick := False\<rparr>"

section \<open>Latency\<close>

record latencyTracker =
  lt_totalLatency :: duration
  lt_count :: int

definition hasLatency :: "latencyTracker \<Rightarrow> bool" where
  "hasLatency lt \<longleftrightarrow> lt_totalLatency lt > 0 \<and> lt_count lt > 0"

text \<open>Only called with \<^term>\<open>hasLatency lt\<close>, when rounding down and rounding towards zero are the same.\<close>

definition averageLatency :: "latencyTracker \<Rightarrow> duration" where
  "averageLatency lt = lt_totalLatency lt div lt_count lt"

definition receiveUpdate :: "int \<Rightarrow> duration \<Rightarrow> latencyTracker \<Rightarrow> latencyTracker" where
  "receiveUpdate n latency lt = lt\<lparr>lt_totalLatency := lt_totalLatency lt + latency, lt_count := lt_count lt + n\<rparr>"

section \<open>The session\<close>

abbreviation (input) broadcastLiveWantsLimit :: int where
  "broadcastLiveWantsLimit \<equiv> 64"

datatype opType = opReceive | opWant | opCancel | opBroadcast | opWantsSent

record sess_op =
  op_op :: opType
  op_keys :: "cid list"
  op_wants :: "Want list"

text \<open>Whether the run loop is running, has begun \<^verbatim>\<open>handleShutdown\<close>, or has returned.\<close>

datatype run_phase = Running | Stopping | Ended

record Session =
  s_id :: session_id
  s_sw :: sessionWants
  s_sws :: sessionWantSender
  s_latencyTrkr :: latencyTracker
  s_incoming :: "sess_op list"
  s_idleTick :: gotimer
  s_periodicSearchTimer :: gotimer
  s_baseTickDelay :: duration
  s_consecutiveTicks :: int
  s_initialSearchDelay :: duration
  s_searches :: "Want list"
  s_done :: bool
  s_phase :: run_phase

datatype sess_call =
    Sess_BroadcastWantHaves "Want list"
  | Sess_tagger spm_call
  | Sess_RemoveSession

text \<open>\<open>wait\<close> is what \<^verbatim>\<open>periodicSearchDelay.NextWaitTime\<close> returns.\<close>

definition Session_New :: "time \<Rightarrow> duration \<Rightarrow> session_id \<Rightarrow> duration \<Rightarrow> Session" where
  "Session_New now wait i initialSearchDelay =
     \<lparr>s_id = i, s_sw = newSessionWants broadcastLiveWantsLimit, s_sws = newSessionWantSender i (spm_New i),
      s_latencyTrkr = \<lparr>lt_totalLatency = 0, lt_count = 0\<rparr>, s_incoming = [], s_idleTick = NewTimer now initialSearchDelay,
      s_periodicSearchTimer = NewTimer now wait, s_baseTickDelay = 500 * millisecond, s_consecutiveTicks = 0,
      s_initialSearchDelay = initialSearchDelay, s_searches = [], s_done = False, s_phase = Running\<rparr>"

definition Session_Shutdown :: "Session \<Rightarrow> Session" where
  "Session_Shutdown s = s\<lparr>s_done := True\<rparr>"

subsection \<open>What other goroutines call\<close>

definition enqueue :: "sess_op \<Rightarrow> Session \<Rightarrow> Session" where
  "enqueue oper s = s\<lparr>s_incoming := s_incoming s @ [oper]\<rparr>"

definition Session_ReceiveFrom ::
  "SessionInterestManager \<Rightarrow> peer \<Rightarrow> Want list \<Rightarrow> Want list \<Rightarrow> Want list \<Rightarrow> Session \<Rightarrow> Session" where
  "Session_ReceiveFrom sim from ks haves dontHaves s =
     (let interestedRes = FilterSessionInterested sim (s_id s) [ks, haves, dontHaves];
          ks = interestedRes ! 0; haves = interestedRes ! 1; dontHaves = interestedRes ! 2;
          s = s\<lparr>s_sws := sws_Update from ks haves dontHaves (s_sws s)\<rparr>
      in if ks = [] then s else enqueue \<lparr>op_op = opReceive, op_keys = [], op_wants = ks\<rparr> s)"

text \<open>The functions that \<^verbatim>\<open>GetBlocks\<close> gives to the getter, to ask for wants and to cancel keys.\<close>

definition GetBlocks_want :: "Want list \<Rightarrow> Session \<Rightarrow> Session" where
  "GetBlocks_want wants s = enqueue \<lparr>op_op = opWant, op_keys = [], op_wants = wants\<rparr> s"

definition GetBlocks_cancel :: "cid list \<Rightarrow> Session \<Rightarrow> Session" where
  "GetBlocks_cancel keys s = enqueue \<lparr>op_op = opCancel, op_keys = keys, op_wants = []\<rparr> s"

definition SetBaseTickDelay :: "duration \<Rightarrow> Session \<Rightarrow> Session" where
  "SetBaseTickDelay d s = s\<lparr>s_baseTickDelay := d\<rparr>"

definition onWantsSent :: "peer \<Rightarrow> Want list \<Rightarrow> Want list \<Rightarrow> Session \<Rightarrow> Session" where
  "onWantsSent p wantBlocks wantHaves s = enqueue \<lparr>op_op = opWantsSent, op_keys = [], op_wants = wantBlocks @ wantHaves\<rparr> s"

definition onPeersExhausted :: "Want list \<Rightarrow> Session \<Rightarrow> Session" where
  "onPeersExhausted ks s = enqueue \<lparr>op_op = opBroadcast, op_keys = [], op_wants = ks\<rparr> s"

subsection \<open>The run loop\<close>

definition resetIdleTick :: "time \<Rightarrow> Session \<Rightarrow> Session" where
  "resetIdleTick now s =
     (let tickDelay = (if \<not> hasLatency (s_latencyTrkr s) then s_initialSearchDelay s
                       else s_baseTickDelay s + 3 * averageLatency (s_latencyTrkr s));
          tickDelay = tickDelay * (1 + s_consecutiveTicks s)
      in s\<lparr>s_idleTick := timer_Reset now tickDelay (s_idleTick s)\<rparr>)"

definition findMorePeers :: "Want \<Rightarrow> Session \<Rightarrow> Session" where
  "findMorePeers c s = s\<lparr>s_searches := s_searches s @ [c]\<rparr>"

text \<open>A search has found a provider.\<close>

definition provider_found :: "peer \<Rightarrow> Want \<Rightarrow> Session \<Rightarrow> Session" where
  "provider_found p c s = s\<lparr>s_sws := sws_Update p [] [c] [] (s_sws s)\<rparr>"

definition broadcast :: "time \<Rightarrow> Want list \<Rightarrow> Session \<Rightarrow> Session \<times> sess_call list" where
  "broadcast now wants s =
     (let (s, wants) = (if wants = [] then case PrepareBroadcast now (s_sw s) of (sw, ws) \<Rightarrow> (s\<lparr>s_sw := sw\<rparr>, ws) else (s, wants));
          calls = [Sess_BroadcastWantHaves wants];
          s = (if wants \<noteq> [] \<and> s_consecutiveTicks s = 0 then findMorePeers (hd wants) s else s);
          s = resetIdleTick now s;
          s = (if HasLiveWants (s_sw s) then s\<lparr>s_consecutiveTicks := s_consecutiveTicks s + 1\<rparr> else s)
      in (s, calls))"

definition handlePeriodicSearch :: "time \<Rightarrow> duration \<Rightarrow> (nat \<Rightarrow> nat) \<Rightarrow> Session \<Rightarrow> Session \<times> sess_call list" where
  "handlePeriodicSearch now wait rnd s =
     (let randomWant = RandomLiveWant rnd (s_sw s)
      in if \<not> cid_Defined (want_Cid randomWant) then (s, [])
         else let s = findMorePeers randomWant s
              in (s\<lparr>s_periodicSearchTimer := timer_Reset now wait (s_periodicSearchTimer s)\<rparr>, [Sess_BroadcastWantHaves [randomWant]]))"

definition handleReceive :: "time \<Rightarrow> Want list \<Rightarrow> SessionInterestManager \<Rightarrow> Session \<Rightarrow> Session \<times> SessionInterestManager" where
  "handleReceive now ks sim s =
     (case sw_BlocksReceived now ks (s_sw s) of (sw, wanted, latency) \<Rightarrow>
        let s = s\<lparr>s_sw := sw\<rparr>
        in if wanted = [] then (s, sim)
           else let s = s\<lparr>s_latencyTrkr := receiveUpdate (int (length wanted)) latency (s_latencyTrkr s)\<rparr>;
                    sim = RemoveSessionWants (s_id s) wanted sim;
                    s = s\<lparr>s_idleTick := timer_Stop (s_idleTick s)\<rparr>;
                    s = s\<lparr>s_consecutiveTicks := 0\<rparr>
                in (resetIdleTick now s, sim))"

definition Session_wantBlocks ::
  "time \<Rightarrow> Want list \<Rightarrow> SessionInterestManager \<Rightarrow> Session \<Rightarrow> Session \<times> SessionInterestManager \<times> sess_call list" where
  "Session_wantBlocks now newks sim s =
     (let (s, sim) = (if newks = [] then (s, sim)
                      else (s\<lparr>s_sw := sw_BlocksRequested newks (s_sw s), s_sws := sws_Add newks (s_sws s)\<rparr>,
                            RecordSessionInterest (s_id s) newks sim))
      in if PeersDiscovered (sws_spm (s_sws s)) then (s, sim, [])
         else case GetNextWants now (s_sw s) of (sw, ws) \<Rightarrow>
           (s\<lparr>s_sw := sw\<rparr>, sim, if ws \<noteq> [] then [Sess_BroadcastWantHaves ws] else []))"

text \<open>\<^verbatim>\<open>run\<close> takes an operation.\<close>

definition run_op :: "time \<Rightarrow> SessionInterestManager \<Rightarrow> Session \<Rightarrow> Session \<times> SessionInterestManager \<times> sess_call list" where
  "run_op now sim s =
     (case s_incoming s of
        [] \<Rightarrow> (s, sim, [])
      | oper # ops \<Rightarrow>
          let s = s\<lparr>s_incoming := ops\<rparr>
          in case op_op oper of
               opReceive \<Rightarrow> (case handleReceive now (op_wants oper) sim s of (s, sim) \<Rightarrow> (s, sim, []))
             | opWant \<Rightarrow> Session_wantBlocks now (op_wants oper) sim s
             | opCancel \<Rightarrow> (s\<lparr>s_sw := CancelPending (op_keys oper) (s_sw s), s_sws := sws_Cancel (op_wants oper) (s_sws s)\<rparr>, sim, [])
             | opWantsSent \<Rightarrow> (s\<lparr>s_sw := WantsSent now (op_wants oper) (s_sw s)\<rparr>, sim, [])
             | opBroadcast \<Rightarrow> (case broadcast now (op_wants oper) s of (s, calls) \<Rightarrow> (s, sim, calls)))"

text \<open>\<^verbatim>\<open>run\<close> takes a tick of one of its timers.\<close>

definition run_idle_tick :: "time \<Rightarrow> Session \<Rightarrow> Session \<times> sess_call list" where
  "run_idle_tick now s = broadcast now [] (s\<lparr>s_idleTick := timer_taken (s_idleTick s)\<rparr>)"

definition run_periodic_tick :: "time \<Rightarrow> duration \<Rightarrow> (nat \<Rightarrow> nat) \<Rightarrow> Session \<Rightarrow> Session \<times> sess_call list" where
  "run_periodic_tick now wait rnd s =
     handlePeriodicSearch now wait rnd (s\<lparr>s_periodicSearchTimer := timer_taken (s_periodicSearchTimer s)\<rparr>)"

text \<open>\<^verbatim>\<open>handleShutdown\<close> waits for the sender to stop before it removes the session; until then the sender may still take
changes.\<close>

definition handleShutdown_begin :: "(peer set \<Rightarrow> peer list) \<Rightarrow> Session \<Rightarrow> Session \<times> sess_call list" where
  "handleShutdown_begin itp s =
     (s\<lparr>s_idleTick := timer_Stop (s_idleTick s), s_phase := Stopping\<rparr>, map Sess_tagger (spm_Shutdown itp (sws_spm (s_sws s))))"

definition handleShutdown_end :: "Session \<Rightarrow> Session \<times> sess_call list" where
  "handleShutdown_end s = (s\<lparr>s_phase := Ended\<rparr>, [Sess_RemoveSession])"

subsection \<open>The sender of the session\<close>

text \<open>A round of the sender: what it tells the session is put into \<^verbatim>\<open>incoming\<close>, the other calls are returned.\<close>

fun sender_told :: "sws_call \<Rightarrow> Session \<Rightarrow> Session" where
  "sender_told (Call_onSend p wantBlocks wantHaves) s = onWantsSent p wantBlocks wantHaves s"
| "sender_told (Call_onPeersExhausted ks) s = onPeersExhausted ks s"
| "sender_told _ s = s"

definition sender_call :: "sws_call \<Rightarrow> bool" where
  "sender_call c \<longleftrightarrow> (case c of Call_onSend _ _ _ \<Rightarrow> False | Call_onPeersExhausted _ \<Rightarrow> False | _ \<Rightarrow> True)"

definition sender_does :: "sessionWantSender \<Rightarrow> Session \<Rightarrow> Session \<times> sws_call list" where
  "sender_does sws s = (fold sender_told (sws_calls sws) (s\<lparr>s_sws := sws\<lparr>sws_calls := []\<rparr>\<rparr>), filter sender_call (sws_calls sws))"

end
