(* ===== verification/SessionManager.thy ===== *)
theory SessionManager
  imports Session
begin

text \<open>
  \<^verbatim>\<open>internal/sessionmanager/sessionmanager.go\<close>: the sessions of a node, over the session interest manager and the block presence manager that
  they share, and the steps that the sessions and their callers take.

  Sessions are objects that the map \<^verbatim>\<open>sessions\<close> points to and that live on when they are taken out of it: \<open>sm_objects\<close> holds the objects, by
  session id, and \<open>sm_sessions\<close> the ids in the map, or nothing after \<^verbatim>\<open>Shutdown\<close> has set it to nil. The calls to the peer manager and
  the tagger are collected in \<open>sm_calls\<close>.
\<close>

section \<open>State and operations\<close>

datatype pm_call =
    PM_BroadcastWantHaves "Want list"
  | PM_SendCancels "Want list"
  | PM_sender session_id sws_call
  | PM_tagger session_id spm_call

record SessionManager =
  sm_sim :: SessionInterestManager
  sm_bpm :: BlockPresenceManager
  sm_sessions :: "session_id set option"
  sm_sessID :: session_id
  sm_objects :: "session_id \<rightharpoonup> Session"
  sm_calls :: "pm_call list"

definition sm_New :: "SessionInterestManager \<Rightarrow> BlockPresenceManager \<Rightarrow> SessionManager" where
  "sm_New sim bpm = \<lparr>sm_sim = sim, sm_bpm = bpm, sm_sessions = Some {}, sm_sessID = 0, sm_objects = Map.empty, sm_calls = []\<rparr>"

definition GetNextSessionID :: "SessionManager \<Rightarrow> session_id \<times> SessionManager" where
  "GetNextSessionID sm = (let i = sm_sessID sm + 1 in (i, sm\<lparr>sm_sessID := i\<rparr>))"

definition NewSession :: "time \<Rightarrow> duration \<Rightarrow> duration \<Rightarrow> SessionManager \<Rightarrow> SessionManager" where
  "NewSession now wait provSearchDelay sm =
     (case GetNextSessionID sm of (i, sm) \<Rightarrow>
        let sm = sm\<lparr>sm_objects := (sm_objects sm)(i \<mapsto> Session_New now wait i provSearchDelay)\<rparr>
        in case sm_sessions sm of None \<Rightarrow> sm | Some ids \<Rightarrow> sm\<lparr>sm_sessions := Some (insert i ids)\<rparr>)"

text \<open>A method called on a session.\<close>

definition on_session :: "session_id \<Rightarrow> (Session \<Rightarrow> Session) \<Rightarrow> SessionManager \<Rightarrow> SessionManager" where
  "on_session i f sm = (case sm_objects sm i of None \<Rightarrow> sm | Some s \<Rightarrow> sm\<lparr>sm_objects := (sm_objects sm)(i \<mapsto> f s)\<rparr>)"

definition sm_Shutdown :: "(session_id set \<Rightarrow> session_id list) \<Rightarrow> SessionManager \<Rightarrow> SessionManager" where
  "sm_Shutdown its sm =
     (let sessions = (case sm_sessions sm of None \<Rightarrow> [] | Some ids \<Rightarrow> its ids)
      in fold (\<lambda>i. on_session i Session_Shutdown) sessions (sm\<lparr>sm_sessions := None\<rparr>))"

definition cancelWants :: "Want list \<Rightarrow> SessionManager \<Rightarrow> SessionManager" where
  "cancelWants wants sm = sm\<lparr>sm_bpm := RemoveKeys wants (sm_bpm sm), sm_calls := sm_calls sm @ [PM_SendCancels wants]\<rparr>"

definition sm_RemoveSession :: "(Want set \<Rightarrow> Want list) \<Rightarrow> session_id \<Rightarrow> SessionManager \<Rightarrow> SessionManager" where
  "sm_RemoveSession itw sesid sm =
     (case RemoveSession itw sesid (sm_sim sm) of (sim, cancelKs) \<Rightarrow>
        let sm = cancelWants cancelKs (sm\<lparr>sm_sim := sim\<rparr>)
        in case sm_sessions sm of None \<Rightarrow> sm | Some ids \<Rightarrow> sm\<lparr>sm_sessions := Some (ids - {sesid})\<rparr>)"

definition CancelSessionWants :: "session_id \<Rightarrow> Want list \<Rightarrow> SessionManager \<Rightarrow> SessionManager" where
  "CancelSessionWants sesid wants sm =
     (case RemoveSessionInterested sesid wants (sm_sim sm) of (sim, cancelKs) \<Rightarrow> cancelWants cancelKs (sm\<lparr>sm_sim := sim\<rparr>))"

text \<open>The loop over the interested sessions, which returns from \<^verbatim>\<open>ReceiveFrom\<close> if the manager has been shut down.\<close>

fun tell_sessions :: "peer \<Rightarrow> Want list \<Rightarrow> Want list \<Rightarrow> Want list \<Rightarrow> session_id list \<Rightarrow> SessionManager \<Rightarrow> SessionManager \<times> bool" where
  "tell_sessions p blks haves dontHaves [] sm = (sm, False)"
| "tell_sessions p blks haves dontHaves (i # is) sm =
     (case sm_sessions sm of
        None \<Rightarrow> (sm, True)
      | Some ids \<Rightarrow>
          tell_sessions p blks haves dontHaves is
            (if i \<in> ids then on_session i (Session_ReceiveFrom (sm_sim sm) p blks haves dontHaves) sm else sm))"

definition sm_ReceiveFrom ::
  "(session_id set \<Rightarrow> session_id list) \<Rightarrow> peer \<Rightarrow> Want list \<Rightarrow> Want list \<Rightarrow> Want list \<Rightarrow> SessionManager \<Rightarrow> SessionManager" where
  "sm_ReceiveFrom its p blks haves dontHaves sm =
     (let sm = sm\<lparr>sm_bpm := bpm_ReceiveFrom p haves dontHaves (sm_bpm sm)\<rparr>
      in case tell_sessions p blks haves dontHaves (InterestedSessions its (sm_sim sm) blks haves dontHaves) sm of (sm, returned) \<Rightarrow>
           if returned then sm else sm\<lparr>sm_calls := sm_calls sm @ [PM_SendCancels blks]\<rparr>)"

section \<open>Steps\<close>

text \<open>The calls that a session and its sender make.\<close>

fun session_calls :: "(Want set \<Rightarrow> Want list) \<Rightarrow> session_id \<Rightarrow> sess_call \<Rightarrow> SessionManager \<Rightarrow> SessionManager" where
  "session_calls itw i (Sess_BroadcastWantHaves ws) sm = sm\<lparr>sm_calls := sm_calls sm @ [PM_BroadcastWantHaves ws]\<rparr>"
| "session_calls itw i (Sess_tagger c) sm = sm\<lparr>sm_calls := sm_calls sm @ [PM_tagger i c]\<rparr>"
| "session_calls itw i Sess_RemoveSession sm = sm_RemoveSession itw i sm"

fun sender_calls :: "session_id \<Rightarrow> sws_call \<Rightarrow> SessionManager \<Rightarrow> SessionManager" where
  "sender_calls i (Call_CancelSessionWants ws) sm = CancelSessionWants i ws sm"
| "sender_calls i c sm = sm\<lparr>sm_calls := sm_calls sm @ [PM_sender i c]\<rparr>"

definition put_session :: "session_id \<Rightarrow> Session \<Rightarrow> SessionManager \<Rightarrow> SessionManager" where
  "put_session i s sm = sm\<lparr>sm_objects := (sm_objects sm)(i \<mapsto> s)\<rparr>"

definition run_session :: "(Want set \<Rightarrow> Want list) \<Rightarrow> session_id \<Rightarrow> Session \<times> sess_call list \<Rightarrow> SessionManager \<Rightarrow> SessionManager" where
  "run_session itw i r sm = fold (session_calls itw i) (snd r) (put_session i (fst r) sm)"

definition run_sender :: "session_id \<Rightarrow> Session \<times> sws_call list \<Rightarrow> SessionManager \<Rightarrow> SessionManager" where
  "run_sender i r sm = fold (sender_calls i) (snd r) (put_session i (fst r) sm)"

text \<open>What callers do to a session, and what its timers and searches do, at any time.\<close>

inductive session_event :: "Session \<Rightarrow> Session \<Rightarrow> bool" where
  ev_want: "session_event s (GetBlocks_want ws s)"
| ev_cancel: "session_event s (GetBlocks_cancel ks s)"
| ev_shutdown: "session_event s (Session_Shutdown s)"
| ev_delay: "s_phase s = Running \<Longrightarrow> session_event s (SetBaseTickDelay d s)"
| ev_idle: "session_event s (s\<lparr>s_idleTick := timer_expire now (s_idleTick s)\<rparr>)"
| ev_periodic: "session_event s (s\<lparr>s_periodicSearchTimer := timer_expire now (s_periodicSearchTimer s)\<rparr>)"
| ev_provider: "c \<in> set (s_searches s) \<Longrightarrow> session_event s (provider_found p c s)"
| ev_searched: "session_event s (s\<lparr>s_searches := remove1 c (s_searches s)\<rparr>)"
| ev_signal: "session_event s (s\<lparr>s_sws := SignalAvailability p b (s_sws s)\<rparr>)"
| ev_pruned: "session_event s (s\<lparr>s_sws := report_pruned (s_sws s)\<rparr>)"

text \<open>What the run loop of a session does.\<close>

inductive session_run :: "(peer set \<Rightarrow> peer list) \<Rightarrow> SessionInterestManager \<Rightarrow> Session \<Rightarrow> Session \<times> sess_call list \<Rightarrow> SessionInterestManager \<Rightarrow> bool"
  for itp sim s where
  run_takes_op: "s_phase s = Running \<Longrightarrow> run_op now sim s = (s', sim', cs) \<Longrightarrow> session_run itp sim s (s', cs) sim'"
| run_takes_idle: "s_phase s = Running \<Longrightarrow> gt_tick (s_idleTick s) \<Longrightarrow> session_run itp sim s (run_idle_tick now s) sim"
| run_takes_periodic: "s_phase s = Running \<Longrightarrow> gt_tick (s_periodicSearchTimer s) \<Longrightarrow> session_run itp sim s (run_periodic_tick now wait rnd s) sim"
| run_shuts_down: "s_phase s = Running \<Longrightarrow> s_done s \<Longrightarrow> session_run itp sim s (handleShutdown_begin itp s) sim"
| run_ends: "s_phase s = Stopping \<Longrightarrow> sws_closed (s_sws s) \<Longrightarrow> session_run itp sim s (handleShutdown_end s) sim"

inductive sm_step ::
  "(Want set \<Rightarrow> Want list) \<Rightarrow> (peer set \<Rightarrow> peer list) \<Rightarrow> (session_id set \<Rightarrow> session_id list) \<Rightarrow> (nat \<Rightarrow> rat) \<Rightarrow> SessionManager \<Rightarrow> SessionManager \<Rightarrow> bool"
  for itw itp its rnd where
  sm_new: "sm_sessID sm \<noteq> - 1 \<Longrightarrow> sm_step itw itp its rnd sm (NewSession now wait d sm)"
| sm_receive: "sm_step itw itp its rnd sm (sm_ReceiveFrom its p blks haves dontHaves sm)"
| sm_shutdown: "sm_step itw itp its rnd sm (sm_Shutdown its sm)"
| sm_event: "sm_objects sm i = Some s \<Longrightarrow> session_event s s' \<Longrightarrow> sm_step itw itp its rnd sm (put_session i s' sm)"
| sm_run: "sm_objects sm i = Some s \<Longrightarrow> session_run itp (sm_sim sm) s r sim' \<Longrightarrow>
    sm_step itw itp its rnd sm (run_session itw i r (sm\<lparr>sm_sim := sim'\<rparr>))"
| sm_sender: "sm_objects sm i = Some s \<Longrightarrow>
    sm_step itw itp its rnd sm (run_sender i (sender_does (sws_Run_step itw itp rnd (sm_bpm sm) (s_sws s)) s) sm)"
| sm_sender_exit: "sm_objects sm i = Some s \<Longrightarrow> s_phase s = Stopping \<Longrightarrow>
    sm_step itw itp its rnd sm (run_sender i (sender_does (sws_Run_exit (s_sws s)) s) sm)"

inductive sm_reach ::
  "(Want set \<Rightarrow> Want list) \<Rightarrow> (peer set \<Rightarrow> peer list) \<Rightarrow> (session_id set \<Rightarrow> session_id list) \<Rightarrow> (nat \<Rightarrow> rat) \<Rightarrow> SessionManager \<Rightarrow> bool"
  for itw itp its rnd where
  sm_init: "sm_reach itw itp its rnd (sm_New sim_New bpm_New)"
| sm_next: "sm_reach itw itp its rnd sm \<Longrightarrow> sm_step itw itp its rnd sm sm' \<Longrightarrow> sm_reach itw itp its rnd sm'"

end
