(* ===== verification/SenderSpec.thy ===== *)
theory SenderSpec
  imports SessionSender
begin

text \<open>
  What the want sender of a session (\<^verbatim>\<open>internal/session/sessionwantsender.go\<close>) promises: the best peer of a want is one with the
  best presence, a want is never left without somebody being asked while a peer might have it, and a want-block goes to one
  peer at a time.
\<close>

section \<open>The best peer\<close>

lemma BPDontHave_bot [simp]: "\<not> b < BPDontHave" "b \<le> BPDontHave \<longleftrightarrow> b = BPDontHave"
  by (cases b; simp add: less_BlockPresence_def less_eq_BlockPresence_def bp_rank_def)+

lemma choose_loop_in: "choose_loop prt r t c ps = Some p \<Longrightarrow> p \<in> set ps"
  by (induction ps arbitrary: c) (auto simp: Let_def split: if_splits)

lemma prt_choose_in: "ps \<noteq> [] \<Longrightarrow> prt_choose prt r ps \<in> set ps"
  by (auto simp: prt_choose_def Let_def split: option.splits dest: choose_loop_in)

text \<open>The presences of a want and its best peer.\<close>

definition best_ok :: "wantInfo \<Rightarrow> bool" where
  "best_ok wi \<longleftrightarrow> finite (dom (wi_blockPresence wi)) \<and> no_peer \<notin> dom (wi_blockPresence wi) \<and>
     (if wi_bestPeer wi = no_peer then \<forall>b \<in> ran (wi_blockPresence wi). b = BPDontHave
      else \<exists>b. wi_blockPresence wi (wi_bestPeer wi) = Some b \<and> b \<noteq> BPDontHave \<and> (\<forall>b' \<in> ran (wi_blockPresence wi). b' \<le> b))"

lemma best_fold:
  assumes "no_peer \<notin> set ps" "set ps \<subseteq> dom bps"
    and "fold (best_step bps) ps (BPDontHave, no_peer, 0) = (B, P, n)"
  shows "(\<forall>p \<in> set ps. \<forall>b. bps p = Some b \<longrightarrow> b \<le> B) \<and> (if P = no_peer then B = BPDontHave else B \<noteq> BPDontHave \<and> P \<in> set ps \<and> bps P = Some B)"
  using assms
proof (induction ps arbitrary: B P n rule: rev_induct)
  case (snoc p ps)
  obtain B1 P1 n1 where f: "fold (best_step bps) ps (BPDontHave, no_peer, 0) = (B1, P1, n1)" by (metis prod_cases3)
  obtain b where b: "bps p = Some b" using snoc.prems(2) by auto
  from snoc.IH [OF _ _ f] snoc.prems(1,2)
  have IH: "\<forall>p \<in> set ps. \<forall>b. bps p = Some b \<longrightarrow> b \<le> B1"
    "if P1 = no_peer then B1 = BPDontHave else B1 \<noteq> BPDontHave \<and> P1 \<in> set ps \<and> bps P1 = Some B1" by auto
  have st: "best_step bps p (B1, P1, n1) = (B, P, n)" using snoc.prems(3) f by simp
  show ?case
  proof (cases "b > B1")
    case True
    then have "B = b" "P = p" "b \<noteq> BPDontHave" using st BPDontHave_least [of B1] by (auto simp: best_step_def b simp del: BPDontHave_least)
    then show ?thesis using IH(1) True snoc.prems(1) b by fastforce
  next
    case False
    then have "B = B1" "P = P1" "b \<le> B1" using st by (auto simp: best_step_def b split: if_splits)
    then show ?thesis using IH b by (auto split: if_splits)
  qed
qed simp

lemma calculateBestPeer_sel [simp]:
  "wi_blockPresence (calculateBestPeer itp r prt wi) = wi_blockPresence wi" "wi_sentTo (calculateBestPeer itp r prt wi) = wi_sentTo wi"
  "wi_exhausted (calculateBestPeer itp r prt wi) = wi_exhausted wi"
  by (simp_all add: calculateBestPeer_def Let_def split: prod.splits)

lemma calculateBestPeer_ok:
  assumes it: "iterates itp" and fin: "finite (dom (wi_blockPresence wi))" and np: "no_peer \<notin> dom (wi_blockPresence wi)"
  shows "best_ok (calculateBestPeer itp r prt wi)"
proof -
  let ?bps = "wi_blockPresence wi" and ?ps = "itp (dom (wi_blockPresence wi))"
  obtain B P n where f: "fold (best_step ?bps) ?ps (BPDontHave, no_peer, 0) = (B, P, n)" by (metis prod_cases3)
  have set: "set ?ps = dom ?bps" using it fin by simp
  with best_fold [OF _ _ f] np
  have max: "\<forall>p b. ?bps p = Some b \<longrightarrow> b \<le> B" and P: "if P = no_peer then B = BPDontHave else B \<noteq> BPDontHave \<and> ?bps P = Some B"
    by (auto simp: dom_def split: if_splits)
  define Q where "Q = wi_bestPeer (calculateBestPeer itp r prt wi)"
  have "if Q = no_peer then B = BPDontHave else B \<noteq> BPDontHave \<and> ?bps Q = Some B"
  proof (cases "P = no_peer \<or> n \<le> 1")
    case True
    then have "Q = P" by (auto simp: Q_def calculateBestPeer_def f Let_def)
    then show ?thesis using P by simp
  next
    case False
    let ?l = "filter (\<lambda>p. ?bps p = Some B) ?ps"
    have "P \<in> set ?l" using False P set by auto
    then have "prt_choose prt r ?l \<in> set ?l" by (intro prt_choose_in) (metis empty_iff empty_set)
    moreover have "Q = prt_choose prt r ?l" using False by (simp add: Q_def calculateBestPeer_def f Let_def)
    ultimately have "Q \<in> set ?l" by simp
    then show ?thesis using np False P by auto
  qed
  then show ?thesis using fin np max by (auto simp: best_ok_def Q_def ran_def split: if_splits)
qed

lemma setPeerBlockPresence_sel [simp]:
  "wi_blockPresence (setPeerBlockPresence itp r prt p b wi) = (wi_blockPresence wi)(p \<mapsto> b)"
  "wi_sentTo (setPeerBlockPresence itp r prt p b wi) = wi_sentTo wi"
  by (simp_all add: setPeerBlockPresence_def Let_def)

lemma best_ok_exhausted [simp]: "best_ok (wi\<lparr>wi_exhausted := b\<rparr>) = best_ok wi" "best_ok (wi\<lparr>wi_sentTo := p\<rparr>) = best_ok wi"
  by (simp_all add: best_ok_def)

lemma setPeerBlockPresence_ok:
  "iterates itp \<Longrightarrow> finite (dom (wi_blockPresence wi)) \<Longrightarrow> no_peer \<notin> dom (wi_blockPresence wi) \<Longrightarrow> p \<noteq> no_peer \<Longrightarrow>
     best_ok (setPeerBlockPresence itp r prt p b wi)"
  by (simp add: setPeerBlockPresence_def Let_def calculateBestPeer_ok)

lemma wi_removePeer_sel [simp]:
  "wi_blockPresence (wi_removePeer itp r prt p wi) = (wi_blockPresence wi)(p := None)"
  "wi_sentTo (wi_removePeer itp r prt p wi) = (if p = wi_sentTo wi then no_peer else wi_sentTo wi)"
  by (simp_all add: wi_removePeer_def Let_def)

lemma wi_removePeer_ok: "iterates itp \<Longrightarrow> best_ok wi \<Longrightarrow> best_ok (wi_removePeer itp r prt p wi)"
  unfolding wi_removePeer_def Let_def by (rule calculateBestPeer_ok) (simp_all add: best_ok_def)

section \<open>The wants\<close>

text \<open>A want: its best peer is right, a peer that is asked for the block is one of those known for the want and is on record (\<open>sent\<close>)
as having been sent a want-block for it, and the presences cover the peers of the session.\<close>

definition wi_ok :: "(peer \<Rightarrow> Want set) \<Rightarrow> peer set \<Rightarrow> Want \<Rightarrow> wantInfo \<Rightarrow> bool" where
  "wi_ok sent ps w wi \<longleftrightarrow> best_ok wi \<and> ps \<subseteq> dom (wi_blockPresence wi) \<and>
     (wi_sentTo wi \<noteq> no_peer \<longrightarrow> wi_sentTo wi \<in> dom (wi_blockPresence wi) \<and> w \<in> sent (wi_sentTo wi))"

definition wants_ok :: "(peer \<Rightarrow> Want set) \<Rightarrow> peer set \<Rightarrow> (Want \<rightharpoonup> wantInfo) \<Rightarrow> bool" where
  "wants_ok sent ps wants \<longleftrightarrow> finite (dom wants) \<and> (\<forall>w wi. wants w = Some wi \<longrightarrow> wi_ok sent ps w wi)"

lemma wants_okI: "finite (dom wants) \<Longrightarrow> (\<And>w wi. wants w = Some wi \<Longrightarrow> wi_ok sent ps w wi) \<Longrightarrow> wants_ok sent ps wants"
  by (simp add: wants_ok_def)

lemma wants_okD: "wants_ok sent ps wants \<Longrightarrow> wants w = Some wi \<Longrightarrow> wi_ok sent ps w wi" "wants_ok sent ps wants \<Longrightarrow> finite (dom wants)"
  by (simp_all add: wants_ok_def)

lemma wants_ok_upd: "wants_ok sent ps wants \<Longrightarrow> wi_ok sent ps w wi \<Longrightarrow> wants_ok sent ps (wants(w \<mapsto> wi))"
  by (simp add: wants_ok_def)

lemma wants_ok_delete: "wants_ok sent ps wants \<Longrightarrow> wants_ok sent ps (wants(w := None))"
  by (auto simp: wants_ok_def dom_def elim: finite_subset [rotated])

lemma wi_ok_set:
  "iterates itp \<Longrightarrow> wi_ok sent ps w wi \<Longrightarrow> p \<noteq> no_peer \<Longrightarrow> wi_ok sent (insert p ps) w (setPeerBlockPresence itp r prt p b wi)"
  by (auto simp: wi_ok_def best_ok_def [of wi] intro!: setPeerBlockPresence_ok)

lemma wi_ok_mono: "wi_ok sent ps w wi \<Longrightarrow> ps' \<subseteq> ps \<Longrightarrow> wi_ok sent ps' w wi"
  by (auto simp: wi_ok_def)

lemma wi_ok_remove: "iterates itp \<Longrightarrow> wi_ok sent ps w wi \<Longrightarrow> wi_ok sent (ps - {p}) w (wi_removePeer itp r prt p wi)"
  by (auto simp: wi_ok_def wi_removePeer_ok)

definition presence_for :: "BlockPresenceManager \<Rightarrow> peer \<Rightarrow> cid \<Rightarrow> BlockPresence" where
  "presence_for bpm p c = (if PeerHasBlock bpm p c then BPHave else if PeerDoesNotHaveBlock bpm p c then BPDontHave else BPUnknown)"

lemma uWBP_sel [simp]:
  "sws_wants (updateWantBlockPresence itp rnd bpm w p s) =
     (case sws_wants s w of None \<Rightarrow> sws_wants s | Some wi \<Rightarrow> (sws_wants s)(w \<mapsto>
        setPeerBlockPresence itp (rnd (sws_draws s)) (sws_peerRspTrkr s) p (presence_for bpm p (want_Cid w)) wi))"
  "sws_spm (updateWantBlockPresence itp rnd bpm w p s) = sws_spm s" "sws_swbt (updateWantBlockPresence itp rnd bpm w p s) = sws_swbt s"
  "sws_calls (updateWantBlockPresence itp rnd bpm w p s) = sws_calls s" "sws_prune (updateWantBlockPresence itp rnd bpm w p s) = sws_prune s"
  "sws_peerConsecutiveDontHaves (updateWantBlockPresence itp rnd bpm w p s) = sws_peerConsecutiveDontHaves s"
  "sws_changes (updateWantBlockPresence itp rnd bpm w p s) = sws_changes s" "sws_sessionID (updateWantBlockPresence itp rnd bpm w p s) = sws_sessionID s"
  "sws_closed (updateWantBlockPresence itp rnd bpm w p s) = sws_closed s"
  by (simp_all add: updateWantBlockPresence_def presence_for_def Let_def split: option.splits)

lemma uWBP_ok:
  assumes "iterates itp" "wants_ok sent ps (sws_wants s)" "p \<noteq> no_peer"
  shows "wants_ok sent ps (sws_wants (updateWantBlockPresence itp rnd bpm w p s))"
proof (cases "sws_wants s w")
  case (Some wi)
  from wi_ok_set [OF assms(1) wants_okD(1) [OF assms(2) Some] assms(3)]
  have "wi_ok sent ps w (setPeerBlockPresence itp (rnd (sws_draws s)) (sws_peerRspTrkr s) p (presence_for bpm p (want_Cid w)) wi)"
    by (rule wi_ok_mono) auto
  then show ?thesis using wants_ok_upd [OF assms(2)] by (simp add: Some)
qed (use assms in simp)

text \<open>A new want learns about every peer of the session.\<close>

lemma uWBP_fold_sel:
  "sws_spm (fold (updateWantBlockPresence itp rnd bpm w) ps s) = sws_spm s"
  "sws_swbt (fold (updateWantBlockPresence itp rnd bpm w) ps s) = sws_swbt s"
  "sws_calls (fold (updateWantBlockPresence itp rnd bpm w) ps s) = sws_calls s"
  "sws_prune (fold (updateWantBlockPresence itp rnd bpm w) ps s) = sws_prune s"
  "sws_peerConsecutiveDontHaves (fold (updateWantBlockPresence itp rnd bpm w) ps s) = sws_peerConsecutiveDontHaves s"
  "sws_changes (fold (updateWantBlockPresence itp rnd bpm w) ps s) = sws_changes s"
  "sws_closed (fold (updateWantBlockPresence itp rnd bpm w) ps s) = sws_closed s"
  "v \<noteq> w \<Longrightarrow> sws_wants (fold (updateWantBlockPresence itp rnd bpm w) ps s) v = sws_wants s v"
  "sws_wants s w \<noteq> None \<Longrightarrow> sws_wants (fold (updateWantBlockPresence itp rnd bpm w) ps s) w \<noteq> None"
  by (induction ps arbitrary: s) (auto split: option.splits)

lemma uWBP_fold_ok:
  assumes "iterates itp" "no_peer \<notin> set ps" "sws_wants s w = Some wi" "wi_ok sent qs w wi"
    and "sws_wants (fold (updateWantBlockPresence itp rnd bpm w) ps s) w = Some wi'"
  shows "wi_ok sent (qs \<union> set ps) w wi'"
  using assms(2-5)
proof (induction ps arbitrary: s wi qs)
  case (Cons p ps)
  let ?s = "updateWantBlockPresence itp rnd bpm w p s"
  have "wi_ok sent (insert p qs) w (setPeerBlockPresence itp (rnd (sws_draws s)) (sws_peerRspTrkr s) p (presence_for bpm p (want_Cid w)) wi)"
    using Cons.prems by (intro wi_ok_set [OF assms(1)]) auto
  from Cons.IH [OF _ _ this, of ?s] Cons.prems show ?case by simp
qed simp

lemma newWantInfo_ok: "wi_ok sent {} w newWantInfo"
  by (simp add: wi_ok_def newWantInfo_def best_ok_def)

section \<open>The invariant of the sender\<close>

abbreviation (input) sws_peers :: "sessionWantSender \<Rightarrow> peer set" where
  "sws_peers s \<equiv> spm_peers (sws_spm s)"

definition counts_ok :: "(peer \<rightharpoonup> int) \<Rightarrow> bool" where
  "counts_ok c \<longleftrightarrow> (\<forall>p n. c p = Some n \<longrightarrow> 1 \<le> n \<and> n \<le> peerDontHaveLimit)"

definition sws_inv :: "sessionWantSender \<Rightarrow> bool" where
  "sws_inv s \<longleftrightarrow> finite (sws_peers s) \<and> no_peer \<notin> sws_peers s \<and>
     wants_ok (lookup_set (sws_swbt s)) (sws_peers s) (sws_wants s) \<and> counts_ok (sws_peerConsecutiveDontHaves s)"

lemma sws_invD:
  assumes "sws_inv s"
  shows "finite (sws_peers s)" "no_peer \<notin> sws_peers s" "wants_ok (lookup_set (sws_swbt s)) (sws_peers s) (sws_wants s)"
    "counts_ok (sws_peerConsecutiveDontHaves s)" "finite (dom (sws_wants s))"
  using assms by (simp_all add: sws_inv_def wants_ok_def)

lemma counts_ok_delete [simp]: "counts_ok c \<Longrightarrow> counts_ok (c(p := None))"
  by (simp add: counts_ok_def)

lemma emit_sel [simp]:
  "sws_wants (emit cs s) = sws_wants s" "sws_spm (emit cs s) = sws_spm s" "sws_swbt (emit cs s) = sws_swbt s"
  "sws_peerConsecutiveDontHaves (emit cs s) = sws_peerConsecutiveDontHaves s" "sws_calls (emit cs s) = sws_calls s @ cs"
  "sws_changes (emit cs s) = sws_changes s" "sws_prune (emit cs s) = sws_prune s" "sws_closed (emit cs s) = sws_closed s"
  by (simp_all add: emit_def)

lemma sws_inv_emit [simp]: "sws_inv (emit cs s) = sws_inv s"
  by (simp add: sws_inv_def)

lemma trackWant_sel:
  "sws_spm (trackWant itp rnd bpm w s) = sws_spm s" "sws_swbt (trackWant itp rnd bpm w s) = sws_swbt s"
  "sws_calls (trackWant itp rnd bpm w s) = sws_calls s" "sws_prune (trackWant itp rnd bpm w s) = sws_prune s"
  "sws_peerConsecutiveDontHaves (trackWant itp rnd bpm w s) = sws_peerConsecutiveDontHaves s"
  "sws_changes (trackWant itp rnd bpm w s) = sws_changes s" "sws_closed (trackWant itp rnd bpm w s) = sws_closed s"
  "dom (sws_wants (trackWant itp rnd bpm w s)) = insert w (dom (sws_wants s))"
proof -
  show "dom (sws_wants (trackWant itp rnd bpm w s)) = insert w (dom (sws_wants s))"
  proof (cases "sws_wants s w")
    case None
    let ?s = "\<lambda>d. s\<lparr>sws_wants := (sws_wants s)(w \<mapsto> newWantInfo), sws_wantDups := d\<rparr>"
    have "dom (sws_wants (fold (updateWantBlockPresence itp rnd bpm w) ps (?s d))) = insert w (dom (sws_wants s))" for ps d
    proof (rule set_eqI)
      show "v \<in> dom (sws_wants (fold (updateWantBlockPresence itp rnd bpm w) ps (?s d))) \<longleftrightarrow> v \<in> insert w (dom (sws_wants s))" for v
        using uWBP_fold_sel(8) [of v w itp rnd bpm ps "?s d"] uWBP_fold_sel(9) [of "?s d" w itp rnd bpm ps]
        by (cases "v = w") (simp_all add: dom_def)
    qed
    then show ?thesis by (simp add: trackWant_def Let_def None)
  qed (auto simp: trackWant_def)
qed (simp_all add: trackWant_def Let_def uWBP_fold_sel split: option.splits)

lemma trackWant_inv:
  assumes "iterates itp" "sws_inv s"
  shows "sws_inv (trackWant itp rnd bpm w s)"
proof (cases "sws_wants s w")
  case None
  let ?t = "trackWant itp rnd bpm w s"
  have "wi_ok (lookup_set (sws_swbt s)) (sws_peers s) v wi" if v: "sws_wants ?t v = Some wi" for v wi
  proof -
    let ?d = "(sws_wantDups s)(want_Cid w \<mapsto> (if length (case sws_wantDups s (want_Cid w) of None \<Rightarrow> [] | Some ws \<Rightarrow> ws) = 0 then [w]
      else (case sws_wantDups s (want_Cid w) of None \<Rightarrow> [] | Some ws \<Rightarrow> ws) @ [w]))"
    let ?s = "s\<lparr>sws_wants := (sws_wants s)(w \<mapsto> newWantInfo), sws_wantDups := ?d\<rparr>"
    have t: "?t = fold (updateWantBlockPresence itp rnd bpm w) (spm_Peers itp (sws_spm s)) ?s"
      by (simp add: trackWant_def None Let_def)
    have set: "set (spm_Peers itp (sws_spm s)) = sws_peers s" using assms sws_invD(1) by (simp add: spm_Peers_def)
    show ?thesis
    proof (cases "v = w")
      case True
      have "wi_ok (lookup_set (sws_swbt s)) ({} \<union> set (spm_Peers itp (sws_spm s))) w wi"
        by (rule uWBP_fold_ok [OF assms(1), of _ ?s w newWantInfo _ _ rnd bpm])
          (use v sws_invD(2) [OF assms(2)] in \<open>simp_all add: set newWantInfo_ok t True\<close>)
      then show ?thesis by (simp add: set True)
    next
      case False
      then have "sws_wants s v = Some wi" using v by (simp add: t uWBP_fold_sel(8))
      then show ?thesis by (rule wants_okD(1) [OF sws_invD(3) [OF assms(2)]])
    qed
  qed
  then show ?thesis using sws_invD [OF assms(2)] by (simp add: sws_inv_def wants_ok_def trackWant_sel)
qed (use assms in \<open>simp add: trackWant_def\<close>)

lemma untrackWant_inv: "sws_inv s \<Longrightarrow> sws_inv (untrackWant w s)"
  by (simp add: sws_inv_def untrackWant_def wants_ok_delete)

lemma apply_change_inv:
  assumes "iterates itp" "sws_inv (fst st)"
  shows "sws_inv (fst (apply_change itp rnd bpm ch st))"
proof -
  have "sws_inv (fold (trackWant itp rnd bpm) ws s)" if "sws_inv s" for ws s
    using that by (rule fold_invariant) (rule trackWant_inv [OF assms(1)])
  moreover have "sws_inv (fold untrackWant ws s)" if "sws_inv s" for ws s
    using that by (rule fold_invariant) (rule untrackWant_inv)
  ultimately show ?thesis using assms(2) by (simp add: apply_change_def split_beta Let_def)
qed

text \<open>What the changes collect: no empty peer gets in.\<close>

definition collected :: "(peer \<rightharpoonup> bool) \<times> Want list \<times> sws_update list \<Rightarrow> bool" where
  "collected c \<longleftrightarrow> finite (dom (fst c)) \<and> no_peer \<notin> dom (fst c) \<and> (\<forall>u \<in> set (snd (snd c)). upd_from u \<noteq> no_peer)"

lemma apply_change_collected: "collected (snd st) \<Longrightarrow> collected (snd (apply_change itp rnd bpm ch st))"
  by (auto simp: apply_change_def split_beta Let_def collected_def split: if_splits)

lemma apply_changes:
  assumes "iterates itp" "sws_inv s"
  shows "sws_inv (fst (fold (apply_change itp rnd bpm) chs (s, Map.empty, [], [])))"
    "collected (snd (fold (apply_change itp rnd bpm) chs (s, Map.empty, [], [])))"
  by (rule fold_invariant [where P = "\<lambda>st. sws_inv (fst st)"], use assms in \<open>simp_all add: apply_change_inv\<close>)
    (rule fold_invariant [where P = "\<lambda>st. collected (snd st)"], simp_all add: apply_change_collected, simp add: collected_def)

text \<open>Peers come and go.\<close>

lemma availability_step_sel:
  "sws_spm (availability_step itp rnd bpm p b w s) = sws_spm s" "sws_swbt (availability_step itp rnd bpm p b w s) = sws_swbt s"
  "sws_calls (availability_step itp rnd bpm p b w s) = sws_calls s" "sws_prune (availability_step itp rnd bpm p b w s) = sws_prune s"
  "sws_peerConsecutiveDontHaves (availability_step itp rnd bpm p b w s) = sws_peerConsecutiveDontHaves s"
  "v \<noteq> w \<Longrightarrow> sws_wants (availability_step itp rnd bpm p b w s) v = sws_wants s v"
  "sws_wants s w = None \<Longrightarrow> sws_wants (availability_step itp rnd bpm p b w s) w = None"
  "sws_changes (availability_step itp rnd bpm p b w s) = sws_changes s"
  by (simp_all add: availability_step_def split: option.splits)

lemma availability_step_ok:
  assumes "iterates itp" "p \<noteq> no_peer" "sws_wants s w = Some wi" "wi_ok sent ps w wi"
  shows "\<exists>wi'. sws_wants (availability_step itp rnd bpm p b w s) w = Some wi' \<and> wi_ok sent (if b then insert p ps else ps - {p}) w wi'"
  using wi_ok_set [OF assms(1,4,2)] wi_ok_remove [OF assms(1,4)] by (simp add: availability_step_def assms(3))

lemma availability_fold_sel:
  "sws_spm (fold (availability_step itp rnd bpm p b) ws s) = sws_spm s" "sws_swbt (fold (availability_step itp rnd bpm p b) ws s) = sws_swbt s"
  "sws_calls (fold (availability_step itp rnd bpm p b) ws s) = sws_calls s" "sws_prune (fold (availability_step itp rnd bpm p b) ws s) = sws_prune s"
  "sws_peerConsecutiveDontHaves (fold (availability_step itp rnd bpm p b) ws s) = sws_peerConsecutiveDontHaves s"
  "sws_changes (fold (availability_step itp rnd bpm p b) ws s) = sws_changes s"
  "w \<notin> set ws \<Longrightarrow> sws_wants (fold (availability_step itp rnd bpm p b) ws s) w = sws_wants s w"
  by (induction ws arbitrary: s) (simp_all add: availability_step_sel)

lemma availability_fold_ok:
  assumes "iterates itp" "p \<noteq> no_peer" "distinct ws" "w \<in> set ws" "sws_wants s w = Some wi" "wi_ok sent ps w wi"
  shows "\<exists>wi'. sws_wants (fold (availability_step itp rnd bpm p b) ws s) w = Some wi' \<and> wi_ok sent (if b then insert p ps else ps - {p}) w wi'"
  using assms(3-5)
proof (induction ws arbitrary: s)
  case (Cons v ws)
  show ?case
  proof (cases "v = w")
    case True
    then show ?thesis using Cons.prems availability_step_ok [OF assms(1,2) Cons.prems(3) assms(6), of rnd bpm b]
      by (simp add: availability_fold_sel(7))
  next
    case False
    then show ?thesis using Cons.prems Cons.IH [of "availability_step itp rnd bpm p b v s"] by (simp add: availability_step_sel(6))
  qed
qed simp

lemma updateAvailability_ok:
  assumes "iterates itw" "iterates itp" "p \<noteq> no_peer" "wants_ok sent ps (sws_wants s)"
  shows "wants_ok sent (if b then insert p ps else ps - {p}) (sws_wants (updateWantsPeerAvailability itw itp rnd bpm p b s)) \<and>
    dom (sws_wants (updateWantsPeerAvailability itw itp rnd bpm p b s)) = dom (sws_wants s)"
proof -
  let ?t = "updateWantsPeerAvailability itw itp rnd bpm p b s" and ?ws = "itw (dom (sws_wants s))"
  have ws: "set ?ws = dom (sws_wants s)" "distinct ?ws" using assms(1) wants_okD(2) [OF assms(4)] by simp_all
  have none: "sws_wants ?t w = None" if "sws_wants s w = None" for w
    using that ws availability_fold_sel(7) [of w ?ws] by (simp add: updateWantsPeerAvailability_def domIff)
  have some: "\<exists>wi'. sws_wants ?t w = Some wi' \<and> wi_ok sent (if b then insert p ps else ps - {p}) w wi'" if "sws_wants s w = Some wi" for w wi
    unfolding updateWantsPeerAvailability_def
    by (rule availability_fold_ok [OF assms(2,3) ws(2) _ that wants_okD(1) [OF assms(4) that]]) (use that ws in auto)
  have dom: "dom (sws_wants ?t) = dom (sws_wants s)"
  proof (rule set_eqI)
    show "w \<in> dom (sws_wants ?t) \<longleftrightarrow> w \<in> dom (sws_wants s)" for w
      using none [of w] some [of w] by (cases "sws_wants s w") (auto simp: domIff)
  qed
  moreover have "wi_ok sent (if b then insert p ps else ps - {p}) w wi'" if "sws_wants ?t w = Some wi'" for w wi'
    using that none [of w] some [of w] by (cases "sws_wants s w") auto
  ultimately show ?thesis using wants_okD(2) [OF assms(4)] by (simp add: wants_ok_def)
qed

lemma updateAvailability_sel:
  "sws_spm (updateWantsPeerAvailability itw itp rnd bpm p b s) = sws_spm s" "sws_swbt (updateWantsPeerAvailability itw itp rnd bpm p b s) = sws_swbt s"
  "sws_calls (updateWantsPeerAvailability itw itp rnd bpm p b s) = sws_calls s"
  "sws_peerConsecutiveDontHaves (updateWantsPeerAvailability itw itp rnd bpm p b s) = sws_peerConsecutiveDontHaves s"
  by (simp_all add: updateWantsPeerAvailability_def availability_fold_sel)

lemma available_peer_inv:
  assumes "iterates itw" "iterates itp" "p \<noteq> no_peer" "sws_inv (fst st)"
  shows "sws_inv (fst (available_peer itw itp rnd bpm av p st))"
proof -
  obtain s na nu where st: "st = (s, na, nu)" by (metis prod_cases3)
  let ?b = "av p = Some True"
  obtain ch spm cs where r: "(if ?b then AddPeer p (sws_spm s) else RemovePeer p (sws_spm s)) = (ch, spm, cs)" by (metis prod_cases3)
  have inv: "sws_inv s" using assms(4) by (simp add: st)
  let ?s1 = "emit (map Call_tagger cs) (s\<lparr>sws_spm := spm\<rparr>)"
  show ?thesis
  proof (cases ch)
    case False
    then have "spm = sws_spm s" using r by (auto simp: AddPeer_def RemovePeer_def split: if_splits)
    then have "sws_inv ?s1" using inv by (simp add: sws_inv_def)
    then show ?thesis using False by (simp add: available_peer_def st r Let_def)
  next
    case True
    then have spm: "spm_peers spm = (if ?b then insert p (sws_peers s) else sws_peers s - {p})"
      using r by (auto simp: AddPeer_def RemovePeer_def split: if_splits)
    have "wants_ok (lookup_set (sws_swbt s)) (spm_peers spm) (sws_wants (updateWantsPeerAvailability itw itp rnd bpm p ?b ?s1))"
      using updateAvailability_ok [OF assms(1-3), of "lookup_set (sws_swbt s)" "sws_peers s" ?s1 ?b rnd bpm] sws_invD(3) [OF inv]
      by (simp add: spm)
    moreover have "finite (spm_peers spm) \<and> no_peer \<notin> spm_peers spm" using sws_invD(1,2) [OF inv] assms(3) by (simp add: spm)
    ultimately have "sws_inv ((updateWantsPeerAvailability itw itp rnd bpm p ?b ?s1)
        \<lparr>sws_peerConsecutiveDontHaves := (sws_peerConsecutiveDontHaves (updateWantsPeerAvailability itw itp rnd bpm p ?b ?s1))(p := None)\<rparr>)"
      using sws_invD(4) [OF inv] by (simp add: sws_inv_def updateAvailability_sel)
    then show ?thesis using True r by (cases ?b) (simp_all add: available_peer_def st Let_def)
  qed
qed

lemma processAvailability_inv:
  assumes "iterates itw" "iterates itp" "sws_inv s" "finite (dom av)" "no_peer \<notin> dom av"
  shows "sws_inv (fst (processAvailability itw itp rnd bpm av s))"
  unfolding processAvailability_def
  by (rule fold_invariant [where P = "\<lambda>st. sws_inv (fst st)"]) (use assms in \<open>auto intro!: available_peer_inv\<close>)

text \<open>Messages.\<close>

lemma block_step_inv: "sws_inv (fst st) \<Longrightarrow> sws_inv (fst (block_step from c st))"
  by (cases st) (auto simp: block_step_def removeWant_def Let_def sws_inv_def wants_ok_delete split: option.splits)

lemma process_blocks_inv: "sws_inv s \<Longrightarrow> sws_inv (fst (process_blocks us s))"
  unfolding process_blocks_def
  by (rule fold_invariant [where P = "\<lambda>st. sws_inv (fst st)"], simp)
    (rule fold_invariant [where P = "\<lambda>st. sws_inv (fst st)"], simp_all add: block_step_inv)

lemma dont_have_count_inv: "sws_inv (fst st) \<Longrightarrow> sws_inv (fst (dont_have_count from st))"
  by (cases st) (force simp: dont_have_count_def Let_def sws_inv_def counts_ok_def split: option.splits)

lemma uWBP_inv: "iterates itp \<Longrightarrow> sws_inv s \<Longrightarrow> p \<noteq> no_peer \<Longrightarrow> sws_inv (updateWantBlockPresence itp rnd bpm w p s)"
  using uWBP_ok [of itp "lookup_set (sws_swbt s)" "sws_peers s" s p rnd bpm w] unfolding sws_inv_def uWBP_sel(2,3,6) by blast

lemma setWantSentTo_sel [simp]:
  "sws_spm (setWantSentTo w p s) = sws_spm s" "sws_swbt (setWantSentTo w p s) = sws_swbt s" "sws_calls (setWantSentTo w p s) = sws_calls s"
  "sws_peerConsecutiveDontHaves (setWantSentTo w p s) = sws_peerConsecutiveDontHaves s" "sws_prune (setWantSentTo w p s) = sws_prune s"
  "sws_wants (setWantSentTo w p s) v = (if v = w then map_option (\<lambda>wi. wi\<lparr>wi_sentTo := p\<rparr>) (sws_wants s w) else sws_wants s v)"
  "dom (sws_wants (setWantSentTo w p s)) = dom (sws_wants s)"
  by (auto simp: setWantSentTo_def split: option.splits)

lemma wi_ok_clear: "wi_ok sent ps w wi \<Longrightarrow> wi_ok sent ps w (wi\<lparr>wi_sentTo := no_peer\<rparr>)"
  by (simp add: wi_ok_def)

lemma setWantSentTo_clear_inv: "sws_inv s \<Longrightarrow> sws_inv (setWantSentTo w no_peer s)"
  by (auto simp: sws_inv_def wants_ok_def wi_ok_clear split: if_splits)

lemma dont_have_want_inv: "iterates itp \<Longrightarrow> sws_inv s \<Longrightarrow> from \<noteq> no_peer \<Longrightarrow> sws_inv (dont_have_want itp rnd bpm from w s)"
  by (simp add: dont_have_want_def Let_def uWBP_inv setWantSentTo_clear_inv)

lemma dont_have_step_inv:
  assumes "iterates itp" "from \<noteq> no_peer" "sws_inv (fst st)"
  shows "sws_inv (fst (dont_have_step itp rnd bpm bc from w st))"
proof -
  obtain s pr dh where st: "st = (s, pr, dh)" by (metis prod_cases3)
  obtain s' pr' where c: "dont_have_count from (s, pr) = (s', pr')" by force
  have "sws_inv s'" using dont_have_count_inv [of "(s, pr)" "from"] assms(3) by (simp add: c st)
  then show ?thesis using assms by (simp add: dont_have_step_def st c dont_have_want_inv)
qed

lemma have_step_inv: "iterates itp \<Longrightarrow> from \<noteq> no_peer \<Longrightarrow> sws_inv (fst st) \<Longrightarrow> sws_inv (fst (have_step itp rnd bpm bc from w st))"
  using uWBP_inv [of itp "fst st" "from" rnd bpm w] unfolding have_step_def split_beta Let_def
  by (auto simp: sws_inv_def simp del: uWBP_sel(1))

lemma process_dontHaves_inv:
  assumes "iterates itp" "\<forall>u \<in> set us. upd_from u \<noteq> no_peer" "sws_inv s"
  shows "sws_inv (fst (process_dontHaves itp rnd bpm bc us s))"
  unfolding process_dontHaves_def
  by (rule fold_invariant [where P = "\<lambda>st. sws_inv (fst st)"], use assms in simp)
    (rule fold_invariant [where P = "\<lambda>st. sws_inv (fst st)"], use assms in \<open>simp_all add: dont_have_step_inv\<close>)

lemma process_haves_inv:
  assumes "iterates itp" "\<forall>u \<in> set us. upd_from u \<noteq> no_peer" "sws_inv (fst st)"
  shows "sws_inv (fst (process_haves itp rnd bpm bc us st))"
  unfolding process_haves_def
  by (rule fold_invariant [where P = "\<lambda>st. sws_inv (fst st)"], use assms in simp)
    (rule fold_invariant [where P = "\<lambda>st. sws_inv (fst st)"], use assms in \<open>simp_all add: have_step_inv\<close>)

lemma processUpdates_inv:
  assumes "iterates itp" "\<forall>u \<in> set us. upd_from u \<noteq> no_peer" "sws_inv s"
  shows "sws_inv (fst (processUpdates itw itp rnd bpm us s))"
proof -
  obtain s1 bc where 1: "process_blocks us s = (s1, bc)" by force
  obtain s2 pr dh where 2: "process_dontHaves itp rnd bpm bc us s1 = (s2, pr, dh)" by (metis prod_cases3)
  obtain s3 pr' where 3: "process_haves itp rnd bpm bc us (s2, pr) = (s3, pr')" by force
  have "sws_inv s1" using process_blocks_inv [OF assms(3), of us] by (simp add: 1)
  from process_dontHaves_inv [OF assms(1,2) this, of rnd bpm bc] have "sws_inv s2" by (simp add: 2)
  with process_haves_inv [OF assms(1,2), of "(s2, pr)" rnd bpm bc] have "sws_inv s3" by (simp add: 3)
  then show ?thesis by (simp add: processUpdates_def 1 2 3 prune_peers_def Let_def sws_inv_def)
qed

lemma exhausted_step_inv: "sws_inv (fst st) \<Longrightarrow> sws_inv (fst (exhausted_step w st))"
  by (cases st) (auto simp: exhausted_step_def sws_inv_def wants_ok_def wi_ok_def split: option.splits)

lemma processExhaustedWants_inv: "sws_inv s \<Longrightarrow> sws_inv (processExhaustedWants ws s)"
  using fold_invariant [where P = "\<lambda>st. sws_inv (fst st)" and f = exhausted_step and xs = ws and s = "(s, [])"]
  by (simp add: processExhaustedWants_def newlyExhausted_def split_beta exhausted_step_inv)

lemma checkForExhaustedWants_inv: "sws_inv s \<Longrightarrow> sws_inv (checkForExhaustedWants itw itp bpm dh nu s)"
  by (simp add: checkForExhaustedWants_def Let_def processExhaustedWants_inv)

section \<open>Sending\<close>

text \<open>The want-block of a want is about to go to a peer.\<close>

definition goes_to :: "sessionWantSender \<Rightarrow> Want \<Rightarrow> peer \<Rightarrow> bool" where
  "goes_to s w p \<longleftrightarrow> (\<exists>wi. sws_wants s w = Some wi \<and> wi_sentTo wi = no_peer \<and> wi_bestPeer wi = p \<and> p \<noteq> no_peer)"

lemma goes_to_unique: "goes_to s w p \<Longrightarrow> goes_to s w q \<Longrightarrow> p = q"
  by (auto simp: goes_to_def)

definition next_wi :: "wantInfo \<Rightarrow> wantInfo" where
  "next_wi wi = (if wi_sentTo wi = no_peer then wi\<lparr>wi_sentTo := wi_bestPeer wi\<rparr> else wi)"

lemma forPeer_add [simp]:
  "forPeer q (add_wantBlock p w aw) = (if q = p then (insert w (fst (forPeer p aw)), snd (forPeer p aw)) else forPeer q aw)"
  "forPeer q (add_wantHave p w aw) = (if q = p then (fst (forPeer p aw), insert w (snd (forPeer p aw))) else forPeer q aw)"
  "dom (add_wantBlock p w aw) = insert p (dom aw)" "dom (add_wantHave p w aw) = insert p (dom aw)"
  by (auto simp: forPeer_def add_wantBlock_def add_wantHave_def)

lemma forPeer_haves:
  "fst (forPeer q (fold (\<lambda>p. add_wantHave p w) ps aw)) = fst (forPeer q aw)"
  "snd (forPeer q (fold (\<lambda>p. add_wantHave p w) ps aw)) = (if q \<in> set ps then insert w (snd (forPeer q aw)) else snd (forPeer q aw))"
  "dom (fold (\<lambda>p. add_wantHave p w) ps aw) = dom aw \<union> set ps"
  by (induction ps arbitrary: aw) auto

lemma forPeer_others:
  "fold (\<lambda>p aw. if p \<noteq> b then add_wantHave p w aw else aw) ps aw = fold (\<lambda>p. add_wantHave p w) (filter (\<lambda>p. p \<noteq> b) ps) aw"
  by (induction ps arbitrary: aw) auto

lemma next_want_eq:
  assumes "sws_wants s w = Some wi"
  shows "fst (next_want itp na w (s, aw)) = s\<lparr>sws_wants := (sws_wants s)(w \<mapsto> next_wi wi)\<rparr>"
    "fst (forPeer q (snd (next_want itp na w (s, aw)))) = (if goes_to s w q then insert w (fst (forPeer q aw)) else fst (forPeer q aw))"
    "snd (forPeer q (snd (next_want itp na w (s, aw)))) =
       (if q \<in> set na \<or> q \<in> set (spm_Peers itp (sws_spm s)) \<and> (\<exists>p. goes_to s w p \<and> p \<noteq> q) then insert w (snd (forPeer q aw)) else snd (forPeer q aw))"
    "dom (snd (next_want itp na w (s, aw))) = dom aw \<union> set na \<union> {q. goes_to s w q} \<union> {q. q \<in> set (spm_Peers itp (sws_spm s)) \<and> (\<exists>p. goes_to s w p \<and> p \<noteq> q)}"
proof -
  have id: "s\<lparr>sws_wants := (sws_wants s)(w \<mapsto> wi)\<rparr> = s" using assms by (simp add: fun_upd_idem)
  have same: "wi_sentTo wi = [] \<Longrightarrow> wi_bestPeer wi = [] \<Longrightarrow> next_wi wi = wi" by (cases wi) (simp add: next_wi_def)
  show "fst (next_want itp na w (s, aw)) = s\<lparr>sws_wants := (sws_wants s)(w \<mapsto> next_wi wi)\<rparr>"
  proof (cases "wi_sentTo wi = [] \<and> wi_bestPeer wi \<noteq> []")
    case True
    then show ?thesis by (simp add: next_want_def assms Let_def next_wi_def setWantSentTo_def)
  next
    case False
    then have "next_wi wi = wi" using same by (auto simp: next_wi_def)
    then show ?thesis using False id by (auto simp: next_want_def assms Let_def)
  qed
  show "fst (forPeer q (snd (next_want itp na w (s, aw)))) = (if goes_to s w q then insert w (fst (forPeer q aw)) else fst (forPeer q aw))"
    by (auto simp: next_want_def assms Let_def goes_to_def forPeer_haves forPeer_others)
  show "snd (forPeer q (snd (next_want itp na w (s, aw)))) =
       (if q \<in> set na \<or> q \<in> set (spm_Peers itp (sws_spm s)) \<and> (\<exists>p. goes_to s w p \<and> p \<noteq> q) then insert w (snd (forPeer q aw)) else snd (forPeer q aw))"
    by (auto simp: next_want_def assms Let_def goes_to_def forPeer_haves forPeer_others)
  show "dom (snd (next_want itp na w (s, aw))) = dom aw \<union> set na \<union> {q. goes_to s w q} \<union> {q. q \<in> set (spm_Peers itp (sws_spm s)) \<and> (\<exists>p. goes_to s w p \<and> p \<noteq> q)}"
    by (auto simp: next_want_def assms Let_def goes_to_def forPeer_haves forPeer_others)
qed

lemma next_wants_eq:
  assumes "distinct ws" "set ws \<subseteq> dom (sws_wants s)"
  shows "fst (fold (next_want itp na) ws (s, aw)) = s\<lparr>sws_wants := (\<lambda>v. if v \<in> set ws then map_option next_wi (sws_wants s v) else sws_wants s v)\<rparr> \<and>
    (\<forall>q. fst (forPeer q (snd (fold (next_want itp na) ws (s, aw)))) = fst (forPeer q aw) \<union> {v \<in> set ws. goes_to s v q}) \<and>
    (\<forall>q. snd (forPeer q (snd (fold (next_want itp na) ws (s, aw)))) = snd (forPeer q aw) \<union> (if q \<in> set na then set ws else {}) \<union>
       {v \<in> set ws. q \<in> set (spm_Peers itp (sws_spm s)) \<and> (\<exists>p. goes_to s v p \<and> p \<noteq> q)}) \<and>
    dom (snd (fold (next_want itp na) ws (s, aw))) = dom aw \<union> (if ws = [] then {} else set na) \<union> {q. \<exists>v \<in> set ws. goes_to s v q} \<union>
       {q. q \<in> set (spm_Peers itp (sws_spm s)) \<and> (\<exists>v \<in> set ws. \<exists>p. goes_to s v p \<and> p \<noteq> q)}"
  using assms
proof (induction ws arbitrary: s aw)
  case Nil
  then show ?case by simp
next
  case (Cons w ws)
  obtain wi where wi: "sws_wants s w = Some wi" using Cons.prems(2) by auto
  let ?s = "s\<lparr>sws_wants := (sws_wants s)(w \<mapsto> next_wi wi)\<rparr>"
  define a where "a = snd (next_want itp na w (s, aw))"
  have st: "next_want itp na w (s, aw) = (?s, a)" using next_want_eq(1) [OF wi, of itp na aw] by (simp add: a_def prod_eq_iff)
  note a = next_want_eq(2,3) [OF wi, of _ itp na aw, folded a_def] next_want_eq(4) [OF wi, of itp na aw, folded a_def]
  have g: "goes_to ?s v q = goes_to s v q" if "v \<in> set ws" for v q using that Cons.prems(1) by (auto simp: goes_to_def)
  have sets: "{v \<in> set ws. goes_to ?s v q} = {v \<in> set ws. goes_to s v q}"
    "{v \<in> set ws. q \<in> P \<and> (\<exists>p. goes_to ?s v p \<and> p \<noteq> q)} = {v \<in> set ws. q \<in> P \<and> (\<exists>p. goes_to s v p \<and> p \<noteq> q)}"
    "{q. \<exists>v \<in> set ws. goes_to ?s v q} = {q. \<exists>v \<in> set ws. goes_to s v q}"
    "{q. q \<in> P \<and> (\<exists>v \<in> set ws. \<exists>p. goes_to ?s v p \<and> p \<noteq> q)} = {q. q \<in> P \<and> (\<exists>v \<in> set ws. \<exists>p. goes_to s v p \<and> p \<noteq> q)}" for q P
    using g by auto
  have pre: "distinct ws" "set ws \<subseteq> dom (sws_wants ?s)" using Cons.prems by auto
  note IH = Cons.IH [OF pre, of a, unfolded sets]
  have spm: "sws_spm ?s = sws_spm s" by simp
  note IH' = IH [unfolded spm sets]
  show ?case
  proof (intro conjI allI)
    show "fst (fold (next_want itp na) (w # ws) (s, aw)) = s\<lparr>sws_wants := \<lambda>v. if v \<in> set (w # ws) then map_option next_wi (sws_wants s v) else sws_wants s v\<rparr>"
      using Cons.prems(1) wi by (simp add: st IH') (auto simp: fun_eq_iff intro!: arg_cong [where f = "\<lambda>x. s\<lparr>sws_wants := x\<rparr>"])
  qed (use Cons.prems(1) in \<open>auto simp: st IH' a split: if_splits\<close>)
qed

text \<open>The requests to a peer.\<close>

definition piggyback :: "sessionWantSender \<Rightarrow> peer \<Rightarrow> Want set \<Rightarrow> Want set" where
  "piggyback s p wb = {w \<in> dom (sws_wants s). w \<notin> wb \<and> w \<notin> lookup_set (sws_swbt s) p}"

definition request :: "(Want set \<Rightarrow> Want list) \<Rightarrow> allWants \<Rightarrow> sessionWantSender \<Rightarrow> peer \<Rightarrow> sws_call list" where
  "request itw aw s p =
     (let wb = fst (forPeer p aw); wh = snd (forPeer p aw) \<union> piggyback s p wb
      in [Call_SendWants p (itw wb) (itw wh), Call_onSend p (itw wb) (itw wh)])"

lemma lookup_addSent: "lookup_set (addSentWantBlocksTo p ks sw) q = (if q = p then lookup_set sw p \<union> set ks else lookup_set sw q)"
  by (auto simp: addSentWantBlocksTo_def Let_def fold_insert_set lookup_set_def)

lemma send_to_eq:
  assumes "iterates itw" "finite (dom (sws_wants s))"
  shows "send_to itw aw p s = s\<lparr>sws_calls := sws_calls s @ request itw aw s p,
    sws_swbt := addSentWantBlocksTo p (itw (fst (forPeer p aw))) (sws_swbt s)\<rparr>"
proof -
  have "set (getPiggybackWantHaves itw p wb s) = piggyback s p wb" for wb
    using assms by (auto simp: getPiggybackWantHaves_def piggyback_def haveSentWantBlockTo_def)
  then show ?thesis
    by (simp add: send_to_def split_beta Let_def request_def emit_def fold_insert_set Un_commute)
qed

lemma request_cong:
  "sws_wants s' = sws_wants s \<Longrightarrow> lookup_set (sws_swbt s') p = lookup_set (sws_swbt s) p \<Longrightarrow> request itw aw s' p = request itw aw s p"
  by (simp add: request_def piggyback_def)

lemma sends_eq:
  assumes "iterates itw" "finite (dom (sws_wants s))" "distinct ps"
  shows "\<exists>sw. fold (send_to itw aw) ps s = s\<lparr>sws_calls := sws_calls s @ concat (map (request itw aw s) ps), sws_swbt := sw\<rparr> \<and>
    (\<forall>q. lookup_set sw q = (if q \<in> set ps then lookup_set (sws_swbt s) q \<union> set (itw (fst (forPeer q aw))) else lookup_set (sws_swbt s) q))"
  using assms(2,3)
proof (induction ps arbitrary: s)
  case (Cons p ps)
  let ?s = "s\<lparr>sws_calls := sws_calls s @ request itw aw s p, sws_swbt := addSentWantBlocksTo p (itw (fst (forPeer p aw))) (sws_swbt s)\<rparr>"
  have r: "map (request itw aw ?s) ps = map (request itw aw s) ps"
    using Cons.prems(2) by (intro map_cong refl request_cong) (auto simp: lookup_addSent)
  obtain sw where sw: "fold (send_to itw aw) ps ?s = ?s\<lparr>sws_calls := sws_calls ?s @ concat (map (request itw aw ?s) ps), sws_swbt := sw\<rparr>"
    "\<forall>q. lookup_set sw q = (if q \<in> set ps then lookup_set (sws_swbt ?s) q \<union> set (itw (fst (forPeer q aw))) else lookup_set (sws_swbt ?s) q)"
    using Cons.IH [of ?s] Cons.prems by auto
  show ?case using sw Cons.prems(2)
    by (intro exI [of _ sw]) (auto simp: send_to_eq [OF assms(1) Cons.prems(1)] r lookup_addSent)
next
  case Nil
  show ?case by (intro exI [of _ "sws_swbt s"]) simp
qed

text \<open>What goes out when pending wants are sent: for every peer, the want-blocks and the want-haves.\<close>

definition out_blocks :: "sessionWantSender \<Rightarrow> peer \<Rightarrow> Want set" where
  "out_blocks s p = {w. goes_to s w p}"

definition out_haves :: "peer list \<Rightarrow> sessionWantSender \<Rightarrow> peer \<Rightarrow> Want set" where
  "out_haves na s p =
     (if p \<in> set na then dom (sws_wants s) else {}) \<union> {w. p \<in> sws_peers s \<and> (\<exists>q. goes_to s w q \<and> q \<noteq> p)} \<union>
     {w \<in> dom (sws_wants s). w \<notin> out_blocks s p \<and> w \<notin> lookup_set (sws_swbt s) p}"

definition out_peers :: "peer list \<Rightarrow> sessionWantSender \<Rightarrow> peer set" where
  "out_peers na s =
     {p. out_blocks s p \<noteq> {}} \<union> (if dom (sws_wants s) = {} then {} else set na) \<union> {p \<in> sws_peers s. \<exists>w q. goes_to s w q \<and> q \<noteq> p}"

lemma goes_to_dom: "goes_to s w p \<Longrightarrow> w \<in> dom (sws_wants s)"
  by (auto simp: goes_to_def)

lemma sendNextWants_eq:
  assumes itw: "iterates itw" and itp: "iterates itp" and inv: "sws_inv s"
  shows "\<exists>ps sw. set ps = out_peers na s \<and> distinct ps \<and>
    sendNextWants itw itp na s = s\<lparr>sws_wants := (\<lambda>w. map_option next_wi (sws_wants s w)), sws_swbt := sw,
      sws_calls := sws_calls s @ concat (map (\<lambda>p. [Call_SendWants p (itw (out_blocks s p)) (itw (out_haves na s p)),
        Call_onSend p (itw (out_blocks s p)) (itw (out_haves na s p))]) ps)\<rparr> \<and>
    (\<forall>p. lookup_set sw p = lookup_set (sws_swbt s) p \<union> out_blocks s p)"
proof -
  let ?ws = "itw (dom (sws_wants s))"
  have fin: "finite (dom (sws_wants s))" using sws_invD(5) [OF inv] .
  have ws: "distinct ?ws" "set ?ws = dom (sws_wants s)" using itw fin by simp_all
  have peers: "set (spm_Peers itp (sws_spm s)) = sws_peers s" using itp sws_invD(1) [OF inv] by (simp add: spm_Peers_def)
  obtain s1 aw where r: "fold (next_want itp na) ?ws (s, Map.empty) = (s1, aw)" by force
  have e: "forPeer q Map.empty = ({}, {})" for q by (simp add: forPeer_def)
  have wsd: "set ?ws \<subseteq> dom (sws_wants s)" using ws(2) by simp
  note n = next_wants_eq [OF ws(1) wsd, of itp na Map.empty, unfolded r fst_conv snd_conv e ws(2) peers]
  note n1 = conjunct1 [OF n] and n2 = conjunct1 [OF conjunct2 [OF n], rule_format]
    and n3 = conjunct1 [OF conjunct2 [OF conjunct2 [OF n]], rule_format] and n4 = conjunct2 [OF conjunct2 [OF conjunct2 [OF n]]]
  have "(\<lambda>v. if v \<in> dom (sws_wants s) then map_option next_wi (sws_wants s v) else sws_wants s v) = (\<lambda>w. map_option next_wi (sws_wants s w))"
    by (auto simp: fun_eq_iff domIff)
  then have s1: "s1 = s\<lparr>sws_wants := (\<lambda>w. map_option next_wi (sws_wants s w))\<rparr>" using n1 by simp
  have wb: "fst (forPeer q aw) = out_blocks s q" for q using n2 [of q] by (auto simp: out_blocks_def dest: goes_to_dom)
  have wh: "snd (forPeer q aw) = (if q \<in> set na then dom (sws_wants s) else {}) \<union> {w. q \<in> sws_peers s \<and> (\<exists>p. goes_to s w p \<and> p \<noteq> q)}" for q
    using n3 [of q] by (auto dest: goes_to_dom)
  have nil: "?ws = [] \<longleftrightarrow> dom (sws_wants s) = {}" using ws(2) by (metis set_empty)
  have dom: "dom aw = out_peers na s" using n4 unfolding nil out_peers_def out_blocks_def by (auto dest: goes_to_dom)
  have "dom aw \<subseteq> set na \<union> sws_peers s \<union> (\<lambda>w. wi_bestPeer (the (sws_wants s w))) ` dom (sws_wants s)"
    unfolding n4 by (force simp: goes_to_def split: if_splits)
  then have fin': "finite (dom aw)" by (rule finite_subset) (use fin sws_invD(1) [OF inv] in auto)
  let ?ps = "itp (dom aw)"
  have dom1: "dom (sws_wants s1) = dom (sws_wants s)" by (auto simp: s1 dom_def)
  have ps: "set ?ps = out_peers na s" "distinct ?ps" using itp fin' dom by simp_all
  obtain sw where sw: "fold (send_to itw aw) ?ps s1 = s1\<lparr>sws_calls := sws_calls s1 @ concat (map (request itw aw s1) ?ps), sws_swbt := sw\<rparr>"
    "\<forall>q. lookup_set sw q = (if q \<in> set ?ps then lookup_set (sws_swbt s1) q \<union> set (itw (fst (forPeer q aw))) else lookup_set (sws_swbt s1) q)"
    using sends_eq [OF itw, of s1 ?ps aw] fin ps(2) dom1 by auto
  have req: "request itw aw s1 p = [Call_SendWants p (itw (out_blocks s p)) (itw (out_haves na s p)),
        Call_onSend p (itw (out_blocks s p)) (itw (out_haves na s p))]" for p
    by (simp add: request_def wb wh piggyback_def dom1 out_haves_def Let_def) (simp add: s1)
  have finb: "finite (out_blocks s q)" for q by (rule finite_subset [OF _ fin]) (auto simp: out_blocks_def dest: goes_to_dom)
  have "lookup_set sw p = lookup_set (sws_swbt s) p \<union> out_blocks s p" for p
    using sw(2) itw finb [of p] by (auto simp: wb ps(1) out_peers_def s1)
  moreover have "request itw aw s1 = (\<lambda>p. [Call_SendWants p (itw (out_blocks s p)) (itw (out_haves na s p)),
        Call_onSend p (itw (out_blocks s p)) (itw (out_haves na s p))])" by (rule ext) (rule req)
  then have "sendNextWants itw itp na s = s1\<lparr>sws_calls := sws_calls s1 @ concat (map (\<lambda>p. [Call_SendWants p (itw (out_blocks s p)) (itw (out_haves na s p)),
        Call_onSend p (itw (out_blocks s p)) (itw (out_haves na s p))]) ?ps), sws_swbt := sw\<rparr>"
    unfolding sendNextWants_def r prod.case sws_sendWants_def sw(1) by (simp only:)
  ultimately show ?thesis using ps by (intro exI [of _ ?ps] exI [of _ sw]) (simp add: s1)
qed

lemma next_wi_ok:
  assumes "wi_ok sent ps w wi" "\<And>p. sent p \<subseteq> sent' p" "\<And>p. wi_sentTo wi = no_peer \<Longrightarrow> wi_bestPeer wi = p \<Longrightarrow> p \<noteq> no_peer \<Longrightarrow> w \<in> sent' p"
  shows "wi_ok sent' ps w (next_wi wi)"
proof -
  have "wi_bestPeer wi \<in> dom (wi_blockPresence wi)" if "wi_bestPeer wi \<noteq> no_peer"
    using assms(1) that by (auto simp: wi_ok_def best_ok_def)
  then show ?thesis using assms by (auto simp: wi_ok_def next_wi_def)
qed

lemma sendNextWants_inv:
  assumes "iterates itw" "iterates itp" "sws_inv s"
  shows "sws_inv (sendNextWants itw itp na s)"
proof -
  obtain ps sw where e: "sendNextWants itw itp na s = s\<lparr>sws_wants := (\<lambda>w. map_option next_wi (sws_wants s w)), sws_swbt := sw,
      sws_calls := sws_calls s @ concat (map (\<lambda>p. [Call_SendWants p (itw (out_blocks s p)) (itw (out_haves na s p)),
        Call_onSend p (itw (out_blocks s p)) (itw (out_haves na s p))]) ps)\<rparr>"
    "\<forall>p. lookup_set sw p = lookup_set (sws_swbt s) p \<union> out_blocks s p"
    using sendNextWants_eq [OF assms, of na] by blast
  have "wi_ok (lookup_set sw) (sws_peers s) w (next_wi wi)" if "sws_wants s w = Some wi" for w wi
    by (rule next_wi_ok [OF wants_okD(1) [OF sws_invD(3) [OF assms(3)] that]])
      (use e(2) that in \<open>auto simp: out_blocks_def goes_to_def\<close>)
  moreover have "dom (\<lambda>w. map_option next_wi (sws_wants s w)) = dom (sws_wants s)" by (auto simp: dom_def)
  ultimately show ?thesis using assms(3) by (auto simp: sws_inv_def e(1) wants_ok_def)
qed

section \<open>Every round of the run loop\<close>

text \<open>A want waits for a peer, or no peer is worth asking.\<close>

definition not_stuck :: "sessionWantSender \<Rightarrow> bool" where
  "not_stuck s \<longleftrightarrow> (\<forall>w wi. sws_wants s w = Some wi \<longrightarrow> wi_sentTo wi \<noteq> no_peer \<or> wi_bestPeer wi = no_peer)"

lemma next_wi_asked: "wi_sentTo (next_wi wi) \<noteq> no_peer \<or> wi_bestPeer (next_wi wi) = no_peer"
  by (simp add: next_wi_def)

lemma sendNextWants_not_stuck:
  assumes "iterates itw" "iterates itp" "sws_inv s"
  shows "not_stuck (sendNextWants itw itp na s)" "sws_spm (sendNextWants itw itp na s) = sws_spm s"
  using sendNextWants_eq [OF assms, of na] next_wi_asked by (auto simp: not_stuck_def)

lemma collectChanges_inv: "sws_inv s \<Longrightarrow> sws_inv (snd (collectChanges chs s))"
  by (simp add: collectChanges_def Let_def sws_inv_def)

text \<open>The state in which \<^verbatim>\<open>onChange\<close> decides whether to send, and the peers that have become available.\<close>

definition before_send ::
  "(Want set \<Rightarrow> Want list) \<Rightarrow> (peer set \<Rightarrow> peer list) \<Rightarrow> (nat \<Rightarrow> rat) \<Rightarrow> BlockPresenceManager \<Rightarrow> change list \<Rightarrow> sessionWantSender
     \<Rightarrow> sessionWantSender \<times> peer list" where
  "before_send itw itp rnd bpm changes s =
     (case collectChanges changes s of (changes, s) \<Rightarrow>
      case fold (apply_change itp rnd bpm) changes (s, Map.empty, [], []) of (s, availability, cancels, updates) \<Rightarrow>
      case processAvailability itw itp rnd bpm availability s of (s, newlyAvailable, newlyUnavailable) \<Rightarrow>
      case processUpdates itw itp rnd bpm updates s of (s, dontHaves) \<Rightarrow>
        let s = checkForExhaustedWants itw itp bpm dontHaves newlyUnavailable s;
            s = (if cancels \<noteq> [] then emit [Call_CancelSessionWants cancels] s else s)
        in (s, newlyAvailable))"

lemma onChange_eq:
  "onChange itw itp rnd bpm changes s =
     (case before_send itw itp rnd bpm changes s of (s, na) \<Rightarrow> if HasPeers (sws_spm s) then sendNextWants itw itp na s else s)"
  by (simp add: onChange_def before_send_def split_beta Let_def)

lemma before_send_inv:
  assumes "iterates itw" "iterates itp" "sws_inv s"
  shows "sws_inv (fst (before_send itw itp rnd bpm chs s))"
proof -
  obtain chs' s1 where 1: "collectChanges chs s = (chs', s1)" by force
  obtain s2 av can us where 2: "fold (apply_change itp rnd bpm) chs' (s1, Map.empty, [], []) = (s2, av, can, us)" by (metis prod_cases4)
  obtain s3 na nu where 3: "processAvailability itw itp rnd bpm av s2 = (s3, na, nu)" by (metis prod_cases3)
  obtain s4 dh where 4: "processUpdates itw itp rnd bpm us s3 = (s4, dh)" by force
  have "sws_inv s1" using collectChanges_inv [OF assms(3), of chs] by (simp add: 1)
  note ac = apply_changes [OF assms(2) this, of rnd bpm chs', unfolded 2]
  have "sws_inv s3" using processAvailability_inv [OF assms(1,2), of s2 av rnd bpm] ac by (simp add: 3 collected_def)
  with processUpdates_inv [OF assms(2), of us s3 itw rnd bpm] ac have "sws_inv s4" by (simp add: 4 collected_def)
  from checkForExhaustedWants_inv [OF this] show ?thesis by (simp add: before_send_def 1 2 3 4 Let_def)
qed

lemma onChange_inv:
  assumes "iterates itw" "iterates itp" "sws_inv s"
  shows "sws_inv (onChange itw itp rnd bpm chs s)"
    and "HasPeers (sws_spm (onChange itw itp rnd bpm chs s)) \<Longrightarrow> not_stuck (onChange itw itp rnd bpm chs s)"
proof -
  obtain s1 na where 1: "before_send itw itp rnd bpm chs s = (s1, na)" by force
  have inv: "sws_inv s1" using before_send_inv [OF assms, of rnd bpm chs] by (simp add: 1)
  show "sws_inv (onChange itw itp rnd bpm chs s)"
    using inv sendNextWants_inv [OF assms(1,2) inv] by (simp add: onChange_eq 1)
  show "HasPeers (sws_spm (onChange itw itp rnd bpm chs s)) \<Longrightarrow> not_stuck (onChange itw itp rnd bpm chs s)"
    using sendNextWants_not_stuck [OF assms(1,2) inv, of na] by (auto simp: onChange_eq 1 split: if_splits)
qed

text \<open>The sender in use: callers add changes, the run loop takes them, pruned peers are reported. The block presence manager is
whatever it is at the time. Calls that have been made can be forgotten.\<close>

inductive sws_reach :: "(Want set \<Rightarrow> Want list) \<Rightarrow> (peer set \<Rightarrow> peer list) \<Rightarrow> (nat \<Rightarrow> rat) \<Rightarrow> sessionWantSender \<Rightarrow> bool" for itw itp rnd where
  sws_new: "sws_reach itw itp rnd (newSessionWantSender sid (spm_New sid))"
| sws_add: "sws_reach itw itp rnd s \<Longrightarrow> sws_reach itw itp rnd (sws_Add ws s)"
| sws_cancel: "sws_reach itw itp rnd s \<Longrightarrow> sws_reach itw itp rnd (sws_Cancel ws s)"
| sws_updated: "sws_reach itw itp rnd s \<Longrightarrow> sws_reach itw itp rnd (sws_Update p ks hs ds s)"
| sws_signal: "sws_reach itw itp rnd s \<Longrightarrow> sws_reach itw itp rnd (SignalAvailability p b s)"
| sws_pruned: "sws_reach itw itp rnd s \<Longrightarrow> sws_reach itw itp rnd (report_pruned s)"
| sws_run: "sws_reach itw itp rnd s \<Longrightarrow> sws_reach itw itp rnd (sws_Run_step itw itp rnd bpm s)"
| sws_exit: "sws_reach itw itp rnd s \<Longrightarrow> sws_reach itw itp rnd (sws_Run_exit s)"
| sws_made: "sws_reach itw itp rnd s \<Longrightarrow> sws_reach itw itp rnd (s\<lparr>sws_calls := []\<rparr>)"

lemma enqueue_sel:
  "sws_inv (addChange c s) = sws_inv s" "not_stuck (addChange c s) = not_stuck s" "sws_spm (addChange c s) = sws_spm s"
  "sws_inv (s\<lparr>sws_changes := chs\<rparr>) = sws_inv s" "sws_inv (s\<lparr>sws_prune := ps\<rparr>) = sws_inv s" "not_stuck (s\<lparr>sws_prune := ps\<rparr>) = not_stuck s"
  "sws_inv (s\<lparr>sws_calls := cs\<rparr>) = sws_inv s" "not_stuck (s\<lparr>sws_calls := cs\<rparr>) = not_stuck s"
  "sws_inv (s\<lparr>sws_closed := b\<rparr>) = sws_inv s" "not_stuck (s\<lparr>sws_closed := b\<rparr>) = not_stuck s" "not_stuck (emit cs s) = not_stuck s"
  by (simp_all add: addChange_def sws_inv_def not_stuck_def)

lemma sws_reach_inv:
  assumes "sws_reach itw itp rnd s" "iterates itw" "iterates itp"
  shows "sws_inv s \<and> (HasPeers (sws_spm s) \<longrightarrow> not_stuck s)"
  using assms(1)
proof induction
  case (sws_new sid)
  then show ?case
    by (simp add: sws_inv_def wants_ok_def counts_ok_def newSessionWantSender_def spm_New_def HasPeers_def)
next
  case (sws_run s bpm)
  then show ?case using onChange_inv [OF assms(2,3)] by (simp add: sws_Run_step_def enqueue_sel split: list.splits)
qed (simp_all add: sws_Add_def sws_Cancel_def sws_Update_def SignalAvailability_def report_pruned_def sws_Run_exit_def Let_def enqueue_sel
    split: list.splits)

section \<open>Exhausted wants\<close>

definition mark :: "Want set \<Rightarrow> (Want \<rightharpoonup> wantInfo) \<Rightarrow> (Want \<rightharpoonup> wantInfo)" where
  "mark W m = (\<lambda>w. if w \<in> W then map_option (\<lambda>wi. wi\<lparr>wi_exhausted := True\<rparr>) (m w) else m w)"

text \<open>The wants among \<open>W\<close> that are pending and not marked yet.\<close>

definition unmarked :: "(Want \<rightharpoonup> wantInfo) \<Rightarrow> Want set \<Rightarrow> Want set" where
  "unmarked m W = {w \<in> W. \<exists>wi. m w = Some wi \<and> \<not> wi_exhausted wi}"

lemma mark_mark: "mark V (mark W m) = mark (V \<union> W) m"
  by (auto simp: mark_def fun_eq_iff option.map_comp comp_def)

lemma mark_id: "unmarked m {w} = {} \<Longrightarrow> mark {w} m = m"
proof -
  have "wi_exhausted wi \<Longrightarrow> wi\<lparr>wi_exhausted := True\<rparr> = wi" for wi by (cases wi) simp
  then have "map_option (\<lambda>wi. wi\<lparr>wi_exhausted := True\<rparr>) (m w) = m w" if "unmarked m {w} = {}"
    using that by (cases "m w") (auto simp: unmarked_def)
  then show "unmarked m {w} = {} \<Longrightarrow> mark {w} m = m" by (auto simp: mark_def fun_eq_iff)
qed

lemma unmarked_mark: "unmarked (mark {w} m) W = unmarked m (W - {w})"
  by (auto simp: unmarked_def mark_def split: if_splits)

lemma exhausted_step_eq:
  "exhausted_step w (s, res) = (s\<lparr>sws_wants := mark {w} (sws_wants s)\<rparr>, if w \<in> unmarked (sws_wants s) {w} then res @ [w] else res)"
proof (cases "w \<in> unmarked (sws_wants s) {w}")
  case True
  then obtain wi where "sws_wants s w = Some wi" "\<not> wi_exhausted wi" by (auto simp: unmarked_def)
  moreover from this have "mark {w} (sws_wants s) = (sws_wants s)(w \<mapsto> wi\<lparr>wi_exhausted := True\<rparr>)" by (auto simp: mark_def)
  ultimately show ?thesis using True by (simp add: exhausted_step_def)
next
  case False
  then have "unmarked (sws_wants s) {w} = {}" by (auto simp: unmarked_def)
  then have "s\<lparr>sws_wants := mark {w} (sws_wants s)\<rparr> = s" by (simp add: mark_id)
  moreover have "exhausted_step w (s, res) = (s, res)" using False by (auto simp: exhausted_step_def unmarked_def split: option.splits)
  ultimately show ?thesis using False by simp
qed

lemma exhausted_fold:
  "fst (fold exhausted_step ws (s, res)) = s\<lparr>sws_wants := mark (set ws) (sws_wants s)\<rparr>"
  "set (snd (fold exhausted_step ws (s, res))) = set res \<union> unmarked (sws_wants s) (set ws)"
  "distinct res \<Longrightarrow> unmarked (sws_wants s) (set res) = {} \<Longrightarrow> distinct (snd (fold exhausted_step ws (s, res)))"
proof (induction ws arbitrary: s res)
  case Nil
  { case 1 show ?case by (simp add: mark_def) next
    case 2 show ?case by (simp add: unmarked_def) next
    case 3 then show ?case by simp }
next
  case (Cons w ws)
  have f: "fold exhausted_step (w # ws) (s, res) = fold exhausted_step ws
      (s\<lparr>sws_wants := mark {w} (sws_wants s)\<rparr>, if w \<in> unmarked (sws_wants s) {w} then res @ [w] else res)" for s res by (simp only: fold_simps exhausted_step_eq)
  { case 1 show ?case unfolding f Cons.IH(1) by (simp add: mark_mark) next
    case 2 show ?case unfolding f Cons.IH(2) by (auto simp: unmarked_mark) (auto simp: unmarked_def) next
    case (3 s res)
    let ?s = "s\<lparr>sws_wants := mark {w} (sws_wants s)\<rparr>" and ?r = "if w \<in> unmarked (sws_wants s) {w} then res @ [w] else res"
    have "distinct ?r" using 3 by (auto simp: unmarked_def)
    moreover have "unmarked (sws_wants ?s) (set ?r) = {}" using 3(2) by (auto simp: unmarked_mark) (auto simp: unmarked_def)
    ultimately show ?case unfolding f by (rule Cons.IH(3)) }
qed

lemma processExhaustedWants_eq:
  "\<exists>ks. distinct ks \<and> set ks = unmarked (sws_wants s) (set ws) \<and>
     processExhaustedWants ws s = s\<lparr>sws_wants := mark (set ws) (sws_wants s),
       sws_calls := sws_calls s @ (if ks = [] then [] else [Call_onPeersExhausted ks])\<rparr>"
proof -
  obtain s' ks where f: "fold exhausted_step ws (s, []) = (s', ks)" by force
  have u: "unmarked (sws_wants s) {} = {}" by (simp add: unmarked_def)
  have "distinct ks" "set ks = unmarked (sws_wants s) (set ws)" "s' = s\<lparr>sws_wants := mark (set ws) (sws_wants s)\<rparr>"
    using exhausted_fold(1,2) [of ws s "[]"] exhausted_fold(3) [of "[]" s ws] u by (simp_all add: f)
  then show ?thesis by (intro exI [of _ ks]) (simp add: processExhaustedWants_def newlyExhausted_def f emit_def)
qed

section \<open>Correctness of the sender\<close>

lemma dont_have_frees:
  assumes "sws_wants s w = Some wi" "w \<in> lookup_set (sws_swbt s) (wi_sentTo wi)"
  shows "\<exists>wi'. sws_wants (dont_have_want itp rnd bpm (wi_sentTo wi) w s) w = Some wi' \<and> wi_sentTo wi' = no_peer"
  using assms by (auto simp: dont_have_want_def updateWantBlockPresence_def haveSentWantBlockTo_def getWantSentTo_def setWantSentTo_def
      setPeerBlockPresence_sel Let_def)

text \<open>C4. No want is left waiting for nobody. In every state that the sender of a session can be in between two rounds of its run loop,
if the session has peers then for every pending want either a peer has been sent a want-block for it and the sender waits for its answer, so that a DONT_HAVE from
that peer frees the want for another peer, or every peer of the session is known not to have the block.\<close>

theorem wants_never_stuck:
  assumes "sws_reach itw itp rnd s" "iterates itw" "iterates itp" "HasPeers (sws_spm s)" "sws_wants s w = Some wi"
  shows "wi_sentTo wi \<noteq> no_peer \<and> w \<in> lookup_set (sws_swbt s) (wi_sentTo wi) \<and>
      (\<exists>wi'. sws_wants (dont_have_want itp rnd bpm (wi_sentTo wi) w s) w = Some wi' \<and> wi_sentTo wi' = no_peer) \<or>
    (\<forall>p \<in> spm_peers (sws_spm s). wi_blockPresence wi p = Some BPDontHave)"
proof -
  have inv: "sws_inv s" "not_stuck s" using sws_reach_inv [OF assms(1-3)] assms(4) by simp_all
  have ok: "wi_ok (lookup_set (sws_swbt s)) (sws_peers s) w wi" by (rule wants_okD(1) [OF sws_invD(3) [OF inv(1)] assms(5)])
  show ?thesis
  proof (cases "wi_sentTo wi = no_peer")
    case True
    then have "wi_bestPeer wi = no_peer" using inv(2) assms(5) by (auto simp: not_stuck_def)
    then have "\<forall>b \<in> ran (wi_blockPresence wi). b = BPDontHave" using ok by (simp add: wi_ok_def best_ok_def)
    moreover have "\<exists>b. wi_blockPresence wi p = Some b" if "p \<in> sws_peers s" for p using ok that by (auto simp: wi_ok_def)
    ultimately show ?thesis by (metis ranI)
  next
    case False
    then have "w \<in> lookup_set (sws_swbt s) (wi_sentTo wi)" using ok by (simp add: wi_ok_def)
    with dont_have_frees [OF assms(5) this] False show ?thesis by blast
  qed
qed

text \<open>C11. What is sent when a round of the run loop has taken in its changes (\<^term>\<open>before_send\<close>, which gives the state \<open>s\<close> and the newly
available peers \<open>na\<close>). A want-block for a want goes to its best peer alone, once, when no other peer has been asked and not answered;
every other peer of the session gets a want-have for it. A peer that gets anything also gets want-haves for all the other
pending wants for which it has not been sent a want-block, and a newly available peer gets a want-have for every pending want. Nothing else is sent, one request to each peer.\<close>

theorem one_want_block_each:
  assumes "sws_reach itw itp rnd s0" "iterates itw" "iterates itp" "HasPeers (sws_spm s)"
    "sws_changes s0 = ch # chs" "\<not> sws_closed s0" "before_send itw itp rnd bpm [ch] (s0\<lparr>sws_changes := chs\<rparr>) = (s, na)"
  shows "\<exists>ps. set ps = out_peers na s \<and> distinct ps \<and>
    sws_calls (sws_Run_step itw itp rnd bpm s0) = sws_calls s @ concat (map (\<lambda>p. [Call_SendWants p (itw (out_blocks s p)) (itw (out_haves na s p)),
        Call_onSend p (itw (out_blocks s p)) (itw (out_haves na s p))]) ps) \<and>
    (\<forall>w wi. sws_wants s w = Some wi \<longrightarrow> wi_sentTo wi = no_peer \<longrightarrow> wi_bestPeer wi \<noteq> no_peer \<longrightarrow>
      wi_bestPeer wi \<in> set ps \<and> w \<in> out_blocks s (wi_bestPeer wi) \<and> (\<forall>p. p \<noteq> wi_bestPeer wi \<longrightarrow> w \<notin> out_blocks s p) \<and>
      (\<forall>p \<in> spm_peers (sws_spm s) - {wi_bestPeer wi}. p \<in> set ps \<and> w \<in> out_haves na s p)) \<and>
    (\<forall>w wi p. sws_wants s w = Some wi \<longrightarrow> wi_sentTo wi \<noteq> no_peer \<longrightarrow> w \<notin> out_blocks s p)"
proof -
  have "sws_inv (s0\<lparr>sws_changes := chs\<rparr>)" using sws_reach_inv [OF assms(1-3)] by (simp add: enqueue_sel)
  from before_send_inv [OF assms(2,3) this, of rnd bpm "[ch]"] have inv: "sws_inv s" by (simp add: assms(7))
  have on: "sws_Run_step itw itp rnd bpm s0 = sendNextWants itw itp na s"
    using assms(4-6) by (simp add: sws_Run_step_def onChange_eq assms(7))
  obtain ps where ps: "set ps = out_peers na s" "distinct ps"
    "sws_calls (sws_Run_step itw itp rnd bpm s0) = sws_calls s @ concat (map (\<lambda>p. [Call_SendWants p (itw (out_blocks s p)) (itw (out_haves na s p)),
        Call_onSend p (itw (out_blocks s p)) (itw (out_haves na s p))]) ps)"
    using sendNextWants_eq [OF assms(2,3) inv, of na] unfolding on by auto
  have "wi_bestPeer wi \<in> set ps \<and> w \<in> out_blocks s (wi_bestPeer wi) \<and> (\<forall>p. p \<noteq> wi_bestPeer wi \<longrightarrow> w \<notin> out_blocks s p) \<and>
      (\<forall>p \<in> spm_peers (sws_spm s) - {wi_bestPeer wi}. p \<in> set ps \<and> w \<in> out_haves na s p)"
    if "sws_wants s w = Some wi" "wi_sentTo wi = no_peer" "wi_bestPeer wi \<noteq> no_peer" for w wi
  proof -
    have g: "goes_to s w (wi_bestPeer wi)" using that by (simp add: goes_to_def)
    then show ?thesis using goes_to_unique [OF g] unfolding ps(1) out_peers_def out_blocks_def out_haves_def by blast
  qed
  moreover have "w \<notin> out_blocks s p" if "sws_wants s w = Some wi" "wi_sentTo wi \<noteq> no_peer" for w wi p
    using that by (simp add: out_blocks_def goes_to_def)
  ultimately show ?thesis using ps by (intro exI [of _ ps]) simp
qed


section \<open>An example run\<close>

text \<open>A session asks for a block, and a peer announces that it has it.\<close>

definition ex_want :: Want where
  "ex_want = Want ''c'' ''key''"

definition ex_bpm :: BlockPresenceManager where
  "ex_bpm = \<lparr>presence = [''c'' \<mapsto> [''p'' \<mapsto> True]]\<rparr>"

definition ex_asked :: sessionWantSender where
  "ex_asked = sws_Update ''p'' [] [ex_want] [] (sws_Add [ex_want] (newSessionWantSender 1 (spm_New 1)))"

definition ex_sender :: sessionWantSender where
  "ex_sender = sws_Run_step sorted_list_of_set sorted_list_of_set (\<lambda>_. 0) ex_bpm ex_asked"

definition ex_wi :: "peer \<Rightarrow> wantInfo" where
  "ex_wi p = \<lparr>wi_blockPresence = [''p'' \<mapsto> BPHave], wi_sentTo = p, wi_bestPeer = ''p'', wi_exhausted = False\<rparr>"

definition ex_ready :: sessionWantSender where
  "ex_ready = \<lparr>sws_sessionID = 1, sws_changes = [], sws_wants = [ex_want \<mapsto> ex_wi no_peer], sws_wantDups = [want_Cid ex_want \<mapsto> [ex_want]],
     sws_peerConsecutiveDontHaves = Map.empty, sws_swbt = newSentWantBlocksTracker, sws_peerRspTrkr = newPeerResponseTracker,
     sws_spm = \<lparr>spm_id = 1, spm_peers = {''p''}, spm_peersDiscovered = True\<rparr>,
     sws_calls = [Call_RegisterSession ''p'', Call_tagger (spm_TagPeer ''p'' 5)], sws_prune = [], sws_draws = 2, sws_closed = False\<rparr>"

lemma ex_has: "PeerHasBlock ex_bpm ''p'' (want_Cid ex_want)"
  by (simp add: PeerHasBlock_def presence_of_def ex_bpm_def ex_want_def)

lemma ex_presence:
  "wi_blockPresence wi \<in> {Map.empty, [''p'' \<mapsto> BPHave]} \<Longrightarrow> wi_sentTo wi = no_peer \<Longrightarrow>
     setPeerBlockPresence sorted_list_of_set r prt ''p'' BPHave wi = ex_wi no_peer"
  by (cases wi) (auto simp: setPeerBlockPresence_def calculateBestPeer_def best_step_def ex_wi_def Let_def)

lemma ex_before:
  "before_send sorted_list_of_set sorted_list_of_set (\<lambda>_. 0) ex_bpm [no_change\<lparr>ch_add := [ex_want]\<rparr>]
     (ex_asked\<lparr>sws_changes := [no_change\<lparr>ch_update := \<lparr>upd_from = ''p'', upd_ks = [], upd_haves = [ex_want], upd_dontHaves = []\<rparr>\<rparr>]\<rparr>) = (ex_ready, [''p''])"
proof -
  have p1: "setPeerBlockPresence sorted_list_of_set r prt ''p'' BPHave newWantInfo = ex_wi no_peer" for r prt
    by (rule ex_presence) (simp_all add: newWantInfo_def)
  have p2: "setPeerBlockPresence sorted_list_of_set r prt ''p'' BPHave (ex_wi no_peer) = ex_wi no_peer" for r prt
    by (rule ex_presence) (simp_all add: ex_wi_def)
  show ?thesis
    by (simp add: before_send_def collectChanges_def ex_asked_def sws_Update_def sws_Add_def addChange_def newSessionWantSender_def
        apply_change_def trackWant_def spm_Peers_def spm_New_def no_change_def processAvailability_def available_peer_def AddPeer_def
        updateWantsPeerAvailability_def availability_step_def updateWantBlockPresence_def ex_has Let_def emit_def p1)
      (simp add: processUpdates_def process_blocks_def process_dontHaves_def process_haves_def have_step_def updateWantBlockPresence_def ex_has
        Let_def p2 prune_peers_def checkForExhaustedWants_def ex_ready_def)
qed

lemma ex_reach: "sws_reach sorted_list_of_set sorted_list_of_set (\<lambda>_. 0) ex_asked" "sws_reach sorted_list_of_set sorted_list_of_set (\<lambda>_. 0) ex_sender"
proof -
  show asked: "sws_reach sorted_list_of_set sorted_list_of_set (\<lambda>_. 0) ex_asked"
    unfolding ex_asked_def by (intro sws_reach.intros)
  show "sws_reach sorted_list_of_set sorted_list_of_set (\<lambda>_. 0) ex_sender"
    unfolding ex_sender_def by (rule sws_run [OF asked])
qed


lemma ex_changes:
  "sws_changes ex_asked = [no_change\<lparr>ch_add := [ex_want]\<rparr>, no_change\<lparr>ch_update := \<lparr>upd_from = ''p'', upd_ks = [], upd_haves = [ex_want], upd_dontHaves = []\<rparr>\<rparr>]"
  "\<not> sws_closed ex_asked"
  by (simp_all add: ex_asked_def sws_Update_def sws_Add_def addChange_def newSessionWantSender_def no_change_def)

lemma ex_HasPeers: "HasPeers (sws_spm ex_ready)"
  by (simp add: ex_ready_def HasPeers_def)

lemma ex_sender_eq: "ex_sender = sendNextWants sorted_list_of_set sorted_list_of_set [''p''] ex_ready"
  by (simp add: ex_sender_def sws_Run_step_def onChange_eq ex_before ex_changes ex_HasPeers)

lemma ex_sent: "sws_wants ex_sender = [ex_want \<mapsto> ex_wi ''p'']" "sws_spm ex_sender = sws_spm ex_ready" "sws_swbt ex_sender = [''p'' \<mapsto> {ex_want}]"
proof -
  have f: "fold (next_want sorted_list_of_set [''p'']) [ex_want] (ex_ready, Map.empty) =
      (ex_ready\<lparr>sws_wants := [ex_want \<mapsto> ex_wi ''p'']\<rparr>, [''p'' \<mapsto> ({ex_want}, {ex_want})])"
    by (simp add: ex_ready_def next_want_def ex_wi_def setWantSentTo_def Let_def add_wantBlock_def add_wantHave_def forPeer_def spm_Peers_def)
  have d: "sorted_list_of_set (dom (sws_wants ex_ready)) = [ex_want]" by (simp add: ex_ready_def)
  have e: "ex_sender = send_to sorted_list_of_set [''p'' \<mapsto> ({ex_want}, {ex_want})] ''p'' (ex_ready\<lparr>sws_wants := [ex_want \<mapsto> ex_wi ''p'']\<rparr>)"
    unfolding ex_sender_eq sendNextWants_def d f by (simp add: sws_sendWants_def)
  show "sws_wants ex_sender = [ex_want \<mapsto> ex_wi ''p'']" "sws_spm ex_sender = sws_spm ex_ready" "sws_swbt ex_sender = [''p'' \<mapsto> {ex_want}]"
    by (simp_all add: e send_to_def forPeer_def Let_def ex_ready_def getPiggybackWantHaves_def haveSentWantBlockTo_def newSentWantBlocksTracker_def
        addSentWantBlocksTo_def)
qed

lemma distinct_singleton_list: "set xs = {y} \<Longrightarrow> distinct xs \<Longrightarrow> xs = [y]"
  by (cases xs; cases "tl xs") auto

theorem wants_never_stuck_witness:
  "sws_wants ex_sender ex_want = Some (ex_wi ''p'') \<and> wi_sentTo (ex_wi ''p'') = ''p'' \<and> ex_want \<in> lookup_set (sws_swbt ex_sender) ''p''"
proof -
  have "HasPeers (sws_spm ex_sender)" by (simp add: ex_sent ex_ready_def HasPeers_def)
  from wants_never_stuck [OF ex_reach(2) iterates_sorted_list_of_set iterates_sorted_list_of_set this, of ex_want "ex_wi ''p''"] show ?thesis
    by (simp add: ex_sent ex_wi_def ex_ready_def)
qed

theorem one_want_block_each_witness:
  "sws_calls ex_sender = sws_calls ex_ready @ [Call_SendWants ''p'' [ex_want] [ex_want], Call_onSend ''p'' [ex_want] [ex_want]]"
proof -
  have g: "goes_to ex_ready w p \<longleftrightarrow> w = ex_want \<and> p = ''p''" for w p by (auto simp: goes_to_def ex_ready_def ex_wi_def split: if_splits)
  have w: "dom (sws_wants ex_ready) = {ex_want}" "spm_peers (sws_spm ex_ready) = {''p''}" by (simp_all add: ex_ready_def)
  have o: "out_blocks ex_ready ''p'' = {ex_want}" "out_haves [''p''] ex_ready ''p'' = {ex_want}" "out_peers [''p''] ex_ready = {''p''}"
    by (auto simp: out_blocks_def out_haves_def out_peers_def g w)
  obtain ps where "set ps = {''p''}" "distinct ps" "sws_calls ex_sender = sws_calls ex_ready @
      concat (map (\<lambda>p. [Call_SendWants p (sorted_list_of_set (out_blocks ex_ready p)) (sorted_list_of_set (out_haves [''p''] ex_ready p)),
        Call_onSend p (sorted_list_of_set (out_blocks ex_ready p)) (sorted_list_of_set (out_haves [''p''] ex_ready p))]) ps)"
    using one_want_block_each [OF ex_reach(1) iterates_sorted_list_of_set iterates_sorted_list_of_set ex_HasPeers ex_changes ex_before]
    unfolding ex_sender_def [symmetric] o(3) by blast
  moreover from this(1,2) have "ps = [''p'']" by (rule distinct_singleton_list)
  ultimately show ?thesis by (simp add: o)
qed


end
