(* ===== verification/SessionSpec.thy ===== *)
theory SessionSpec
  imports SessionManager SenderSpec
begin

text \<open>
  What holds of the sessions of a node: every session hears of the blocks that it wants, interests belong to running sessions, the timers
  that keep a session going, and the fate of cancelled wants.
\<close>

section \<open>What a round of the sender does\<close>

text \<open>The sender works on the wants in \<open>W\<close> and cancels nothing.\<close>

definition good_call :: "Want set \<Rightarrow> sws_call \<Rightarrow> bool" where
  "good_call W c =
     (case c of Call_onSend p wb wh \<Rightarrow> set wb \<union> set wh \<subseteq> W | Call_CancelSessionWants ws \<Rightarrow> False | _ \<Rightarrow> True)"

definition calm :: "Want set \<Rightarrow> change list \<Rightarrow> sessionWantSender \<Rightarrow> bool" where
  "calm W chs s \<longleftrightarrow> dom (sws_wants s) \<subseteq> W \<and> (\<forall>c \<in> set (sws_calls s). good_call W c) \<and> sws_changes s = chs"

definition calm_change :: "Want set \<Rightarrow> change \<Rightarrow> bool" where
  "calm_change W ch \<longleftrightarrow> set (ch_add ch) \<subseteq> W \<and> ch_cancel ch = []"

lemma good_call_simps [simp]:
  "good_call W (Call_RegisterSession p)" "good_call W Call_UnregisterSession" "good_call W (Call_SendWants p wb wh)"
  "good_call W (Call_onPeersExhausted ks)" "good_call W (Call_tagger t)" "\<not> good_call W (Call_CancelSessionWants ws)"
  "good_call W (Call_onSend p wb wh) \<longleftrightarrow> set wb \<union> set wh \<subseteq> W"
  by (simp_all add: good_call_def)

lemma calm_fold: "calm W chs s \<Longrightarrow> (\<And>x s. x \<in> set xs \<Longrightarrow> calm W chs s \<Longrightarrow> calm W chs (f x s)) \<Longrightarrow> calm W chs (fold f xs s)"
  by (induction xs arbitrary: s) simp_all

lemma calm_fold_fst:
  "calm W chs (fst st) \<Longrightarrow> (\<And>x st. x \<in> set xs \<Longrightarrow> calm W chs (fst st) \<Longrightarrow> calm W chs (fst (f x st))) \<Longrightarrow> calm W chs (fst (fold f xs st))"
  by (induction xs arbitrary: st) simp_all

lemma calm_emit: "calm W chs s \<Longrightarrow> list_all (good_call W) cs \<Longrightarrow> calm W chs (emit cs s)"
  by (auto simp: calm_def emit_def list_all_iff)

lemma calm_sel [simp]:
  "calm W chs (s\<lparr>sws_spm := spm\<rparr>) = calm W chs s" "calm W chs (s\<lparr>sws_peerConsecutiveDontHaves := m\<rparr>) = calm W chs s"
  "calm W chs (s\<lparr>sws_peerRspTrkr := t\<rparr>) = calm W chs s" "calm W chs (s\<lparr>sws_prune := ps\<rparr>) = calm W chs s"
  by (simp_all add: calm_def)

lemma good_tagger [simp]: "list_all (good_call W) (map Call_tagger cs)"
  by (induction cs) simp_all

lemma calm_trackWant: "calm W chs s \<Longrightarrow> w \<in> W \<Longrightarrow> calm W chs (trackWant itp rnd bpm w s)"
  by (auto simp: calm_def trackWant_sel)

lemma calm_uWBP: "calm W chs s \<Longrightarrow> calm W chs (updateWantBlockPresence itp rnd bpm w p s)"
  by (auto simp: calm_def updateWantBlockPresence_def Let_def split: option.splits if_splits)

lemma calm_availability_step: "calm W chs s \<Longrightarrow> calm W chs (availability_step itp rnd bpm p b w s)"
  using calm_uWBP by (auto simp: availability_step_def calm_def split: option.splits if_splits)

lemma calm_available_peer:
  assumes "calm W chs (fst st)"
  shows "calm W chs (fst (available_peer itw itp rnd bpm av p st))"
proof -
  obtain s na nu where st: "st = (s, na, nu)" by (metis prod_cases3)
  obtain ch spm cs where r: "(if av p = Some True then AddPeer p (sws_spm s) else RemovePeer p (sws_spm s)) = (ch, spm, cs)" by (metis prod_cases3)
  have e: "calm W chs (emit (map Call_tagger cs) (s\<lparr>sws_spm := spm\<rparr>))" using assms by (simp add: st calm_emit)
  have "calm W chs (updateWantsPeerAvailability itw itp rnd bpm p b s)" if "calm W chs s" for s b
    unfolding updateWantsPeerAvailability_def by (rule calm_fold [OF that]) (rule calm_availability_step)
  from this [OF e] show ?thesis using e by (simp add: available_peer_def st r Let_def)
qed

lemma calm_block_step: "calm W chs (fst st) \<Longrightarrow> calm W chs (fst (block_step p c st))"
  by (cases st) (auto simp: block_step_def removeWant_def Let_def calm_def emit_def ProtectConnection_def split: option.splits if_splits)

lemma calm_dont_have_step: "calm W chs (fst st) \<Longrightarrow> calm W chs (fst (dont_have_step itp rnd bpm blk p w st))"
proof -
  have s: "calm W chs s \<Longrightarrow> calm W chs (setWantSentTo w q s)" for q s by (auto simp: calm_def setWantSentTo_def split: option.splits if_splits)
  then have "calm W chs s \<Longrightarrow> calm W chs (dont_have_want itp rnd bpm p w s)" for s
    using calm_uWBP [of W chs s itp rnd bpm w p] s by (simp add: dont_have_want_def Let_def)
  then show "calm W chs (fst st) \<Longrightarrow> calm W chs (fst (dont_have_step itp rnd bpm blk p w st))"
    by (cases st) (simp add: dont_have_step_def dont_have_count_def Let_def split: prod.splits)
qed

lemma calm_have_step: "calm W chs (fst st) \<Longrightarrow> calm W chs (fst (have_step itp rnd bpm blk p w st))"
  by (cases st) (simp add: have_step_def Let_def calm_uWBP)

lemma calm_processUpdates:
  assumes "calm W chs s"
  shows "calm W chs (fst (processUpdates itw itp rnd bpm us s))"
proof -
  obtain s1 blk where 1: "process_blocks us s = (s1, blk)" by force
  obtain s2 pr dh where 2: "process_dontHaves itp rnd bpm blk us s1 = (s2, pr, dh)" by (metis prod_cases3)
  obtain s3 pr' where 3: "process_haves itp rnd bpm blk us (s2, pr) = (s3, pr')" by force
  have "calm W chs (fst (process_blocks us s))"
    unfolding process_blocks_def using assms by (intro calm_fold_fst) (auto intro: calm_block_step)
  then have "calm W chs (fst (process_dontHaves itp rnd bpm blk us s1))"
    unfolding process_dontHaves_def by (intro calm_fold_fst) (auto simp: 1 intro: calm_dont_have_step)
  then have "calm W chs (fst (process_haves itp rnd bpm blk us (s2, pr)))"
    unfolding process_haves_def by (intro calm_fold_fst) (auto simp: 2 intro: calm_have_step)
  then show ?thesis by (simp add: processUpdates_def 1 2 3 prune_peers_def Let_def)
qed

lemma calm_checkForExhaustedWants:
  assumes "calm W chs s"
  shows "calm W chs (checkForExhaustedWants itw itp bpm dh nu s)"
proof -
  have x: "calm W chs (fst (newlyExhausted ws s))" for ws
    unfolding newlyExhausted_def
    by (rule calm_fold_fst) (use assms in \<open>auto simp: exhausted_step_def calm_def split: option.splits if_splits prod.splits\<close>)
  have "calm W chs (processExhaustedWants ws s)" for ws
    using x [of ws] by (auto simp: processExhaustedWants_def split: prod.splits intro!: calm_emit)
  then show ?thesis using assms by (simp add: checkForExhaustedWants_def Let_def)
qed

lemma calm_apply_change:
  assumes "calm W chs s" "calm_change W ch" "apply_change itp rnd bpm ch (s, av, [], us) = (s', av', can, us')"
  shows "calm W chs s' \<and> can = []"
proof -
  let ?s1 = "fold (trackWant itp rnd bpm) (ch_add ch) s"
  have "calm W chs ?s1" using assms(1,2) by (intro calm_fold) (auto simp: calm_change_def intro: calm_trackWant)
  then have "calm W chs (emit [Call_RegisterSession p] ?s1)" "calm W chs ?s1" for p by (simp_all add: calm_emit)
  then show ?thesis using assms(2,3) by (auto simp: apply_change_def calm_change_def Let_def split: if_splits)
qed

lemma calm_apply_changes:
  assumes "calm W chs s" "list_all (calm_change W) cs" "fold (apply_change itp rnd bpm) cs (s, av, [], us) = (s', av', can, us')"
  shows "calm W chs s' \<and> can = []"
  using assms
proof (induction cs arbitrary: s av us)
  case (Cons c cs)
  obtain s1 av1 can1 us1 where 1: "apply_change itp rnd bpm c (s, av, [], us) = (s1, av1, can1, us1)" by (metis prod_cases4)
  have "calm W chs s1 \<and> can1 = []" by (rule calm_apply_change [OF Cons.prems(1) _ 1]) (use Cons.prems(2) in simp)
  with Cons.IH [of s1 av1 us1] Cons.prems(2,3) show ?case by (simp add: 1)
qed simp

lemma before_send_calm:
  assumes "calm W cs s" "list_all (calm_change W) (chs @ cs)"
  shows "calm W (drop (changesBufferSize - length chs) cs) (fst (before_send itw itp rnd bpm chs s))"
proof -
  let ?chs = "drop (changesBufferSize - length chs) cs"
  obtain chs' s1 where 1: "collectChanges chs s = (chs', s1)" by force
  obtain s2 av can us where 2: "fold (apply_change itp rnd bpm) chs' (s1, Map.empty, [], []) = (s2, av, can, us)" by (metis prod_cases4)
  obtain s3 na nu where 3: "processAvailability itw itp rnd bpm av s2 = (s3, na, nu)" by (metis prod_cases3)
  obtain s4 dh where 4: "processUpdates itw itp rnd bpm us s3 = (s4, dh)" by force
  have c1: "calm W ?chs s1" "list_all (calm_change W) chs'"
    using 1 assms by (auto simp: collectChanges_def calm_def Let_def list_all_iff) (metis UnI2 in_set_takeD)
  note c2 = calm_apply_changes [OF c1 2]
  have "calm W ?chs (fst (processAvailability itw itp rnd bpm av s2))"
    unfolding processAvailability_def using c2 by (intro calm_fold_fst) (auto intro: calm_available_peer)
  then have "calm W ?chs s4" using calm_processUpdates [of W ?chs s3 itw itp rnd bpm us] by (simp add: 3 4)
  then show ?thesis using c2 by (simp add: before_send_def 1 2 3 4 Let_def calm_checkForExhaustedWants)
qed

lemma sends_calm:
  assumes "iterates itw" "iterates itp" "sws_inv s" "calm W chs s"
  shows "calm W chs (sendNextWants itw itp na s)"
proof -
  obtain ps sw where e: "sendNextWants itw itp na s = s\<lparr>sws_wants := (\<lambda>w. map_option next_wi (sws_wants s w)), sws_swbt := sw,
      sws_calls := sws_calls s @ concat (map (\<lambda>p. [Call_SendWants p (itw (out_blocks s p)) (itw (out_haves na s p)),
        Call_onSend p (itw (out_blocks s p)) (itw (out_haves na s p))]) ps)\<rparr>"
    using sendNextWants_eq [OF assms(1-3), of na] by blast
  have sub: "out_blocks s p \<subseteq> dom (sws_wants s)" "out_haves na s p \<subseteq> dom (sws_wants s)" for p
    by (auto simp: out_blocks_def out_haves_def dest: goes_to_dom split: if_splits)
  note fin = finite_subset [OF sub(1) sws_invD(5) [OF assms(3)]] finite_subset [OF sub(2) sws_invD(5) [OF assms(3)]]
  have W: "dom (sws_wants s) \<subseteq> W" using assms(4) by (simp add: calm_def)
  have "set (itw (out_blocks s p)) \<union> set (itw (out_haves na s p)) \<subseteq> W" for p using assms(1) fin W sub [of p] by auto
  moreover have "dom (\<lambda>w. map_option next_wi (sws_wants s w)) = dom (sws_wants s)" by (auto simp: dom_def)
  ultimately show ?thesis using assms(4) by (auto simp: e calm_def)
qed

lemma Run_step_calm:
  assumes "iterates itw" "iterates itp" "sws_inv s" "calm W (sws_changes s) s" "list_all (calm_change W) (sws_changes s)"
  shows "\<exists>chs. calm W chs (sws_Run_step itw itp rnd bpm s) \<and> list_all (calm_change W) chs"
proof (cases "sws_changes s = [] \<or> sws_closed s")
  case True
  then have "sws_Run_step itw itp rnd bpm s = s" by (auto simp: sws_Run_step_def split: list.splits)
  then show ?thesis using assms(4,5) by auto
next
  case False
  then obtain ch chs where c: "sws_changes s = ch # chs" by (auto simp: neq_Nil_conv)
  let ?s = "s\<lparr>sws_changes := chs\<rparr>" and ?chs = "drop (changesBufferSize - length [ch]) chs"
  obtain s1 na where b: "before_send itw itp rnd bpm [ch] ?s = (s1, na)" by force
  have r: "sws_Run_step itw itp rnd bpm s = (if HasPeers (sws_spm s1) then sendNextWants itw itp na s1 else s1)"
    using False by (simp add: sws_Run_step_def c onChange_eq b)
  have inv: "sws_inv ?s" using assms(3) by (simp add: enqueue_sel)
  have "calm W chs ?s" using assms(4) by (simp add: calm_def)
  from before_send_calm [OF this, of "[ch]" itw itp rnd bpm] have s1: "calm W ?chs s1" using assms(5) by (simp add: b c)
  have "sws_inv s1" using before_send_inv [OF assms(1,2) inv, of rnd bpm "[ch]"] by (simp add: b)
  from sends_calm [OF assms(1,2) this s1, of na] have "calm W ?chs (sws_Run_step itw itp rnd bpm s)" using s1 by (simp add: r)
  moreover have "list_all (calm_change W) ?chs" using assms(5) by (auto simp: c list_all_iff dest: in_set_dropD)
  ultimately show ?thesis by blast
qed

section \<open>The invariant of a session\<close>

text \<open>\<open>W\<close> are wants in which the session has an interest.\<close>

definition op_ok :: "Want set \<Rightarrow> sess_op \<Rightarrow> bool" where
  "op_ok W oper \<longleftrightarrow> (op_op oper = opWantsSent \<longrightarrow> set (op_wants oper) \<subseteq> W) \<and> (op_op oper = opCancel \<longrightarrow> op_wants oper = [])"

definition sws_ok :: "(Want set \<Rightarrow> Want list) \<Rightarrow> (peer set \<Rightarrow> peer list) \<Rightarrow> (nat \<Rightarrow> rat) \<Rightarrow> Want set \<Rightarrow> sessionWantSender \<Rightarrow> bool" where
  "sws_ok itw itp rnd W sws \<longleftrightarrow>
     sws_reach itw itp rnd sws \<and> sws_calls sws = [] \<and> dom (sws_wants sws) \<subseteq> W \<and> list_all (calm_change W) (sws_changes sws)"

definition sw_ok :: "Want set \<Rightarrow> sessionWants \<Rightarrow> bool" where
  "sw_ok W sw \<longleftrightarrow> sw_wf sw \<and> dom (liveWants sw) \<subseteq> W \<and> set (elems (toFetch sw)) \<subseteq> W"

definition ticking :: "gotimer \<Rightarrow> bool" where
  "ticking t \<longleftrightarrow> gt_due t \<noteq> None \<or> gt_tick t"

definition sess_ok ::
  "(Want set \<Rightarrow> Want list) \<Rightarrow> (peer set \<Rightarrow> peer list) \<Rightarrow> (nat \<Rightarrow> rat) \<Rightarrow> Want set \<Rightarrow> session_id \<Rightarrow> Session \<Rightarrow> bool" where
  "sess_ok itw itp rnd W i s \<longleftrightarrow>
     s_id s = i \<and> sws_ok itw itp rnd W (s_sws s) \<and> sw_ok W (s_sw s) \<and> list_all (op_ok W) (s_incoming s) \<and>
     (s_phase s = Running \<longrightarrow> ticking (s_idleTick s))"

lemma calm_change_mono: "W \<subseteq> V \<Longrightarrow> calm_change W ch \<Longrightarrow> calm_change V ch"
  by (auto simp: calm_change_def)

lemma sess_ok_mono: "W \<subseteq> V \<Longrightarrow> sess_ok itw itp rnd W i s \<Longrightarrow> sess_ok itw itp rnd V i s"
  unfolding sess_ok_def sws_ok_def sw_ok_def op_ok_def list_all_iff by (blast intro: calm_change_mono)

subsection \<open>The sender\<close>

lemma sws_ok_addChange:
  "sws_ok itw itp rnd W sws \<Longrightarrow> calm_change W c \<Longrightarrow> sws_reach itw itp rnd (addChange c sws) \<Longrightarrow> sws_ok itw itp rnd W (addChange c sws)"
  by (simp add: sws_ok_def addChange_def)

lemma sws_ok_Update: "sws_ok itw itp rnd W sws \<Longrightarrow> sws_ok itw itp rnd W (sws_Update p ks hs ds sws)"
  using sws_updated [of itw itp rnd sws p ks hs ds]
  by (auto simp: sws_Update_def Let_def sws_ok_def addChange_def calm_change_def no_change_def split: if_splits)

lemma sws_ok_Add: "sws_ok itw itp rnd W sws \<Longrightarrow> set ws \<subseteq> W \<Longrightarrow> sws_ok itw itp rnd W (sws_Add ws sws)"
  using sws_add [of itw itp rnd sws ws]
  by (auto simp: sws_Add_def sws_ok_def addChange_def calm_change_def no_change_def split: if_splits)

lemma sws_ok_signal: "sws_ok itw itp rnd W sws \<Longrightarrow> sws_ok itw itp rnd W (SignalAvailability p b sws)"
  using sws_signal [of itw itp rnd sws p b]
  by (auto simp: SignalAvailability_def sws_ok_def addChange_def calm_change_def no_change_def)

lemma sws_ok_pruned: "sws_ok itw itp rnd W sws \<Longrightarrow> sws_ok itw itp rnd W (report_pruned sws)"
  using sws_pruned [of itw itp rnd sws]
  by (auto simp: report_pruned_def SignalAvailability_def sws_ok_def addChange_def calm_change_def no_change_def split: list.splits)

lemma sws_ok_step:
  assumes "iterates itw" "iterates itp" "sws_ok itw itp rnd W sws" "sws' = sws_Run_step itw itp rnd bpm sws \<or> sws' = sws_Run_exit sws"
  shows "sws_ok itw itp rnd W (sws'\<lparr>sws_calls := []\<rparr>) \<and> list_all (good_call W) (sws_calls sws')"
proof -
  have reach: "sws_reach itw itp rnd sws" using assms(3) by (simp add: sws_ok_def)
  have inv: "sws_inv sws" using sws_reach_inv [OF reach assms(1,2)] by simp
  have c: "calm W (sws_changes sws) sws" "list_all (calm_change W) (sws_changes sws)" using assms(3) by (simp_all add: sws_ok_def calm_def)
  have "calm W (sws_changes sws) (sws_Run_exit sws)"
    using c(1) by (cases "sws_closed sws") (simp_all add: sws_Run_exit_def calm_def emit_def)
  then have "\<exists>chs. calm W chs sws' \<and> list_all (calm_change W) chs"
    using assms(4) Run_step_calm [OF assms(1,2) inv c, of rnd bpm] c(2) by blast
  moreover have "sws_reach itw itp rnd (sws'\<lparr>sws_calls := []\<rparr>)"
    using assms(4) by (auto intro!: sws_made sws_run [OF reach] sws_exit [OF reach])
  ultimately show ?thesis by (auto simp: sws_ok_def calm_def list_all_iff)
qed

subsection \<open>The wants\<close>

lemma sw_ok_requested:
  assumes "sw_ok W sw" "set ws \<subseteq> W"
  shows "sw_ok W (sw_BlocksRequested ws sw)"
proof -
  have "set (elems (fold cidQueue_Push ws cq)) \<subseteq> set (elems cq) \<union> set ws" for cq
    by (induction ws arbitrary: cq) (fastforce simp: cidQueue_Push_def split: if_splits)+
  from this [of "toFetch sw"] show ?thesis
    using assms sw_BlocksRequested_wf [of sw ws] by (auto simp: sw_ok_def sw_BlocksRequested_def)
qed

lemma Pop_loop_elems: "set (elems (snd (Pop_loop es S))) \<subseteq> set es"
  by (induction es) auto

lemma GetNextWants_elems: "set (elems (toFetch (fst (GetNextWants_loop now n sw)))) \<subseteq> set (elems (toFetch sw))"
proof (induction now n sw rule: GetNextWants_loop.induct)
  case (2 now n sw)
  obtain c cq where p: "cidQueue_Pop (toFetch sw) = (c, cq)" by force
  have "set (elems cq) \<subseteq> set (elems (toFetch sw))" using Pop_loop_elems [of "elems (toFetch sw)" "eset (toFetch sw)"] p by (simp add: cidQueue_Pop_def)
  moreover obtain sw2 live where r: "GetNextWants_loop now n (sw\<lparr>toFetch := cq, liveWantsOrder := liveWantsOrder sw @ [c],
      liveWants := (liveWants sw)(c \<mapsto> now)\<rparr>) = (sw2, live)" by force
  moreover have "set (elems (toFetch sw2)) \<subseteq> set (elems cq)" if "cidQueue_Len (toFetch sw) > 0"
    using 2 [OF that p [symmetric] refl] by (simp add: r)
  ultimately show ?case by (simp add: p r Let_def) (rule impI, erule subset_trans [rotated], simp)
qed simp

lemma sw_ok_next:
  assumes "sw_ok W sw" "GetNextWants now sw = (sw', ws)"
  shows "sw_ok W sw' \<and> set ws \<subseteq> W"
proof -
  let ?n = "nat (broadcastLimit sw - int (card (dom (liveWants sw))))"
  have g: "GetNextWants_loop now ?n sw = (sw', ws)" using assms(2) by (simp add: GetNextWants_def)
  have wf: "sw_wf sw" using assms(1) by (simp add: sw_ok_def)
  show ?thesis using GetNextWants_loop_spec [OF wf g] GetNextWants_elems [of now ?n sw] assms(1) by (auto simp: g sw_ok_def)
qed

lemma sw_ok_sent:
  assumes "sw_ok W sw" "set ws \<subseteq> W"
  shows "sw_ok W (WantsSent now ws sw)"
  unfolding WantsSent_def
proof (rule fold_invariant [where P = "sw_ok W"])
  show "sw_ok W (want_sent now w sw)" if "w \<in> set ws" "sw_ok W sw" for w sw
    using that assms(2) want_sent_wf [of sw now w] by (auto simp: sw_ok_def want_sent_def cidQueue_Remove_def)
qed (use assms in simp)

lemma sw_ok_received:
  assumes "sw_ok W sw" "sw_BlocksReceived now ws sw = (sw', wanted, lat)"
  shows "sw_ok W sw'"
proof -
  have "sw_ok W (fst (fold (block_received now) ws (sw, [], 0)))"
  proof (rule fold_invariant [where P = "\<lambda>st. sw_ok W (fst st)"])
    show "sw_ok W (fst (block_received now c st))" if "sw_ok W (fst st)" for c st
      using that block_received_wf [of st now c] by (auto simp: sw_ok_def block_received_def cidQueue_Remove_def split: prod.splits if_splits)
  qed (use assms in simp_all)
  then show ?thesis using assms sw_BlocksReceived_wf [of sw now ws]
    by (auto simp: sw_BlocksReceived_def sw_ok_def split: prod.splits if_splits)
qed

lemma sw_ok_prepared:
  assumes "sw_ok W sw" "PrepareBroadcast now sw = (sw', ws)"
  shows "sw_ok W sw' \<and> set ws \<subseteq> W"
proof -
  obtain m where r: "PrepareBroadcast_loop now (broadcastLimit sw) 0 (liveWantsOrder sw) (liveWants sw) = (m, ws)" and sw': "sw' = sw\<lparr>liveWants := m\<rparr>"
    using assms(2) by (auto simp: PrepareBroadcast_def split: prod.splits)
  note spec = PrepareBroadcast_loop_spec [OF r]
  have "set ws \<subseteq> dom (liveWants sw)" using spec by (auto split: if_splits dest: in_set_takeD)
  moreover have "dom m \<subseteq> dom (liveWants sw)"
  proof
    show "w \<in> dom (liveWants sw)" if "w \<in> dom m" for w
      using that calculation spec [THEN conjunct2, rule_format, of w] by (cases "w \<in> set ws") (simp_all add: domIff subset_iff)
  qed
  ultimately show ?thesis using assms(1) PrepareBroadcast_wf [of sw now] assms(2) by (auto simp: sw_ok_def sw')
qed

lemma sw_ok_cancelled: "sw_ok W sw \<Longrightarrow> sw_ok W (CancelPending ks sw)"
proof -
  have "elems (fold cidQueue_Remove ks cq) = elems cq" for cq by (induction ks arbitrary: cq) (simp_all add: cidQueue_Remove_def)
  then show "sw_ok W sw \<Longrightarrow> sw_ok W (CancelPending ks sw)" using CancelPending_wf [of sw ks] by (simp add: sw_ok_def CancelPending_def)
qed

subsection \<open>The session\<close>

lemma ticking_simps [simp]:
  "ticking (NewTimer now d)" "ticking (timer_Reset now d t)" "ticking t \<Longrightarrow> ticking (timer_expire now t)"
  by (auto simp: ticking_def NewTimer_def timer_Reset_def timer_expire_def split: option.splits)

lemma sess_ok_new: "sess_ok itw itp rnd W i (Session_New now wait i d)"
  by (simp add: sess_ok_def Session_New_def sws_ok_def sw_ok_def sws_new) (simp add: newSessionWantSender_def newSessionWants_def newCidQueue_def)

lemma sess_ok_enqueue: "sess_ok itw itp rnd W i s \<Longrightarrow> op_ok W oper \<Longrightarrow> sess_ok itw itp rnd W i (enqueue oper s)"
  by (simp add: sess_ok_def enqueue_def)

lemma sess_ok_sws: "sess_ok itw itp rnd W i s \<Longrightarrow> sws_ok itw itp rnd W sws \<Longrightarrow> sess_ok itw itp rnd W i (s\<lparr>s_sws := sws\<rparr>)"
  by (simp add: sess_ok_def)

lemma sess_okD: "sess_ok itw itp rnd W i s \<Longrightarrow> sws_ok itw itp rnd W (s_sws s)" "sess_ok itw itp rnd W i s \<Longrightarrow> sw_ok W (s_sw s)"
  "sess_ok itw itp rnd W i s \<Longrightarrow> s_id s = i"
  by (simp_all add: sess_ok_def)

lemma sess_ok_event:
  assumes "session_event s s'" "sess_ok itw itp rnd W i s"
  shows "sess_ok itw itp rnd W i s' \<and> s_phase s' = s_phase s"
  using assms
proof cases
  case (ev_want ws)
  then show ?thesis using assms(2) by (simp add: GetBlocks_want_def sess_ok_enqueue op_ok_def) (simp add: enqueue_def)
next
  case (ev_cancel ks)
  then show ?thesis using assms(2) by (simp add: GetBlocks_cancel_def sess_ok_enqueue op_ok_def) (simp add: enqueue_def)
next
  case (ev_provider c p)
  then show ?thesis using assms(2) by (simp add: provider_found_def sess_ok_sws sws_ok_Update sess_okD)
next
  case (ev_signal p b)
  then show ?thesis using assms(2) by (simp add: sess_ok_sws sws_ok_signal sess_okD)
next
  case ev_pruned
  then show ?thesis using assms(2) by (simp add: sess_ok_sws sws_ok_pruned sess_okD)
qed (use assms(2) in \<open>auto simp: sess_ok_def Session_Shutdown_def SetBaseTickDelay_def\<close>)

lemma sess_ok_receive: "sess_ok itw itp rnd W i s \<Longrightarrow> sess_ok itw itp rnd W i (Session_ReceiveFrom sim p ks hs ds s)"
  by (auto simp: Session_ReceiveFrom_def Let_def op_ok_def intro!: sess_ok_enqueue sess_ok_sws sws_ok_Update dest: sess_okD)

lemma sess_ok_resetIdleTick: "sess_ok itw itp rnd W i s \<Longrightarrow> sess_ok itw itp rnd W i (resetIdleTick now s)"
  by (simp add: sess_ok_def resetIdleTick_def Let_def)

text \<open>A session whose idle timer need not run, because it is about to be reset.\<close>

lemma sess_ok_rearm:
  "sess_ok itw itp rnd W i s \<Longrightarrow> s_id s' = s_id s \<Longrightarrow> s_sws s' = s_sws s \<Longrightarrow> sw_ok W (s_sw s') \<Longrightarrow> s_incoming s' = s_incoming s \<Longrightarrow>
     sess_ok itw itp rnd W i (resetIdleTick now s')"
  by (simp add: sess_ok_def resetIdleTick_def Let_def)

lemma sess_ok_broadcast:
  assumes "sess_ok itw itp rnd W i s" "s_sws s' = s_sws s" "s_sw s' = s_sw s" "s_incoming s' = s_incoming s" "s_id s' = s_id s"
  shows "sess_ok itw itp rnd W i (fst (broadcast now ws s')) \<and> s_phase (fst (broadcast now ws s')) = s_phase s' \<and> Sess_RemoveSession \<notin> set (snd (broadcast now ws s'))"
proof -
  obtain s1 ws1 where 1: "(if ws = [] then case PrepareBroadcast now (s_sw s') of (sw, ws) \<Rightarrow> (s'\<lparr>s_sw := sw\<rparr>, ws) else (s', ws)) = (s1, ws1)" by force
  have sw: "sw_ok W (s_sw s1)" and eq: "s_sws s1 = s_sws s" "s_incoming s1 = s_incoming s" "s_id s1 = s_id s" "s_phase s1 = s_phase s'"
    using 1 sw_ok_prepared [OF sess_okD(2) [OF assms(1)], of now] assms(2-) sess_okD(2) [OF assms(1)] by (auto split: if_splits prod.splits)
  let ?s2 = "if ws1 \<noteq> [] \<and> s_consecutiveTicks s1 = 0 then findMorePeers (hd ws1) s1 else s1"
  have "sess_ok itw itp rnd W i (resetIdleTick now ?s2)" using sw eq by (intro sess_ok_rearm [OF assms(1)]) (auto simp: findMorePeers_def)
  then have "sess_ok itw itp rnd W i (resetIdleTick now ?s2)" "sess_ok itw itp rnd W i ((resetIdleTick now ?s2)\<lparr>s_consecutiveTicks := n\<rparr>)" for n
    by (simp_all add: sess_ok_def)
  then show ?thesis using eq(4) unfolding broadcast_def 1 by (simp add: Let_def resetIdleTick_def findMorePeers_def)
qed

definition interests :: "SessionInterestManager \<Rightarrow> session_id \<Rightarrow> Want set" where
  "interests sim i = {w. interest sim w i \<noteq> None}"

text \<open>What a step of a session does to the interests: it adds some of its own.\<close>

definition sim_step :: "session_id \<Rightarrow> SessionInterestManager \<Rightarrow> SessionInterestManager \<Rightarrow> bool" where
  "sim_step i sim sim' \<longleftrightarrow> sim_wf sim' \<and> (\<forall>j. j \<noteq> i \<longrightarrow> interests sim' j = interests sim j) \<and> interests sim i \<subseteq> interests sim' i"

lemma sim_step_refl: "sim_wf sim \<Longrightarrow> sim_step i sim sim"
  by (simp add: sim_step_def)

lemma sim_step_received: "sim_wf sim \<Longrightarrow> sim_step i sim (RemoveSessionWants i ws sim)"
  using RemoveSessionWants_wf [of sim i ws] by (auto simp: sim_step_def interests_def RemoveSessionWants_interest)

lemma sim_step_wanted: "sim_wf sim \<Longrightarrow> sim_step i sim (RecordSessionInterest i ws sim) \<and> set ws \<subseteq> interests (RecordSessionInterest i ws sim) i"
  using RecordSessionInterest_wf [of sim i ws] by (auto simp: sim_step_def interests_def RecordSessionInterest_interest)

lemma handleReceive_ok:
  assumes "sess_ok itw itp rnd (interests sim i) i s" "sim_wf sim" "handleReceive now ws sim s = (s', sim')"
  shows "sim_step i sim sim' \<and> sess_ok itw itp rnd (interests sim' i) i s' \<and> s_phase s' = s_phase s"
proof -
  obtain sw wanted lat where b: "sw_BlocksReceived now ws (s_sw s) = (sw, wanted, lat)" by (metis prod_cases3)
  have sw: "sw_ok (interests sim i) sw" by (rule sw_ok_received [OF sess_okD(2) [OF assms(1)] b])
  show ?thesis
  proof (cases "wanted = []")
    case True
    then show ?thesis using assms sw by (auto simp: handleReceive_def b sim_step_refl sess_ok_def)
  next
    case False
    let ?s = "s\<lparr>s_sw := sw, s_latencyTrkr := receiveUpdate (int (length wanted)) lat (s_latencyTrkr s),
        s_idleTick := timer_Stop (s_idleTick s), s_consecutiveTicks := 0\<rparr>"
    have r: "s' = resetIdleTick now ?s" "sim' = RemoveSessionWants i wanted sim"
      using False assms(3) sess_okD(3) [OF assms(1)] by (simp_all add: handleReceive_def b Let_def)
    have st: "sim_step i sim sim'" using sim_step_received [OF assms(2)] by (simp add: r)
    have "sess_ok itw itp rnd (interests sim i) i s'" unfolding r(1) by (rule sess_ok_rearm [OF assms(1)]) (simp_all add: sw)
    moreover have "s_phase s' = s_phase s" by (simp add: r(1) resetIdleTick_def Let_def)
    ultimately show ?thesis using st sess_ok_mono [of "interests sim i" "interests sim' i"] by (simp add: sim_step_def)
  qed
qed

lemma Session_wantBlocks_ok:
  assumes "sess_ok itw itp rnd (interests sim i) i s" "sim_wf sim" "Session_wantBlocks now ws sim s = (s', sim', cs)"
  shows "sim_step i sim sim' \<and> sess_ok itw itp rnd (interests sim' i) i s' \<and> s_phase s' = s_phase s \<and> Sess_RemoveSession \<notin> set cs"
proof -
  let ?sim = "if ws = [] then sim else RecordSessionInterest i ws sim"
  let ?s = "if ws = [] then s else s\<lparr>s_sw := sw_BlocksRequested ws (s_sw s), s_sws := sws_Add ws (s_sws s)\<rparr>"
  have st: "sim_step i sim ?sim" "set ws \<subseteq> interests ?sim i" using sim_step_wanted [OF assms(2)] sim_step_refl [OF assms(2)] by simp_all
  have s: "sess_ok itw itp rnd (interests ?sim i) i s"
    using assms(1) st(1) sess_ok_mono [of "interests sim i" "interests ?sim i"] by (simp add: sim_step_def)
  then have s1: "sess_ok itw itp rnd (interests ?sim i) i ?s"
    using sw_ok_requested [OF sess_okD(2) [OF s] st(2)] sws_ok_Add [OF sess_okD(1) [OF s] st(2)] by (cases "ws = []") (simp_all add: sess_ok_def)
  obtain sw ws' where g: "GetNextWants now (s_sw ?s) = (sw, ws')" by force
  note n = sw_ok_next [OF sess_okD(2) [OF s1] g]
  have pair: "(if ws = [] then (s, sim) else (s\<lparr>s_sw := sw_BlocksRequested ws (s_sw s), s_sws := sws_Add ws (s_sws s)\<rparr>, RecordSessionInterest (s_id s) ws sim)) = (?s, ?sim)"
    using sess_okD(3) [OF assms(1)] by simp
  have "(s', sim', cs) = (if PeersDiscovered (sws_spm (s_sws ?s)) then (?s, ?sim, [])
      else (?s\<lparr>s_sw := sw\<rparr>, ?sim, if ws' \<noteq> [] then [Sess_BroadcastWantHaves ws'] else []))"
    using assms(3) unfolding Session_wantBlocks_def pair Let_def prod.case g by simp
  then have r: "sim' = ?sim" "s' = (if PeersDiscovered (sws_spm (s_sws ?s)) then ?s else ?s\<lparr>s_sw := sw\<rparr>)"
    "Sess_RemoveSession \<notin> set cs" by (auto split: if_splits)
  have "sess_ok itw itp rnd (interests ?sim i) i (?s\<lparr>s_sw := sw\<rparr>)" using s1 n by (simp add: sess_ok_def)
  then have "sess_ok itw itp rnd (interests ?sim i) i s'" using s1 unfolding r(2) by (simp only: if_split) simp
  moreover have "s_phase s' = s_phase s" unfolding r(2) by simp
  ultimately show ?thesis using st(1) r(1,3) by simp
qed

lemma run_op_ok:
  assumes ok: "sess_ok itw itp rnd (interests sim i) i s" and wf: "sim_wf sim" and r: "run_op now sim s = (s', sim', cs)"
  shows "sim_step i sim sim' \<and> sess_ok itw itp rnd (interests sim' i) i s' \<and> s_phase s' = s_phase s \<and> Sess_RemoveSession \<notin> set cs"
proof (cases "s_incoming s")
  case Nil
  then show ?thesis using assms by (simp add: run_op_def sim_step_refl)
next
  case (Cons oper ops)
  let ?s = "s\<lparr>s_incoming := ops\<rparr>"
  have s: "sess_ok itw itp rnd (interests sim i) i ?s" "op_ok (interests sim i) oper" using ok by (simp_all add: sess_ok_def Cons)
  show ?thesis
  proof (cases "op_op oper")
    case opReceive
    then show ?thesis using handleReceive_ok [OF s(1) wf, of now "op_wants oper"] r by (auto simp: run_op_def Cons split: prod.splits)
  next
    case opWant
    then show ?thesis using Session_wantBlocks_ok [OF s(1) wf, of now "op_wants oper"] r by (simp add: run_op_def Cons)
  next
    case opCancel
    then have "op_wants oper = []" using s(2) by (simp add: op_ok_def)
    then show ?thesis using opCancel r s(1) sw_ok_cancelled [OF sess_okD(2) [OF s(1)]] wf
      by (auto simp: run_op_def Cons sws_Cancel_def sess_ok_def sim_step_refl)
  next
    case opBroadcast
    then show ?thesis using sess_ok_broadcast [OF s(1) refl refl refl refl, of now "op_wants oper"] r wf
      by (auto simp: run_op_def Cons sim_step_refl split: prod.splits)
  next
    case opWantsSent
    then have "set (op_wants oper) \<subseteq> interests sim i" using s(2) by (simp add: op_ok_def)
    from sw_ok_sent [OF sess_okD(2) [OF s(1)] this, of now] opWantsSent show ?thesis using r s(1) wf
      by (auto simp: run_op_def Cons sess_ok_def sim_step_refl)
  qed
qed

lemma session_run_ok:
  assumes "session_run itp sim s r sim'" "sess_ok itw itp rnd (interests sim i) i s" "sim_wf sim"
  shows "sim_step i sim sim' \<and> sess_ok itw itp rnd (interests sim' i) i (fst r) \<and> s_phase s \<noteq> Ended \<and>
    (s_phase (fst r) \<noteq> Ended \<and> Sess_RemoveSession \<notin> set (snd r) \<or> s_phase (fst r) = Ended \<and> snd r = [Sess_RemoveSession] \<and> sim' = sim)"
  using assms(1)
proof cases
  case (run_takes_op now s' cs)
  then show ?thesis using run_op_ok [OF assms(2,3) run_takes_op(3)] by simp
next
  case (run_takes_idle now)
  then show ?thesis
    using sess_ok_broadcast [OF assms(2), of "s\<lparr>s_idleTick := timer_taken (s_idleTick s)\<rparr>" now "[]"] assms(3)
    by (simp add: run_idle_tick_def sim_step_refl)
next
  case (run_takes_periodic now wait rnd)
  then show ?thesis using assms(2,3)
    by (auto simp: run_periodic_tick_def handlePeriodicSearch_def Let_def findMorePeers_def sess_ok_def sim_step_refl)
next
  case run_shuts_down
  then show ?thesis using assms(2,3) by (auto simp: handleShutdown_begin_def sess_ok_def sim_step_refl)
next
  case run_ends
  then show ?thesis using assms(2,3) by (auto simp: handleShutdown_end_def sess_ok_def sim_step_refl)
qed

lemma sender_told_ok:
  "sess_ok itw itp rnd W i s \<Longrightarrow> list_all (good_call W) cs \<Longrightarrow>
     sess_ok itw itp rnd W i (fold sender_told cs s) \<and> s_phase (fold sender_told cs s) = s_phase s"
proof (induction cs arbitrary: s)
  case (Cons c cs)
  have "sess_ok itw itp rnd W i (sender_told c s) \<and> s_phase (sender_told c s) = s_phase s"
    using Cons.prems by (cases c) (auto simp: onWantsSent_def onPeersExhausted_def op_ok_def enqueue_def sess_ok_def)
  then show ?case using Cons by simp
qed simp

lemma sender_does_ok:
  assumes "iterates itw" "iterates itp" "sess_ok itw itp rnd W i s" "sws' = sws_Run_step itw itp rnd bpm (s_sws s) \<or> sws' = sws_Run_exit (s_sws s)"
  shows "sess_ok itw itp rnd W i (fst (sender_does sws' s)) \<and> s_phase (fst (sender_does sws' s)) = s_phase s \<and>
    (\<forall>ws. Call_CancelSessionWants ws \<notin> set (snd (sender_does sws' s)))"
proof -
  note st = sws_ok_step [OF assms(1,2) sess_okD(1) [OF assms(3)] assms(4)]
  have "sess_ok itw itp rnd W i (s\<lparr>s_sws := sws'\<lparr>sws_calls := []\<rparr>\<rparr>)" using assms(3) st by (intro sess_ok_sws) simp_all
  from sender_told_ok [OF this] st show ?thesis by (auto simp: sender_does_def list_all_iff)
qed

section \<open>The invariant of the manager\<close>

definition scope :: "SessionInterestManager \<Rightarrow> session_id \<Rightarrow> Session \<Rightarrow> Want set" where
  "scope sim i s = (if s_phase s = Ended then UNIV else interests sim i)"

definition sm_ok :: "(Want set \<Rightarrow> Want list) \<Rightarrow> (peer set \<Rightarrow> peer list) \<Rightarrow> (nat \<Rightarrow> rat) \<Rightarrow> SessionManager \<Rightarrow> bool" where
  "sm_ok itw itp rnd sm \<longleftrightarrow>
     sim_wf (sm_sim sm) \<and>
     (\<forall>i s. sm_objects sm i = Some s \<longrightarrow> sess_ok itw itp rnd (scope (sm_sim sm) i s) i s \<and> i \<le> sm_sessID sm) \<and>
     (\<forall>i. interests (sm_sim sm) i \<noteq> {} \<longrightarrow> (\<exists>s. sm_objects sm i = Some s \<and> s_phase s \<noteq> Ended)) \<and>
     (\<forall>ids i s. sm_sessions sm = Some ids \<longrightarrow> sm_objects sm i = Some s \<longrightarrow> s_phase s \<noteq> Ended \<longrightarrow> i \<in> ids)"

lemma sm_okD:
  assumes "sm_ok itw itp rnd sm"
  shows "sim_wf (sm_sim sm)"
    and "sm_objects sm i = Some s \<Longrightarrow> sess_ok itw itp rnd (scope (sm_sim sm) i s) i s"
    and "sm_objects sm i = Some s \<Longrightarrow> i \<le> sm_sessID sm"
    and "interests (sm_sim sm) i \<noteq> {} \<Longrightarrow> \<exists>s. sm_objects sm i = Some s \<and> s_phase s \<noteq> Ended"
    and "sm_sessions sm = Some ids \<Longrightarrow> sm_objects sm i = Some s \<Longrightarrow> s_phase s \<noteq> Ended \<Longrightarrow> i \<in> ids"
  using assms by (simp_all add: sm_ok_def)

lemma sm_ok_cong:
  "sm_sim sm' = sm_sim sm \<Longrightarrow> sm_objects sm' = sm_objects sm \<Longrightarrow> sm_sessions sm' = sm_sessions sm \<Longrightarrow> sm_sessID sm' = sm_sessID sm \<Longrightarrow>
     sm_ok itw itp rnd sm' = sm_ok itw itp rnd sm"
  by (simp add: sm_ok_def)

lemma scope_running: "s_phase s \<noteq> Ended \<Longrightarrow> scope sim i s = interests sim i"
  by (simp add: scope_def)

text \<open>A step of one session.\<close>

lemma sm_ok_session:
  assumes ok: "sm_ok itw itp rnd sm" and s: "sm_objects sm i = Some s" and sim: "sim_wf (sm_sim sm')"
    "\<And>j. j \<noteq> i \<Longrightarrow> interests (sm_sim sm') j = interests (sm_sim sm) j"
    and s': "sess_ok itw itp rnd (scope (sm_sim sm') i s') i s'" "s_phase s' \<noteq> Ended \<Longrightarrow> s_phase s \<noteq> Ended"
    "s_phase s' = Ended \<Longrightarrow> interests (sm_sim sm') i = {}"
    and sm': "sm_objects sm' = (sm_objects sm)(i \<mapsto> s')" "sm_sessID sm' = sm_sessID sm"
    "\<And>ids. sm_sessions sm' = Some ids \<Longrightarrow> \<exists>old. sm_sessions sm = Some old \<and> old - ids \<subseteq> (if s_phase s' = Ended then {i} else {})"
  shows "sm_ok itw itp rnd sm'"
  unfolding sm_ok_def
proof (intro conjI allI impI)
  show "sess_ok itw itp rnd (scope (sm_sim sm') j t) j t" if "sm_objects sm' j = Some t" for j t
  proof (cases "j = i")
    case False
    then have "scope (sm_sim sm') j t = scope (sm_sim sm) j t" using sim(2) by (simp add: scope_def)
    then show ?thesis using sm_okD(2) [OF ok, of j t] that False by (simp add: sm')
  qed (use that s' in \<open>simp add: sm'\<close>)
  show "j \<le> sm_sessID sm'" if "sm_objects sm' j = Some t" for j t
    using that sm_okD(3) [OF ok] s by (cases "j = i") (auto simp: sm')
  show "\<exists>t. sm_objects sm' j = Some t \<and> s_phase t \<noteq> Ended" if "interests (sm_sim sm') j \<noteq> {}" for j
    using that sm_okD(4) [OF ok, of j] sim(2) s'(3) by (cases "j = i") (auto simp: sm')
  show "j \<in> ids" if ids: "sm_sessions sm' = Some ids" "sm_objects sm' j = Some t" "s_phase t \<noteq> Ended" for ids j t
  proof -
    obtain old where o: "sm_sessions sm = Some old" "old - ids \<subseteq> (if s_phase s' = Ended then {i} else {})" using sm'(3) [OF ids(1)] by blast
    show ?thesis
    proof (cases "j = i")
      case True
      then have "s_phase s' \<noteq> Ended" using ids by (simp add: sm')
      then show ?thesis using sm_okD(5) [OF ok o(1) s] s'(2) o(2) True by auto
    next
      case False
      then have "j \<in> old" using sm_okD(5) [OF ok o(1)] ids by (simp add: sm')
      then show ?thesis using o(2) False by (auto split: if_splits)
    qed
  qed
qed (rule sim(1))

lemma sm_ok_session_kept:
  assumes "sm_ok itw itp rnd sm" "sm_objects sm i = Some s" "sim_wf (sm_sim sm')" "\<And>j. j \<noteq> i \<Longrightarrow> interests (sm_sim sm') j = interests (sm_sim sm) j"
    "sess_ok itw itp rnd (scope (sm_sim sm') i s') i s'" "s_phase s' \<noteq> Ended \<Longrightarrow> s_phase s \<noteq> Ended" "s_phase s' = Ended \<Longrightarrow> interests (sm_sim sm') i = {}"
    "sm_objects sm' = (sm_objects sm)(i \<mapsto> s')" "sm_sessID sm' = sm_sessID sm" "sm_sessions sm' = sm_sessions sm"
  shows "sm_ok itw itp rnd sm'"
proof -
  have "\<exists>old. sm_sessions sm = Some old \<and> old - ids \<subseteq> X" if "sm_sessions sm' = Some ids" for ids X using that assms(10) by simp
  then show ?thesis using assms(3-9) by (intro sm_ok_session [OF assms(1,2), of sm' s']) simp_all
qed

text \<open>A step that is no step of a session's own.\<close>

lemma sm_ok_map:
  assumes ok: "sm_ok itw itp rnd sm" and sm': "sm_sim sm' = sm_sim sm" "sm_sessID sm' = sm_sessID sm" "\<And>j. sm_objects sm' j = map_option (f j) (sm_objects sm j)"
    "sm_sessions sm' = sm_sessions sm \<or> sm_sessions sm' = None"
    and f: "\<And>j s W. sess_ok itw itp rnd W j s \<Longrightarrow> sess_ok itw itp rnd W j (f j s)" "\<And>j s. s_phase (f j s) = s_phase s"
  shows "sm_ok itw itp rnd sm'"
  unfolding sm_ok_def
proof (intro conjI allI impI)
  have scope: "scope sim j (f j s) = scope sim j s" for sim j s by (simp add: scope_def f(2))
  show "sess_ok itw itp rnd (scope (sm_sim sm') j t) j t" if "sm_objects sm' j = Some t" for j t
    using that sm_okD(2) [OF ok, of j] f(1) by (auto simp: sm' scope)
  show "j \<le> sm_sessID sm'" if "sm_objects sm' j = Some t" for j t
    using that sm_okD(3) [OF ok] by (auto simp: sm')
  show "\<exists>t. sm_objects sm' j = Some t \<and> s_phase t \<noteq> Ended" if "interests (sm_sim sm') j \<noteq> {}" for j
    using that sm_okD(4) [OF ok, of j] by (auto simp: sm' f(2))
  show "j \<in> ids" if "sm_sessions sm' = Some ids" "sm_objects sm' j = Some t" "s_phase t \<noteq> Ended" for ids j t
    using that sm_okD(5) [OF ok, of ids j] sm'(4) by (auto simp: sm'(3) f(2))
qed (use sm_okD(1) [OF ok] in \<open>simp add: sm'\<close>)

lemma word_less_plus_1: "(x :: uint64) \<noteq> - 1 \<Longrightarrow> x < x + 1"
proof -
  assume "x \<noteq> - 1"
  then have "unat x \<noteq> unat (- 1 :: uint64)" by (simp only: word_unat_eq_iff) simp
  moreover have "unat (- 1 :: uint64) = 2 ^ 64 - 1" by (simp add: unsigned_minus_1_eq_mask mask_eq_exp_minus_1)
  ultimately have "unat x + 1 < 2 ^ 64" using unsigned_less [of x, where ?'a = nat] by simp
  then show ?thesis by (simp add: word_less_nat_alt unat_word_ariths)
qed

lemma sm_ok_NewSession:
  assumes "sm_ok itw itp rnd sm" "sm_sessID sm \<noteq> - 1"
  shows "sm_ok itw itp rnd (NewSession now wait d sm)"
proof -
  let ?i = "sm_sessID sm + 1" and ?sm = "NewSession now wait d sm"
  have less: "sm_sessID sm < ?i" using assms(2) by (rule word_less_plus_1)
  then have le: "j \<le> sm_sessID sm \<Longrightarrow> j \<le> ?i" for j by simp
  have none: "sm_objects sm ?i = None" "interests (sm_sim sm) ?i = {}"
    using sm_okD(3,4) [OF assms(1), of ?i] less by (cases "sm_objects sm ?i"; force)+
  have eq: "sm_objects ?sm = (sm_objects sm)(?i \<mapsto> Session_New now wait ?i d)" "sm_sim ?sm = sm_sim sm" "sm_sessID ?sm = ?i"
    "sm_sessions ?sm = map_option (insert ?i) (sm_sessions sm)"
    by (simp_all add: NewSession_def GetNextSessionID_def Let_def split: option.splits)
  show ?thesis
    unfolding sm_ok_def eq
    using assms(1) le none sess_ok_new by (auto simp: sm_ok_def)
qed

lemma tell_sessions_eq:
  assumes "sm_sessions sm = Some ids" "distinct is"
  shows "tell_sessions p blks haves dontHaves is sm =
    (sm\<lparr>sm_objects := (\<lambda>j. if j \<in> set is \<inter> ids then map_option (Session_ReceiveFrom (sm_sim sm) p blks haves dontHaves) (sm_objects sm j)
        else sm_objects sm j)\<rparr>, False)"
  using assms
proof (induction "is" arbitrary: sm)
  case (Cons i "is")
  let ?f = "Session_ReceiveFrom (sm_sim sm) p blks haves dontHaves"
  let ?sm = "if i \<in> ids then on_session i ?f sm else sm"
  have sm: "?sm = sm\<lparr>sm_objects := (\<lambda>j. if j = i \<and> i \<in> ids then map_option ?f (sm_objects sm j) else sm_objects sm j)\<rparr>"
    by (cases sm) (auto simp: on_session_def fun_eq_iff split: option.splits)
  have "tell_sessions p blks haves dontHaves (i # is) sm = tell_sessions p blks haves dontHaves is ?sm"
    using Cons.prems(1) by simp
  also have "\<dots> = (?sm\<lparr>sm_objects := (\<lambda>j. if j \<in> set is \<inter> ids then map_option ?f (sm_objects ?sm j) else sm_objects ?sm j)\<rparr>, False)"
    using Cons.IH [of ?sm] Cons.prems unfolding sm by (simp cong: if_cong)
  also have "?sm\<lparr>sm_objects := (\<lambda>j. if j \<in> set is \<inter> ids then map_option ?f (sm_objects ?sm j) else sm_objects ?sm j)\<rparr> =
      sm\<lparr>sm_objects := (\<lambda>j. if j \<in> set (i # is) \<inter> ids then map_option ?f (sm_objects sm j) else sm_objects sm j)\<rparr>"
    unfolding sm using Cons.prems(2) by (cases sm) (auto simp: fun_eq_iff cong: if_cong)
  finally show ?case .
qed simp

lemma tell_sessions_none: "sm_sessions sm = None \<Longrightarrow> fst (tell_sessions p blks haves dontHaves is sm) = sm"
  by (cases "is") simp_all

lemma on_sessions_fold:
  "sm_sim (fold (\<lambda>i. on_session i f) is sm) = sm_sim sm \<and> sm_sessions (fold (\<lambda>i. on_session i f) is sm) = sm_sessions sm \<and>
   sm_sessID (fold (\<lambda>i. on_session i f) is sm) = sm_sessID sm \<and>
   (\<forall>j. sm_objects (fold (\<lambda>i. on_session i f) is sm) j = map_option (f ^^ count_list is j) (sm_objects sm j))"
proof (induction "is" arbitrary: sm)
  case (Cons i "is")
  have "sm_sim (on_session i f sm) = sm_sim sm" "sm_sessions (on_session i f sm) = sm_sessions sm" "sm_sessID (on_session i f sm) = sm_sessID sm"
    "sm_objects (on_session i f sm) j = (if j = i then map_option f (sm_objects sm j) else sm_objects sm j)" for j
    by (auto simp: on_session_def split: option.splits)
  then show ?case using Cons [of "on_session i f sm"] by (auto simp: option.map_comp comp_def funpow_swap1)
qed (simp add: option.map_id0)

lemma session_calls_frame:
  assumes "Sess_RemoveSession \<notin> set cs"
  shows "sm_sim (fold (session_calls itw i) cs sm) = sm_sim sm \<and> sm_objects (fold (session_calls itw i) cs sm) = sm_objects sm \<and>
    sm_sessions (fold (session_calls itw i) cs sm) = sm_sessions sm \<and> sm_sessID (fold (session_calls itw i) cs sm) = sm_sessID sm"
  using assms
proof (induction cs arbitrary: sm)
  case (Cons c cs)
  then show ?case by (cases c) auto
qed simp

lemma sender_calls_frame:
  assumes "\<forall>ws. Call_CancelSessionWants ws \<notin> set cs"
  shows "sm_sim (fold (sender_calls i) cs sm) = sm_sim sm \<and> sm_objects (fold (sender_calls i) cs sm) = sm_objects sm \<and>
    sm_sessions (fold (sender_calls i) cs sm) = sm_sessions sm \<and> sm_sessID (fold (sender_calls i) cs sm) = sm_sessID sm"
  using assms
proof (induction cs arbitrary: sm)
  case (Cons c cs)
  then show ?case by (cases c) auto
qed simp

lemma sm_ok_run:
  assumes "iterates itw" "sm_ok itw itp rnd sm" "sm_objects sm i = Some s" "session_run itp (sm_sim sm) s r sim'"
  shows "sm_ok itw itp rnd (run_session itw i r (sm\<lparr>sm_sim := sim'\<rparr>))"
proof -
  have "s_phase s \<noteq> Ended" using assms(4) by cases auto
  then have "sess_ok itw itp rnd (interests (sm_sim sm) i) i s" using sm_okD(2) [OF assms(2,3)] by (simp add: scope_running)
  note run = session_run_ok [OF assms(4) this sm_okD(1) [OF assms(2)]]
  let ?sm = "put_session i (fst r) (sm\<lparr>sm_sim := sim'\<rparr>)"
  have wf: "sim_wf sim'" and others: "\<And>j. j \<noteq> i \<Longrightarrow> interests sim' j = interests (sm_sim sm) j" using run by (simp_all add: sim_step_def)
  show ?thesis
  proof (cases "s_phase (fst r) = Ended")
    case False
    then have "Sess_RemoveSession \<notin> set (snd r)" using run by auto
    note fr = session_calls_frame [OF this, of itw i ?sm]
    show ?thesis
      by (rule sm_ok_session_kept [OF assms(2,3), of _ "fst r"])
        (use run fr False wf others in \<open>simp_all add: run_session_def put_session_def scope_running\<close>)
  next
    case True
    then have r: "snd r = [Sess_RemoveSession]" "sim' = sm_sim sm" using run by auto
    obtain sim2 ks where rem: "RemoveSession itw i sim' = (sim2, ks)" by force
    note e = RemoveSession_effect [OF assms(1) wf rem]
    have int: "interests sim2 j = (if j = i then {} else interests sim' j)" for j by (simp add: interests_def e(2))
    have UNIV: "sess_ok itw itp rnd UNIV i (fst r)" using run sess_ok_mono by blast
    have fields: "sm_sim (run_session itw i r (sm\<lparr>sm_sim := sim'\<rparr>)) = sim2" "sm_objects (run_session itw i r (sm\<lparr>sm_sim := sim'\<rparr>)) = (sm_objects sm)(i \<mapsto> fst r)"
      "sm_sessID (run_session itw i r (sm\<lparr>sm_sim := sim'\<rparr>)) = sm_sessID sm"
      "sm_sessions (run_session itw i r (sm\<lparr>sm_sim := sim'\<rparr>)) = map_option (\<lambda>ids. ids - {i}) (sm_sessions sm)"
      by (simp_all add: run_session_def r(1) put_session_def sm_RemoveSession_def rem cancelWants_def Let_def split: option.splits)
    show ?thesis
      by (rule sm_ok_session [OF assms(2,3), of _ "fst r"]) (use True e(1) int UNIV others in \<open>auto simp: fields scope_def\<close>)
  qed
qed

lemma sm_ok_sender:
  assumes "iterates itw" "iterates itp" "sm_ok itw itp rnd sm" "sm_objects sm i = Some s"
    "sws' = sws_Run_step itw itp rnd bpm (s_sws s) \<or> sws' = sws_Run_exit (s_sws s)"
  shows "sm_ok itw itp rnd (run_sender i (sender_does sws' s) sm)"
proof -
  let ?s = "fst (sender_does sws' s)"
  note d = sender_does_ok [OF assms(1,2) sm_okD(2) [OF assms(3,4)] assms(5)]
  have cs: "\<forall>ws. Call_CancelSessionWants ws \<notin> set (snd (sender_does sws' s))" using d by simp
  note fr = sender_calls_frame [OF cs, of i "put_session i ?s sm"]
  have sc: "scope (sm_sim sm) i ?s = scope (sm_sim sm) i s" using d by (simp add: scope_def)
  have "interests (sm_sim sm) i = {}" if "s_phase s = Ended" using sm_okD(4) [OF assms(3), of i] assms(4) that by auto
  then show ?thesis
    by (intro sm_ok_session_kept [OF assms(3,4), of _ ?s])
      (use d fr sm_okD(1) [OF assms(3)] in \<open>simp_all add: run_sender_def put_session_def sc\<close>)
qed

lemma sm_ok_event:
  assumes "sm_ok itw itp rnd sm" "sm_objects sm i = Some s" "session_event s s'"
  shows "sm_ok itw itp rnd (put_session i s' sm)"
proof -
  note d = sess_ok_event [OF assms(3) sm_okD(2) [OF assms(1,2)]]
  have sc: "scope (sm_sim sm) i s' = scope (sm_sim sm) i s" using d by (simp add: scope_def)
  have "interests (sm_sim sm) i = {}" if "s_phase s = Ended" using sm_okD(4) [OF assms(1), of i] assms(2) that by auto
  then show ?thesis
    by (intro sm_ok_session_kept [OF assms(1,2), of _ s']) (use d sm_okD(1) [OF assms(1)] in \<open>simp_all add: put_session_def sc\<close>)
qed

lemma sm_ok_receive:
  assumes "iterates its" "sm_ok itw itp rnd sm"
  shows "sm_ok itw itp rnd (sm_ReceiveFrom its p blks haves dontHaves sm)"
proof -
  let ?is = "InterestedSessions its (sm_sim sm) blks haves dontHaves"
  let ?f = "Session_ReceiveFrom (sm_sim sm) p blks haves dontHaves"
  let ?sm = "sm\<lparr>sm_bpm := bpm_ReceiveFrom p haves dontHaves (sm_bpm sm)\<rparr>"
  obtain sm1 ret where t: "tell_sessions p blks haves dontHaves ?is ?sm = (sm1, ret)" by force
  have phase: "s_phase (?f s) = s_phase s" for s by (simp add: Session_ReceiveFrom_def Let_def enqueue_def)
  have "\<exists>g. sm_sim sm1 = sm_sim sm \<and> sm_sessID sm1 = sm_sessID sm \<and> (\<forall>j. sm_objects sm1 j = map_option (g j) (sm_objects sm j)) \<and>
      sm_sessions sm1 = sm_sessions sm \<and> (\<forall>j. g j = ?f \<or> g j = id)"
  proof (cases "sm_sessions sm")
    case None
    then have "sm1 = ?sm" using tell_sessions_none [of ?sm p blks haves dontHaves ?is] by (simp add: t)
    then show ?thesis by (intro exI [of _ "\<lambda>_. id"]) (simp add: option.map_id0)
  next
    case (Some ids)
    have "finite (fold (\<lambda>c S. case sim_wants (sm_sim sm) c of None \<Rightarrow> S | Some m \<Rightarrow> S \<union> dom m) ks S)" if "finite S" for ks S
      using that sm_okD(1) [OF assms(2)] by (induction ks arbitrary: S) (auto simp: sim_wf_def split: option.splits)
    then have "distinct ?is" using assms(1) by (simp add: InterestedSessions_def Let_def)
    then have "sm1 = ?sm\<lparr>sm_objects := (\<lambda>j. if j \<in> set ?is \<inter> ids then map_option ?f (sm_objects sm j) else sm_objects sm j)\<rparr>"
      using tell_sessions_eq [of ?sm ids ?is p blks haves dontHaves] Some t by (simp cong: if_cong)
    then show ?thesis by (intro exI [of _ "\<lambda>j. if j \<in> set ?is \<inter> ids then ?f else id"]) (simp add: option.map_id0)
  qed
  then obtain g where g: "sm_sim sm1 = sm_sim sm" "sm_sessID sm1 = sm_sessID sm" "\<And>j. sm_objects sm1 j = map_option (g j) (sm_objects sm j)"
      "sm_sessions sm1 = sm_sessions sm" "\<And>j. g j = ?f \<or> g j = id" by blast
  have "sess_ok itw itp rnd W j (g j s)" if "sess_ok itw itp rnd W j s" for W j s using g(5) [of j] that sess_ok_receive by auto
  moreover have "s_phase (g j s) = s_phase s" for j s using g(5) [of j] phase by auto
  ultimately have "sm_ok itw itp rnd sm1" using g(1-4) by (intro sm_ok_map [OF assms(2), of sm1 g]) simp_all
  then show ?thesis by (simp add: sm_ReceiveFrom_def t) (simp add: sm_ok_def)
qed

lemma sm_ok_shutdown:
  assumes "sm_ok itw itp rnd sm"
  shows "sm_ok itw itp rnd (sm_Shutdown its sm)"
proof -
  let ?is = "case sm_sessions sm of None \<Rightarrow> [] | Some ids \<Rightarrow> its ids"
  have f: "(sess_ok itw itp rnd W j s \<longrightarrow> sess_ok itw itp rnd W j ((Session_Shutdown ^^ n) s)) \<and> s_phase ((Session_Shutdown ^^ n) s) = s_phase s" for W j n s
    by (induction n) (auto simp: Session_Shutdown_def sess_ok_def)
  show ?thesis
    by (rule sm_ok_map [OF assms, of _ "\<lambda>j. Session_Shutdown ^^ count_list ?is j"])
      (use on_sessions_fold [of Session_Shutdown ?is "sm\<lparr>sm_sessions := None\<rparr>"] f in \<open>simp_all add: sm_Shutdown_def\<close>)
qed

lemma sm_reach_ok:
  assumes "sm_reach itw itp its rnd sm" "iterates itw" "iterates itp" "iterates its"
  shows "sm_ok itw itp rnd sm"
  using assms(1)
proof induction
  case sm_init
  show ?case by (simp add: sm_ok_def sm_New_def sim_wf_new interests_def)
next
  case (sm_next sm sm')
  from sm_next.hyps(2) sm_next.IH show ?case
    using assms(2-) sm_ok_sender by cases (auto intro: sm_ok_NewSession sm_ok_receive sm_ok_shutdown sm_ok_event sm_ok_run sm_ok_sender)
qed

section \<open>Sessions hear of their blocks\<close>

lemma InterestedSessions_distinct:
  assumes "iterates its" "sim_wf sim"
  shows "distinct (InterestedSessions its sim ks hs ds) \<and>
    set (InterestedSessions its sim ks hs ds) = {i. \<exists>w \<in> set (ks @ hs @ ds). interest sim w i \<noteq> None}"
proof -
  have "finite (fold (\<lambda>c S. case sim_wants sim c of None \<Rightarrow> S | Some m \<Rightarrow> S \<union> dom m) ks S)" if "finite S" for ks S
    using that assms(2) by (induction ks arbitrary: S) (auto simp: sim_wf_def split: option.splits)
  moreover have "fold (\<lambda>c S. case sim_wants sim c of None \<Rightarrow> S | Some m \<Rightarrow> S \<union> dom m) ks S = S \<union> {i. \<exists>w \<in> set ks. interest sim w i \<noteq> None}" for ks S
    by (induction ks arbitrary: S) (auto simp: interest_def split: option.splits)
  ultimately show ?thesis using assms(1) by (simp add: InterestedSessions_def Let_def del: fold_append)
qed

lemma told_session:
  assumes "iterates its" "sim_wf (sm_sim sm)" "sm_sessions sm = Some ids" "i \<in> ids" "sm_objects sm i = Some s" "s_id s = i"
  shows "sm_objects (sm_ReceiveFrom its p blks haves dontHaves sm) i = Some (Session_ReceiveFrom (sm_sim sm) p blks haves dontHaves s)"
    and "sm_calls (sm_ReceiveFrom its p blks haves dontHaves sm) = sm_calls sm @ [PM_SendCancels blks]"
proof -
  let ?is = "InterestedSessions its (sm_sim sm) blks haves dontHaves"
  let ?f = "Session_ReceiveFrom (sm_sim sm) p blks haves dontHaves"
  note int = InterestedSessions_distinct [OF assms(1,2), of blks haves dontHaves]
  have t: "tell_sessions p blks haves dontHaves ?is (sm\<lparr>sm_bpm := b\<rparr>) =
      (sm\<lparr>sm_bpm := b, sm_objects := (\<lambda>j. if j \<in> set ?is \<inter> ids then map_option ?f (sm_objects sm j) else sm_objects sm j)\<rparr>, False)" for b
    using tell_sessions_eq [of "sm\<lparr>sm_bpm := b\<rparr>" ids ?is p blks haves dontHaves] assms(3) int by (simp cong: if_cong)
  have "?f s = s" if "i \<notin> set ?is"
  proof -
    have "filter (\<lambda>c. interest (sm_sim sm) c i \<noteq> None) blks = []" "filter (\<lambda>c. interest (sm_sim sm) c i \<noteq> None) haves = []"
      "filter (\<lambda>c. interest (sm_sim sm) c i \<noteq> None) dontHaves = []"
      using that int by (auto simp: filter_empty_conv)
    then show ?thesis by (simp add: Session_ReceiveFrom_def FilterSessionInterested_def assms(6) sws_Update_def Let_def)
  qed
  then show "sm_objects (sm_ReceiveFrom its p blks haves dontHaves sm) i = Some (?f s)"
    using assms(4,5) by (simp add: sm_ReceiveFrom_def t)
  show "sm_calls (sm_ReceiveFrom its p blks haves dontHaves sm) = sm_calls sm @ [PM_SendCancels blks]"
    by (simp add: sm_ReceiveFrom_def t)
qed


text \<open>C16. Interests belong to sessions that have not ended, so that nothing is kept alive for sessions that are gone, and a session that has not ended is
interested in every want that its sender has as pending, that it has as live or that waits to be fetched.\<close>

theorem interests_are_live:
  assumes "sm_reach itw itp its rnd sm" "iterates itw" "iterates itp" "iterates its"
  shows "(interest (sm_sim sm) w i \<noteq> None \<longrightarrow> (\<exists>s. sm_objects sm i = Some s \<and> s_phase s \<noteq> Ended)) \<and>
    (sm_objects sm i = Some s \<and> s_phase s \<noteq> Ended \<and> w \<in> dom (sws_wants (s_sws s)) \<union> dom (liveWants (s_sw s)) \<union> set (elems (toFetch (s_sw s))) \<longrightarrow>
      interest (sm_sim sm) w i \<noteq> None)"
proof -
  have ok: "sm_ok itw itp rnd sm" by (rule sm_reach_ok [OF assms(1-4)])
  have "interest (sm_sim sm) w i \<noteq> None" if "sm_objects sm i = Some s" "s_phase s \<noteq> Ended"
    "w \<in> dom (sws_wants (s_sws s)) \<union> dom (liveWants (s_sw s)) \<union> set (elems (toFetch (s_sw s)))"
  proof -
    have "sess_ok itw itp rnd (interests (sm_sim sm) i) i s" using sm_okD(2) [OF ok that(1)] that(2) by (simp add: scope_running)
    then have "dom (sws_wants (s_sws s)) \<union> dom (liveWants (s_sw s)) \<union> set (elems (toFetch (s_sw s))) \<subseteq> interests (sm_sim sm) i"
      by (simp add: sess_ok_def sws_ok_def sw_ok_def)
    then show ?thesis using that(3) by (auto simp: interests_def)
  qed
  then show ?thesis using sm_okD(4) [OF ok, of i] by (auto simp: interests_def)
qed

section \<open>Timers\<close>

text \<open>C17. A session does not fall asleep. While its run loop is running, its idle timer is running or has fired, and when the run loop takes
the tick of the timer of a session with live wants, it broadcasts some of them.\<close>

theorem idle_timer_runs:
  assumes "sm_reach itw itp its rnd sm" "iterates itw" "iterates itp" "iterates its" "sm_objects sm i = Some s" "s_phase s = Running"
  shows "(gt_due (s_idleTick s) \<noteq> None \<or> gt_tick (s_idleTick s)) \<and>
    (\<exists>ws. snd (run_idle_tick now s) = [Sess_BroadcastWantHaves ws] \<and> set ws \<subseteq> dom (liveWants (s_sw s)) \<and> (dom (liveWants (s_sw s)) = {}) = (ws = []))"
proof -
  have "sm_ok itw itp rnd sm" by (rule sm_reach_ok [OF assms(1-4)])
  from sm_okD(2) [OF this assms(5)] have t: "ticking (s_idleTick s)" and wf: "sw_wf (s_sw s)" using assms(6) by (auto simp: sess_ok_def sw_ok_def)
  obtain sw ws where p: "PrepareBroadcast now (s_sw s) = (sw, ws)" by force
  then obtain m where r: "PrepareBroadcast_loop now (broadcastLimit (s_sw s)) 0 (liveWantsOrder (s_sw s)) (liveWants (s_sw s)) = (m, ws)"
    by (auto simp: PrepareBroadcast_def split: prod.splits)
  let ?live = "filter (\<lambda>w. liveWants (s_sw s) w \<noteq> None) (liveWantsOrder (s_sw s))"
  have ws: "ws = (if broadcastLimit (s_sw s) \<le> 0 then ?live else take (nat (broadcastLimit (s_sw s))) ?live)"
    using PrepareBroadcast_loop_spec [OF r] by simp
  have "?live = [] \<longleftrightarrow> dom (liveWants (s_sw s)) = {}" using wf by (auto simp: filter_empty_conv sw_wf_def dom_def)
  then have "set ws \<subseteq> dom (liveWants (s_sw s)) \<and> (dom (liveWants (s_sw s)) = {}) = (ws = [])"
    unfolding ws by (auto dest: in_set_takeD)
  then show ?thesis using t by (simp add: ticking_def run_idle_tick_def broadcast_def p Let_def)
qed

text \<open>A periodic search timer that is stopped and has no tick.\<close>

definition search_over :: "session_id \<Rightarrow> SessionManager \<Rightarrow> bool" where
  "search_over i sm \<longleftrightarrow> (\<exists>s. sm_objects sm i = Some s \<and> gt_due (s_periodicSearchTimer s) = None \<and> \<not> gt_tick (s_periodicSearchTimer s))"

lemma run_session_objects: "sm_objects (run_session itw i r sm) = (sm_objects sm)(i \<mapsto> fst r)"
proof -
  have "sm_objects (fold (session_calls itw i) cs sm) = sm_objects sm" for cs and sm :: SessionManager
  proof (induction cs arbitrary: sm)
    case (Cons c cs)
    then show ?case by (cases c) (simp_all add: sm_RemoveSession_def cancelWants_def Let_def split: prod.splits option.splits)
  qed simp
  then show ?thesis by (simp add: run_session_def put_session_def)
qed

lemma run_sender_objects: "sm_objects (run_sender i r sm) = (sm_objects sm)(i \<mapsto> fst r)"
proof -
  have "sm_objects (fold (sender_calls i) cs sm) = sm_objects sm" for cs and sm :: SessionManager
  proof (induction cs arbitrary: sm)
    case (Cons c cs)
    then show ?case by (cases c) (simp_all add: CancelSessionWants_def cancelWants_def split: prod.splits)
  qed simp
  then show ?thesis by (simp add: run_sender_def put_session_def)
qed

lemma periodic_untouched:
  "s_periodicSearchTimer (Session_ReceiveFrom sim p ks hs ds s) = s_periodicSearchTimer s"
  "s_periodicSearchTimer (resetIdleTick now s) = s_periodicSearchTimer s"
  "s_periodicSearchTimer (fst (broadcast now ws s)) = s_periodicSearchTimer s"
  "s_periodicSearchTimer (fst (handleReceive now ws sim s)) = s_periodicSearchTimer s"
  "s_periodicSearchTimer (fst (Session_wantBlocks now ws sim s)) = s_periodicSearchTimer s"
  "s_periodicSearchTimer (fst (sender_does sws s)) = s_periodicSearchTimer s"
proof -
  show r: "s_periodicSearchTimer (resetIdleTick now s) = s_periodicSearchTimer s" for s by (simp add: resetIdleTick_def Let_def)
  show "s_periodicSearchTimer (Session_ReceiveFrom sim p ks hs ds s) = s_periodicSearchTimer s"
    by (simp add: Session_ReceiveFrom_def Let_def enqueue_def)
  show "s_periodicSearchTimer (fst (broadcast now ws s)) = s_periodicSearchTimer s"
    by (auto simp: broadcast_def Let_def r findMorePeers_def split: prod.splits if_splits)
  show "s_periodicSearchTimer (fst (handleReceive now ws sim s)) = s_periodicSearchTimer s"
    by (simp add: handleReceive_def Let_def r split: prod.splits)
  show "s_periodicSearchTimer (fst (Session_wantBlocks now ws sim s)) = s_periodicSearchTimer s"
    by (simp add: Session_wantBlocks_def Let_def split: prod.splits)
  have "s_periodicSearchTimer (fold sender_told cs s) = s_periodicSearchTimer s" for cs s
  proof (induction cs arbitrary: s)
    case (Cons c cs)
    then show ?case by (cases c) (simp_all add: onWantsSent_def onPeersExhausted_def enqueue_def)
  qed simp
  then show "s_periodicSearchTimer (fst (sender_does sws s)) = s_periodicSearchTimer s" by (simp add: sender_does_def)
qed

lemma run_op_periodic: "s_periodicSearchTimer (fst (run_op now sim s)) = s_periodicSearchTimer s"
proof (cases "s_incoming s")
  case (Cons oper ops)
  then show ?thesis
    using periodic_untouched(3) [of now "op_wants oper" "s\<lparr>s_incoming := ops\<rparr>"] periodic_untouched(4,5) [of now "op_wants oper" sim "s\<lparr>s_incoming := ops\<rparr>"]
    by (cases "op_op oper") (simp_all add: run_op_def split_beta Let_def)
qed (simp add: run_op_def)

lemma session_event_periodic:
  assumes "session_event s s'" "gt_due (s_periodicSearchTimer s) = None"
  shows "s_periodicSearchTimer s' = s_periodicSearchTimer s"
  using assms
  by cases (simp_all add: GetBlocks_want_def GetBlocks_cancel_def enqueue_def Session_Shutdown_def SetBaseTickDelay_def provider_found_def timer_expire_def)

lemma session_run_periodic:
  assumes "session_run itp sim s r sim'" "\<not> gt_tick (s_periodicSearchTimer s)"
  shows "s_periodicSearchTimer (fst r) = s_periodicSearchTimer s"
  using assms(1)
proof cases
  case (run_takes_op now s' cs)
  then show ?thesis using run_op_periodic [of now sim s] by simp
qed (use assms(2) in \<open>simp_all add: run_idle_tick_def periodic_untouched handleShutdown_begin_def handleShutdown_end_def\<close>)

lemma search_over_step:
  assumes "sm_step itw itp its rnd sm sm'" "iterates itw" "iterates itp" "iterates its" "sm_ok itw itp rnd sm" "search_over i sm"
  shows "search_over i sm'"
proof -
  obtain s where s: "sm_objects sm i = Some s" "gt_due (s_periodicSearchTimer s) = None" "\<not> gt_tick (s_periodicSearchTimer s)"
    using assms(6) by (auto simp: search_over_def)
  have same: "search_over i sm'" if "sm_objects sm' i = Some s'" "s_periodicSearchTimer s' = s_periodicSearchTimer s" for s'
    using that s(2,3) by (simp add: search_over_def)
  show ?thesis using assms(1)
  proof cases
    case (sm_new now wait d)
    have "i < sm_sessID sm + 1" using sm_okD(3) [OF assms(5) s(1)] word_less_plus_1 [OF sm_new(2)] by simp
    then show ?thesis using s(1)
      by (intro same [of s]) (auto simp: sm_new(1) NewSession_def GetNextSessionID_def Let_def split: option.splits)
  next
    case (sm_receive p blks haves dontHaves)
    let ?is = "InterestedSessions its (sm_sim sm) blks haves dontHaves"
    note int = InterestedSessions_distinct [OF assms(4) sm_okD(1) [OF assms(5)], of blks haves dontHaves]
    have "\<exists>s'. sm_objects (fst (tell_sessions p blks haves dontHaves ?is (sm\<lparr>sm_bpm := b\<rparr>))) i = Some s' \<and> s_periodicSearchTimer s' = s_periodicSearchTimer s" for b
    proof (cases "sm_sessions sm")
      case None
      then show ?thesis using s(1) tell_sessions_none [of "sm\<lparr>sm_bpm := b\<rparr>"] by simp
    next
      case (Some ids)
      then show ?thesis using s(1) tell_sessions_eq [of "sm\<lparr>sm_bpm := b\<rparr>" ids ?is p blks haves dontHaves] int by (simp add: periodic_untouched)
    qed
    then obtain s' where "sm_objects (fst (tell_sessions p blks haves dontHaves ?is (sm\<lparr>sm_bpm := bpm_ReceiveFrom p haves dontHaves (sm_bpm sm)\<rparr>))) i = Some s'"
      "s_periodicSearchTimer s' = s_periodicSearchTimer s" by blast
    then show ?thesis by (intro same [of s']) (simp_all add: sm_receive sm_ReceiveFrom_def Let_def split_beta)
  next
    case sm_shutdown
    let ?is = "case sm_sessions sm of None \<Rightarrow> [] | Some ids \<Rightarrow> its ids"
    have "s_periodicSearchTimer ((Session_Shutdown ^^ n) s) = s_periodicSearchTimer s" for n by (induction n) (simp_all add: Session_Shutdown_def)
    then show ?thesis using on_sessions_fold [of Session_Shutdown ?is "sm\<lparr>sm_sessions := None\<rparr>"] s(1) same
      by (simp add: sm_shutdown sm_Shutdown_def)
  next
    case (sm_event j t t')
    then show ?thesis using s session_event_periodic [OF sm_event(3)] same by (cases "j = i") (auto simp: put_session_def)
  next
    case (sm_run j t r sim')
    then show ?thesis using s session_run_periodic [OF sm_run(3)] same by (cases "j = i") (auto simp: run_session_objects)
  next
    case (sm_sender j t)
    then show ?thesis using s same by (cases "j = i") (auto simp: run_sender_objects periodic_untouched)
  next
    case (sm_sender_exit j t)
    then show ?thesis using s same by (cases "j = i") (auto simp: run_sender_objects periodic_untouched)
  qed
qed

text \<open>C25. The periodic search for providers stops for good when its timer fires at a moment at which the session has no want that
is live or was lately: the run loop takes the tick without setting the timer again, and whatever happens after that, wants that
are asked for included, the timer is never set and never fires again.\<close>

theorem periodic_search_stops:
  assumes "sm_reach itw itp its rnd sm" "iterates itw" "iterates itp" "iterates its" "sm_objects sm i = Some s" "s_phase s = Running"
    "gt_due (s_periodicSearchTimer s) = None" "gt_tick (s_periodicSearchTimer s)" "liveWantsOrder (s_sw s) = []"
    "(sm_step itw itp its rnd)\<^sup>*\<^sup>* (run_session itw i (run_periodic_tick now wait pick s) sm) sm'"
  shows "\<exists>s'. sm_objects sm' i = Some s' \<and> gt_due (s_periodicSearchTimer s') = None \<and> \<not> gt_tick (s_periodicSearchTimer s')"
proof -
  let ?sm = "run_session itw i (run_periodic_tick now wait pick s) sm"
  have "sm_step itw itp its rnd sm (run_session itw i (run_periodic_tick now wait pick s) (sm\<lparr>sm_sim := sm_sim sm\<rparr>))"
    by (rule sm_run [OF assms(5)], rule run_takes_periodic [OF assms(6,8)])
  then have "sm_reach itw itp its rnd ?sm" using assms(1) by (simp add: sm_next)
  moreover have "search_over i ?sm"
    using assms(7,9) by (simp add: search_over_def run_session_objects run_periodic_tick_def handlePeriodicSearch_def RandomLiveWant_def
        cid_Defined_def timer_taken_def)
  ultimately have start: "sm_reach itw itp its rnd ?sm \<and> search_over i ?sm" ..
  from assms(10) have "sm_reach itw itp its rnd sm' \<and> search_over i sm'"
  proof (induction rule: rtranclp_induct)
    case (step sm1 sm2)
    then show ?case using search_over_step [OF step.hyps(2) assms(2-4) sm_reach_ok [OF _ assms(2-4)]] sm_next by blast
  qed (rule start)
  then show ?thesis by (simp add: search_over_def)
qed

section \<open>Cancelled requests\<close>

text \<open>C24. Cancelling a request does not reach the sender. When the run loop takes a request to cancel keys, the sender gets nothing to cancel,
the live wants and the interests stay as they are, and in no state is a cancel among the changes of a sender: what was asked for
goes on being asked for, and no CANCEL is sent, until the block comes or the session ends.\<close>

theorem cancel_keeps_asking:
  assumes "sm_reach itw itp its rnd sm" "iterates itw" "iterates itp" "iterates its" "sm_objects sm i = Some s"
    "s_incoming s = oper # ops" "op_op oper = opCancel"
  shows "run_op now (sm_sim sm) s = (s\<lparr>s_incoming := ops, s_sw := CancelPending (op_keys oper) (s_sw s)\<rparr>, sm_sim sm, []) \<and>
    liveWants (CancelPending (op_keys oper) (s_sw s)) = liveWants (s_sw s) \<and> (\<forall>ch \<in> set (sws_changes (s_sws s)). ch_cancel ch = [])"
proof -
  have "sm_ok itw itp rnd sm" by (rule sm_reach_ok [OF assms(1-4)])
  from sm_okD(2) [OF this assms(5)] have "op_wants oper = []" "\<forall>ch \<in> set (sws_changes (s_sws s)). ch_cancel ch = []"
    using assms(6,7) by (auto simp: sess_ok_def op_ok_def sws_ok_def calm_change_def list_all_iff)
  then show ?thesis using assms(6,7) by (simp add: run_op_def sws_Cancel_def CancelPending_def)
qed

section \<open>An example\<close>

text \<open>A session that has been asked for a block and has broadcast the want.\<close>

definition ex_s1 :: Session where
  "ex_s1 = Session_New 0 100 1 10"

definition ex_sm1 :: SessionManager where
  "ex_sm1 = NewSession 0 100 10 (sm_New sim_New bpm_New)"

definition ex_s2 :: Session where
  "ex_s2 = GetBlocks_want [ex_want] ex_s1"

definition ex_s3 :: Session where
  "ex_s3 = ex_s1\<lparr>s_sw := (newSessionWants 64)\<lparr>liveWants := [ex_want \<mapsto> 5], liveWantsOrder := [ex_want]\<rparr>, s_sws := sws_Add [ex_want] (s_sws ex_s1)\<rparr>"

definition ex_sim :: SessionInterestManager where
  "ex_sim = RecordSessionInterest 1 [ex_want] sim_New"

definition ex_sm3 :: SessionManager where
  "ex_sm3 = run_session sorted_list_of_set 1 (ex_s3, [Sess_BroadcastWantHaves [ex_want]]) ((put_session 1 ex_s2 ex_sm1)\<lparr>sm_sim := ex_sim\<rparr>)"

lemma ex_sm1_eq: "ex_sm1 = \<lparr>sm_sim = sim_New, sm_bpm = bpm_New, sm_sessions = Some {1}, sm_sessID = 1, sm_objects = [1 \<mapsto> ex_s1], sm_calls = []\<rparr>"
  by (simp add: ex_sm1_def NewSession_def GetNextSessionID_def sm_New_def ex_s1_def)

lemma ex_next:
  "GetNextWants 5 (sw_BlocksRequested [ex_want] (newSessionWants 64)) =
     ((newSessionWants 64)\<lparr>liveWants := [ex_want \<mapsto> 5], liveWantsOrder := [ex_want]\<rparr>, [ex_want])"
proof -
  have "GetNextWants_loop now (Suc (Suc n)) (sw_BlocksRequested [ex_want] (newSessionWants 64)) =
      ((newSessionWants 64)\<lparr>liveWants := [ex_want \<mapsto> now], liveWantsOrder := [ex_want]\<rparr>, [ex_want])" for now n
    by (simp add: sw_BlocksRequested_def newSessionWants_def newCidQueue_def cidQueue_Push_def cidQueue_Len_def cidQueue_Pop_def)
  from this [of 5 62] show ?thesis by (simp add: GetNextWants_def) (simp add: sw_BlocksRequested_def newSessionWants_def)
qed

lemma ex_run: "run_op 5 sim_New ex_s2 = (ex_s3, ex_sim, [Sess_BroadcastWantHaves [ex_want]])"
proof -
  have "sws_spm (sws_Add ws sws) = sws_spm sws" for ws sws by (simp add: sws_Add_def addChange_def)
  then show ?thesis
    by (simp add: run_op_def ex_s2_def GetBlocks_want_def enqueue_def ex_s1_def Session_New_def Session_wantBlocks_def Let_def ex_next
        PeersDiscovered_def newSessionWantSender_def spm_New_def ex_s3_def ex_sim_def)
qed

lemma ex_sm3_eq:
  "ex_sm3 = \<lparr>sm_sim = ex_sim, sm_bpm = bpm_New, sm_sessions = Some {1}, sm_sessID = 1, sm_objects = [1 \<mapsto> ex_s3], sm_calls = [PM_BroadcastWantHaves [ex_want]]\<rparr>"
  by (simp add: ex_sm3_def run_session_def put_session_def ex_sm1_eq)

lemma ex_sm_reach:
  "sm_reach sorted_list_of_set sorted_list_of_set sorted_list_of_set (\<lambda>_. 0) ex_sm1"
  "sm_reach sorted_list_of_set sorted_list_of_set sorted_list_of_set (\<lambda>_. 0) ex_sm3"
proof -
  show 1: "sm_reach sorted_list_of_set sorted_list_of_set sorted_list_of_set (\<lambda>_. 0) ex_sm1"
    unfolding ex_sm1_def by (rule sm_next [OF sm_init sm_new]) (simp add: sm_New_def)
  have "session_event ex_s1 ex_s2" unfolding ex_s2_def by (rule ev_want)
  from sm_next [OF 1 sm_event [OF _ this]] have 2: "sm_reach sorted_list_of_set sorted_list_of_set sorted_list_of_set (\<lambda>_. 0) (put_session 1 ex_s2 ex_sm1)"
    by (simp add: ex_sm1_eq)
  have o: "sm_objects (put_session 1 ex_s2 ex_sm1) 1 = Some ex_s2" "sm_sim (put_session 1 ex_s2 ex_sm1) = sim_New" by (simp_all add: put_session_def ex_sm1_eq)
  have "s_phase ex_s2 = Running" by (simp add: ex_s2_def GetBlocks_want_def enqueue_def ex_s1_def Session_New_def)
  from run_takes_op [OF this ex_run] have "session_run sorted_list_of_set sim_New ex_s2 (ex_s3, [Sess_BroadcastWantHaves [ex_want]]) ex_sim" .
  from sm_next [OF 2 sm_run [OF o(1) this [folded o(2)]]]
  show "sm_reach sorted_list_of_set sorted_list_of_set sorted_list_of_set (\<lambda>_. 0) ex_sm3" by (simp add: ex_sm3_def)
qed

lemmas ex_its = iterates_sorted_list_of_set iterates_sorted_list_of_set iterates_sorted_list_of_set

lemma ex_s3_sel: "s_phase ex_s3 = Running" "liveWants (s_sw ex_s3) = [ex_want \<mapsto> 5]" "s_incoming ex_s3 = []" "interest ex_sim ex_want 1 = Some True"
  by (simp_all add: ex_s3_def ex_s1_def Session_New_def ex_sim_def RecordSessionInterest_interest)


theorem interests_are_live_witness:
  "\<exists>s. sm_objects ex_sm3 1 = Some s \<and> s_phase s \<noteq> Ended \<and> interest (sm_sim ex_sm3) ex_want 1 \<noteq> None"
  using interests_are_live [OF ex_sm_reach(2) ex_its, of ex_want 1 ex_s3] by (simp add: ex_sm3_eq ex_s3_sel)

theorem idle_timer_runs_witness:
  "\<exists>ws. snd (run_idle_tick 20 ex_s3) = [Sess_BroadcastWantHaves ws] \<and> set ws \<subseteq> {ex_want} \<and> ws \<noteq> []"
proof -
  have o: "sm_objects ex_sm3 1 = Some ex_s3" by (simp add: ex_sm3_eq)
  from idle_timer_runs [OF ex_sm_reach(2) ex_its o ex_s3_sel(1), of 20] show ?thesis by (simp add: ex_s3_sel)
qed

theorem periodic_search_stops_witness:
  "\<exists>sm' s'. (sm_step sorted_list_of_set sorted_list_of_set sorted_list_of_set (\<lambda>_. 0))\<^sup>*\<^sup>* ex_sm1 sm' \<and> sm_objects sm' 1 = Some s' \<and>
     s_incoming s' = [\<lparr>op_op = opWant, op_keys = [], op_wants = [ex_want]\<rparr>] \<and>
     gt_due (s_periodicSearchTimer s') = None \<and> \<not> gt_tick (s_periodicSearchTimer s')"
proof -
  let ?step = "sm_step sorted_list_of_set sorted_list_of_set sorted_list_of_set (\<lambda>_. 0)"
  let ?s = "ex_s1\<lparr>s_periodicSearchTimer := timer_expire 200 (s_periodicSearchTimer ex_s1)\<rparr>"
  let ?sm = "put_session 1 ?s ex_sm1" and ?r = "run_periodic_tick 200 100 (\<lambda>_. 0) ?s"
  let ?sm1 = "run_session sorted_list_of_set 1 ?r ?sm"
  let ?sm2 = "put_session 1 (GetBlocks_want [ex_want] (fst ?r)) ?sm1"
  have s: "s_phase ?s = Running" "gt_due (s_periodicSearchTimer ?s) = None" "gt_tick (s_periodicSearchTimer ?s)" "liveWantsOrder (s_sw ?s) = []"
    by (simp_all add: ex_s1_def Session_New_def timer_expire_def NewTimer_def newSessionWants_def)
  have o: "sm_objects ex_sm1 1 = Some ex_s1" "sm_objects ?sm 1 = Some ?s" "sm_objects ?sm1 1 = Some (fst ?r)"
    by (simp_all add: ex_sm1_eq put_session_def run_session_objects)
  have "session_event ex_s1 ?s" by (rule ev_periodic)
  then have 1: "?step ex_sm1 ?sm" by (rule sm_event [OF o(1)])
  have "?step ?sm (run_session sorted_list_of_set 1 ?r (?sm\<lparr>sm_sim := sm_sim ?sm\<rparr>))" by (rule sm_run [OF o(2)], rule run_takes_periodic [OF s(1,3)])
  then have 2: "?step ?sm ?sm1" by simp
  have "session_event (fst ?r) (GetBlocks_want [ex_want] (fst ?r))" by (rule ev_want)
  then have 3: "?step ?sm1 ?sm2" by (rule sm_event [OF o(3)])
  have "\<exists>s'. sm_objects ?sm2 1 = Some s' \<and> gt_due (s_periodicSearchTimer s') = None \<and> \<not> gt_tick (s_periodicSearchTimer s')"
    by (rule periodic_search_stops [where now = 200 and wait = 100 and pick = "\<lambda>_. 0", OF sm_next [OF ex_sm_reach(1) 1] ex_its o(2) s])
      (rule r_into_rtranclp, rule 3)
  moreover have "s_incoming (GetBlocks_want [ex_want] (fst ?r)) = [\<lparr>op_op = opWant, op_keys = [], op_wants = [ex_want]\<rparr>]"
    by (simp add: GetBlocks_want_def enqueue_def run_periodic_tick_def handlePeriodicSearch_def RandomLiveWant_def cid_Defined_def ex_s1_def Session_New_def newSessionWants_def)
  moreover have "?step\<^sup>*\<^sup>* ex_sm1 ?sm2" by (rule converse_rtranclp_into_rtranclp [OF 1 converse_rtranclp_into_rtranclp [OF 2 r_into_rtranclp [of ?step, OF 3]]])
  ultimately show ?thesis by (intro exI [of _ ?sm2] exI [of _ "GetBlocks_want [ex_want] (fst ?r)"]) (simp add: put_session_def)
qed

theorem cancel_keeps_asking_witness:
  "run_op 9 ex_sim (GetBlocks_cancel [''c''] ex_s3) = (ex_s3\<lparr>s_sw := CancelPending [''c''] (s_sw ex_s3)\<rparr>, ex_sim, []) \<and>
   liveWants (CancelPending [''c''] (s_sw ex_s3)) ex_want \<noteq> None"
proof -
  let ?s = "GetBlocks_cancel [''c''] ex_s3" and ?oper = "\<lparr>op_op = opCancel, op_keys = [''c''], op_wants = []\<rparr>"
  have o: "sm_objects ex_sm3 1 = Some ex_s3" by (simp add: ex_sm3_eq)
  have o': "sm_objects (put_session 1 ?s ex_sm3) 1 = Some ?s" "sm_sim (put_session 1 ?s ex_sm3) = ex_sim" by (simp_all add: put_session_def ex_sm3_eq)
  have i: "s_incoming ?s = ?oper # []" by (simp add: GetBlocks_cancel_def enqueue_def ex_s3_sel)
  have e: "?s\<lparr>s_incoming := []\<rparr> = ex_s3" "s_sw ?s = s_sw ex_s3" using ex_s3_sel(3) by (cases ex_s3; simp add: GetBlocks_cancel_def enqueue_def)+
  have c: "op_op ?oper = opCancel" by simp
  have "session_event ex_s3 ?s" by (rule ev_cancel)
  then have "sm_reach sorted_list_of_set sorted_list_of_set sorted_list_of_set (\<lambda>_. 0) (put_session 1 ?s ex_sm3)"
    by (rule sm_next [OF ex_sm_reach(2) sm_event [OF o]])
  from cancel_keeps_asking [OF this ex_its o'(1) i c, of 9] show ?thesis by (simp add: o'(2) e ex_s3_sel)
qed

end
