(* ===== verification/ConnectEvents.thy ===== *)
theory ConnectEvents
  imports Prelude
begin

text \<open>
  \<^verbatim>\<open>network/connecteventmanager.go\<close>: turns the connections to a peer, of which there may be several, and the signs that a peer has
  stopped or resumed answering into one event when the peer comes and one when it goes. Operations return the calls that they make
  to the listener.
\<close>

section \<open>State and operations\<close>

datatype listener_call = Told_PeerConnected peer | Told_PeerDisconnected peer

record connState =
  cs_refs :: int
  cs_responsive :: bool

record connectEventManager =
  cem_conns :: "peer \<rightharpoonup> connState"

definition newConnectEventManager :: connectEventManager where
  "newConnectEventManager = \<lparr>cem_conns = Map.empty\<rparr>"

definition cem_Connected :: "peer \<Rightarrow> connectEventManager \<Rightarrow> connectEventManager \<times> listener_call list" where
  "cem_Connected p c =
     (let state = (case cem_conns c p of None \<Rightarrow> \<lparr>cs_refs = 0, cs_responsive = True\<rparr> | Some state \<Rightarrow> state);
          state = state\<lparr>cs_refs := cs_refs state + 1\<rparr>
      in (c\<lparr>cem_conns := (cem_conns c)(p \<mapsto> state)\<rparr>,
          if cs_refs state = 1 \<and> cs_responsive state then [Told_PeerConnected p] else []))"

definition cem_Disconnected :: "peer \<Rightarrow> connectEventManager \<Rightarrow> connectEventManager \<times> listener_call list" where
  "cem_Disconnected p c =
     (case cem_conns c p of
        None \<Rightarrow> (c, [])
      | Some state \<Rightarrow>
          let state = state\<lparr>cs_refs := cs_refs state - 1\<rparr>
          in if cs_refs state = 0
             then (c\<lparr>cem_conns := (cem_conns c)(p := None)\<rparr>, if cs_responsive state then [Told_PeerDisconnected p] else [])
             else (c\<lparr>cem_conns := (cem_conns c)(p \<mapsto> state)\<rparr>, []))"

definition MarkUnresponsive :: "peer \<Rightarrow> connectEventManager \<Rightarrow> connectEventManager \<times> listener_call list" where
  "MarkUnresponsive p c =
     (case cem_conns c p of
        None \<Rightarrow> (c, [])
      | Some state \<Rightarrow>
          if \<not> cs_responsive state then (c, [])
          else (c\<lparr>cem_conns := (cem_conns c)(p \<mapsto> state\<lparr>cs_responsive := False\<rparr>)\<rparr>, [Told_PeerDisconnected p]))"

text \<open>\<^verbatim>\<open>OnMessage\<close> looks twice: first under the read lock, and if there is something to change then again under the write lock. Between the
two, other operations may run: they are two steps.\<close>

definition OnMessage_check :: "peer \<Rightarrow> connectEventManager \<Rightarrow> bool" where
  "OnMessage_check p c \<longleftrightarrow> (case cem_conns c p of None \<Rightarrow> False | Some state \<Rightarrow> \<not> cs_responsive state)"

definition OnMessage_change :: "peer \<Rightarrow> connectEventManager \<Rightarrow> connectEventManager \<times> listener_call list" where
  "OnMessage_change p c =
     (case cem_conns c p of
        None \<Rightarrow> (c, [])
      | Some state \<Rightarrow>
          if cs_responsive state then (c, [])
          else (c\<lparr>cem_conns := (cem_conns c)(p \<mapsto> state\<lparr>cs_responsive := True\<rparr>)\<rparr>, [Told_PeerConnected p]))"

section \<open>What the listener is told\<close>

text \<open>The events of the network, in the order in which the manager handles them. \<open>Ev_message_change\<close> is the second half of \<^verbatim>\<open>OnMessage\<close>,
which may run in any state that came after the check.\<close>

datatype conn_event = Ev_connected peer | Ev_disconnected peer | Ev_unresponsive peer | Ev_message_change peer

fun conn_step :: "conn_event \<Rightarrow> connectEventManager \<Rightarrow> connectEventManager \<times> listener_call list" where
  "conn_step (Ev_connected p) c = cem_Connected p c"
| "conn_step (Ev_disconnected p) c = cem_Disconnected p c"
| "conn_step (Ev_unresponsive p) c = MarkUnresponsive p c"
| "conn_step (Ev_message_change p) c = OnMessage_change p c"

fun conn_run :: "conn_event list \<Rightarrow> connectEventManager \<Rightarrow> connectEventManager \<times> listener_call list" where
  "conn_run [] c = (c, [])"
| "conn_run (ev # evs) c = (case conn_step ev c of (c, cs) \<Rightarrow> case conn_run evs c of (c, cs') \<Rightarrow> (c, cs @ cs'))"

text \<open>A listener that starts with the peer absent or present accepts calls only if each brings a change; the result is whether the peer is
present at the end.\<close>

fun listens :: "peer \<Rightarrow> bool \<Rightarrow> listener_call list \<Rightarrow> bool option" where
  "listens p b [] = Some b"
| "listens p b (Told_PeerConnected q # cs) = (if q \<noteq> p then listens p b cs else if b then None else listens p True cs)"
| "listens p b (Told_PeerDisconnected q # cs) = (if q \<noteq> p then listens p b cs else if b then listens p False cs else None)"

text \<open>The number of open connections, where closing one that is not open changes nothing.\<close>

fun open_conns :: "peer \<Rightarrow> int \<Rightarrow> conn_event list \<Rightarrow> int" where
  "open_conns p n [] = n"
| "open_conns p n (Ev_connected q # evs) = open_conns p (if q = p then n + 1 else n) evs"
| "open_conns p n (Ev_disconnected q # evs) = open_conns p (if q = p \<and> n > 0 then n - 1 else n) evs"
| "open_conns p n (_ # evs) = open_conns p n evs"

definition conn_refs :: "connectEventManager \<Rightarrow> peer \<Rightarrow> int" where
  "conn_refs c p = (case cem_conns c p of None \<Rightarrow> 0 | Some state \<Rightarrow> cs_refs state)"

definition conn_present :: "connectEventManager \<Rightarrow> peer \<Rightarrow> bool" where
  "conn_present c p \<longleftrightarrow> (case cem_conns c p of None \<Rightarrow> False | Some state \<Rightarrow> cs_responsive state)"

definition cem_wf :: "connectEventManager \<Rightarrow> bool" where
  "cem_wf c \<longleftrightarrow> (\<forall>p state. cem_conns c p = Some state \<longrightarrow> cs_refs state > 0)"

lemmas conn_op_defs = cem_Connected_def cem_Disconnected_def MarkUnresponsive_def OnMessage_change_def

lemma conn_step_wf: "cem_wf c \<Longrightarrow> conn_step ev c = (c', cs) \<Longrightarrow> cem_wf c'"
  by (cases ev) (fastforce simp: conn_op_defs cem_wf_def Let_def split: option.splits if_splits)+

lemma conn_step_listens: "cem_wf c \<Longrightarrow> conn_step ev c = (c', cs) \<Longrightarrow> listens p (conn_present c p) cs = Some (conn_present c' p)"
  by (cases ev) (fastforce simp: conn_op_defs conn_present_def cem_wf_def Let_def split: option.splits if_splits)+

lemma conn_step_refs: "cem_wf c \<Longrightarrow> conn_step ev c = (c', cs) \<Longrightarrow> conn_refs c' p = open_conns p (conn_refs c p) [ev]"
  by (cases ev) (fastforce simp: conn_op_defs conn_refs_def cem_wf_def Let_def split: option.splits if_splits)+

lemma listens_append: "listens p b (cs @ cs') = (case listens p b cs of None \<Rightarrow> None | Some b' \<Rightarrow> listens p b' cs')"
  by (induction p b cs rule: listens.induct) simp_all

lemma open_conns_Cons: "open_conns p n (ev # evs) = open_conns p (open_conns p n [ev]) evs"
  by (cases ev) simp_all

lemma conn_run_ok:
  assumes "cem_wf c" "conn_run evs c = (c', cs)"
  shows "cem_wf c' \<and> listens p (conn_present c p) cs = Some (conn_present c' p) \<and> conn_refs c' p = open_conns p (conn_refs c p) evs"
  using assms
proof (induction evs arbitrary: c cs)
  case (Cons ev evs)
  obtain c1 cs1 where 1: "conn_step ev c = (c1, cs1)" by force
  obtain cs2 where 2: "conn_run evs c1 = (c', cs2)" "cs = cs1 @ cs2" using Cons.prems(2) by (auto simp: 1 split: prod.splits)
  note IH = Cons.IH [OF conn_step_wf [OF Cons.prems(1) 1] 2(1)]
  then show ?case
    using conn_step_listens [OF Cons.prems(1) 1, of p] conn_step_refs [OF Cons.prems(1) 1, of p]
    unfolding 2(2) listens_append open_conns_Cons [of p _ ev evs] by simp
qed simp

text \<open>C21. Whatever the network reports, and however the two halves of \<^verbatim>\<open>OnMessage\<close> are interleaved with other events, the listener is told that a peer is
connected and that it is disconnected in turn, never the same twice in a row and beginning with connected. At every moment the last thing
it was told is that the peer is connected exactly if the peer has a connection and has not been marked unresponsive since it last answered, and
a peer is kept exactly while it has open connections.\<close>

theorem conn_events_alternate:
  assumes "conn_run evs newConnectEventManager = (c, cs)"
  shows "listens p False cs = Some (conn_present c p) \<and> conn_refs c p = open_conns p 0 evs \<and> (cem_conns c p = None \<longleftrightarrow> open_conns p 0 evs = 0)"
proof -
  have new: "cem_wf newConnectEventManager" "\<not> conn_present newConnectEventManager p" "conn_refs newConnectEventManager p = 0"
    by (simp_all add: cem_wf_def newConnectEventManager_def conn_present_def conn_refs_def)
  note run = conn_run_ok [OF new(1) assms, of p]
  have "cem_conns c p = None \<longleftrightarrow> conn_refs c p = 0" using run by (fastforce simp: conn_refs_def cem_wf_def split: option.splits)
  then show ?thesis using run new(2,3) by simp
qed

theorem conn_events_alternate_witness:
  "listens ''p'' False [Told_PeerConnected ''p'', Told_PeerDisconnected ''p'', Told_PeerConnected ''p''] = Some True"
proof -
  let ?evs = "[Ev_connected ''p'', Ev_connected ''p'', Ev_unresponsive ''p'', Ev_disconnected ''p'', Ev_message_change ''p'']"
  have "conn_run ?evs newConnectEventManager =
      (\<lparr>cem_conns = [''p'' \<mapsto> \<lparr>cs_refs = 1, cs_responsive = True\<rparr>]\<rparr>, [Told_PeerConnected ''p'', Told_PeerDisconnected ''p'', Told_PeerConnected ''p''])"
    by (simp add: conn_op_defs newConnectEventManager_def)
  from conn_events_alternate [OF this, of "''p''"] show ?thesis by (simp add: conn_present_def)
qed

end
