(* ===== verification/Spec2Isabelle.thy ===== *)
theory Spec2Isabelle
  imports PeerWantSpec BlockPresence SessionInterest SessionWants PeerManager Message MessageQueue EngineSpec SessionSpec ConnectEvents
begin

text \<open>
  Verification of go-bitswap-auth, an implementation of the Bitswap protocol in which a block is asked for by a want: a CID together with an
  authorisation, which the peer that has the block checks before it sends it.

  \<^bold>\<open>The program.\<close> A node asks and answers. To ask, a session (theory \<open>Session\<close>) keeps the wants of one transfer; its want sender decides which peer is asked
  for which block; the session manager routes what arrives to the sessions that are interested; the peer manager and its want manager remember what each
  peer has been told; a message queue for each peer builds and sends the messages. To answer, the decision engine keeps a
  ledger of what each peer wants, queues tasks, and turns them into envelopes with the blocks that the blockstore allows the peer to have.

  \<^bold>\<open>Theories and sources.\<close> Paths are below \<^verbatim>\<open>src/\<close>. A struct is a record, a method an operation on it with the name of the method, prefixed where names clash.
  \<^item> \<open>Prelude\<close>: types, iteration over maps, shared lemmas. \<open>MultiIndex\<close>: the contract of an index from keys to sets of peers,
    a locale interpreted on the want manager's reverse index, the engine's peer ledger and the peer manager's sessions.
  \<^item> \<open>Auth\<close> (\<^verbatim>\<open>auth/\<close>): wants, sets of wants, authorised blocks and the blockstore that checks authorisations. \<open>Wantlist\<close> (\<^verbatim>\<open>wantlist/wantlist.go\<close>).
  \<^item> \<open>PeerWantManager\<close>, \<open>PeerWantSpec\<close> (\<^verbatim>\<open>internal/peermanager/peerwantmanager.go\<close>): who has been told what; an abstract view and the refinement of it.
    \<open>PeerManager\<close> (\<^verbatim>\<open>internal/peermanager/peermanager.go\<close>): over any queue that keeps the contract of the locale \<open>peer_queue\<close>.
  \<^item> \<open>BlockPresence\<close>, \<open>SessionInterest\<close> (\<^verbatim>\<open>internal/blockpresencemanager\<close>, \<^verbatim>\<open>internal/sessioninterestmanager\<close>): what sessions share.
  \<^item> \<open>SessionWants\<close>, \<open>SessionPeers\<close>, \<open>SessionSender\<close>, \<open>Session\<close> (\<^verbatim>\<open>internal/session\<close>, \<^verbatim>\<open>internal/sessionpeermanager\<close>) and
    \<open>SessionManager\<close> (\<^verbatim>\<open>internal/sessionmanager\<close>), with the proofs in \<open>SenderSpec\<close> and \<open>SessionSpec\<close>.
  \<^item> \<open>PbWire\<close>, \<open>PbMessage\<close> (\<^verbatim>\<open>message/pb\<close>), \<open>Message\<close> (\<^verbatim>\<open>message/message.go\<close>): the wire format and the messages.
  \<^item> \<open>DontHaveTimeout\<close>, \<open>MessageQueue\<close> (\<^verbatim>\<open>internal/messagequeue\<close>): the queue of a peer, with callers and the goroutine of the queue interleaved; it
    interprets \<open>peer_queue\<close>.
  \<^item> \<open>Ledgers\<close>, \<open>ScoreLedger\<close>, \<open>BlockstoreManager\<close>, \<open>Engine\<close>, \<open>EngineSpec\<close> (\<^verbatim>\<open>internal/decision\<close>): the decision engine.
  \<^item> \<open>ConnectEvents\<close> (\<^verbatim>\<open>network/connecteventmanager.go\<close>).

  \<^bold>\<open>What is shown.\<close>
  \<^item> Answering: a block leaves in an envelope only for a peer that asked for it and whose authorisation is accepted, and only what was asked is answered;
    arriving blocks are queued for every peer that waits for them; looking for the next envelope ends; scores are bounded and fade.
  \<^item> Asking: each connected peer has been told exactly the wants on record; the queues carry what is on record; no wake-up of a queue is lost
    and it never blocks; a session with peers has asked someone for every pending want or knows that nobody has it; every session
    hears of the blocks that it waits for; interests belong to sessions that have not ended; the idle timer of a session keeps running.
  \<^item> Messages: marshalling fills its buffer exactly and reads back, also through the framing of the network; messages built by any sequence of calls
    are well formed.
  \<^item> Flaws: cancelling a request does not reach the want sender, the periodic search stops for good when it finds no live want,
    a clone of a message loses the bytes of its blocks, and the fetch queue can return a want with an authorisation that was removed.

  \<^bold>\<open>Conventions.\<close> A method that holds a lock is one step; where a method releases its lock in between, it is several. Step relations are inductive predicates and
  reachability is closure under them. The order in which Go ranges over a map is an argument (\<open>itw\<close>, \<open>itp\<close>, \<open>its\<close>), about which only \<^term>\<open>iterates\<close> is assumed. The
  clock, random numbers and the task queue (\<^verbatim>\<open>go-peertaskqueue\<close>) are arguments. A channel is a queue, and a caller that finds it full is taken to
  wait; deadlocks that arise from full channels are outside the model. Scores, latencies' averages and shares of peers are exact numbers instead
  of 64-bit floats; durations do not overflow. Session ids are 64-bit words, and no session is made after the last id.

  \<^bold>\<open>Bounds.\<close> Loops over slices and maps are folds or structural recursion and need no fuel. The only fuel is the number of rounds of \<^verbatim>\<open>nextEnvelope\<close>, and as many rounds as
  there are tasks and wakes are shown to be enough. The loops that decode messages recurse on the bytes that are left, with a proof of termination.

  \<^bold>\<open>Not modelled.\<close> \<^verbatim>\<open>bitswap.go\<close> and \<^verbatim>\<open>workers.go\<close> connect the components, count and announce blocks; \<^verbatim>\<open>receiveBlocksFrom\<close> and \<^verbatim>\<open>ReceiveMessage\<close> call modelled operations,
  but no theorem is about their composition. The getter, the notifications (a wrapper of \<^verbatim>\<open>cskr/pubsub\<close>) and the provider query manager move values between channels and
  wait for contexts. \<^verbatim>\<open>network/ipfs_impl.go\<close> is input and output over libp2p. \<^verbatim>\<open>testnet\<close>, \<^verbatim>\<open>testinstance\<close>, \<^verbatim>\<open>testutil\<close> and \<^verbatim>\<open>blocksutil\<close> serve the tests. In the generated protobuf
  code the getters and the printing of messages are left out. Logging and metrics are left out everywhere, except the gauges of the
  want manager and of the blockstore manager.
\<close>

end
